(* ===== verification/Prelude.thy ===== *)
theory Prelude
  imports Main "HOL-Library.Word"
begin

text \<open>
  Shared vocabulary of the TelePath development: the integer types of
  \<^verbatim>\<open>common/types.h\<close>, the enumeration of frame ids that the code's
  \<^verbatim>\<open>for\<close> loops run over, and singly linked chains of indices, which are the
  representation behind the free list, the page table, the frame lists of the
  replacers and the SIEVE queue.  Arrays indexed by a frame id are functions on
  \<open>FrameId\<close>; that every index used lies inside the array is part of the invariants
  of the components.
\<close>

section \<open>Collections of facts\<close>

named_theorems fc_simps \<open>bit-field equations of the frame control word\<close>
named_theorems chain_simps \<open>rewriting linked chains\<close>

section \<open>Integer types and page tags\<close>

type_synonym u8 = "8 word"
type_synonym u16 = "16 word"
type_synonym u32 = "32 word"
type_synonym u64 = "64 word"
type_synonym size_t = "64 word"

type_synonym FileId = "32 word"
type_synonym BlockId = "64 word"
type_synonym FrameId = "32 word"
type_synonym Lsn = "64 word"

definition kInvalidFrameId :: FrameId where
  "kInvalidFrameId = - 1"

definition kInvalidLsn :: Lsn where
  "kInvalidLsn = 0"

definition kCacheLineSize :: nat where
  "kCacheLineSize = 64"

record BufferTag =
  bt_file_id :: FileId
  bt_block_id :: BlockId

text \<open>The default-constructed tag \<^verbatim>\<open>BufferTag{}\<close>.\<close>

definition emptyTag :: BufferTag where
  "emptyTag = \<lparr>bt_file_id = 0, bt_block_id = 0\<rparr>"

lemma unat_kInvalidFrameId: "unat kInvalidFrameId = 4294967295"
  by (simp add: kInvalidFrameId_def unsigned_minus_1_eq_mask mask_eq_exp_minus_1)

lemma in_range_not_invalid: "unat f < n \<Longrightarrow> n \<le> 4294967295 \<Longrightarrow> f \<noteq> kInvalidFrameId"
  using unat_kInvalidFrameId by fastforce

section \<open>Frame ids in order\<close>

text \<open>The values taken by \<^verbatim>\<open>for (FrameId f = 0; f < n; ++f)\<close>.\<close>

definition frame_ids :: "nat \<Rightarrow> FrameId list" where
  "frame_ids n = map word_of_nat [0..<n]"

lemma unat_frame_id: "i < 4294967296 \<Longrightarrow> unat (word_of_nat i :: FrameId) = i"
  by (simp add: unat_of_nat take_bit_nat_eq_self)

lemma length_frame_ids [simp]: "length (frame_ids n) = n"
  by (simp add: frame_ids_def)

lemma set_frame_ids: "n \<le> 4294967296 \<Longrightarrow> set (frame_ids n) = {f. unat f < n}"
proof -
  assume n: "n \<le> 4294967296"
  have "f \<in> set (frame_ids n)" if "unat f < n" for f
    using that unfolding frame_ids_def by (auto intro!: image_eqI [where x = "unat f"])
  moreover have "unat f < n" if "f \<in> set (frame_ids n)" for f
    using that n by (auto simp: frame_ids_def unat_frame_id)
  ultimately show ?thesis by blast
qed

lemma distinct_frame_ids: "n \<le> 4294967296 \<Longrightarrow> distinct (frame_ids n)"
  by (auto simp: frame_ids_def distinct_map inj_on_def
      dest!: arg_cong [where f = "unat :: FrameId \<Rightarrow> nat"] simp: unat_frame_id)

section \<open>Powers of two\<close>

text \<open>\<open>std::bit_ceil\<close>: the least power of two that is not smaller.\<close>

function bit_ceil_from :: "nat \<Rightarrow> nat \<Rightarrow> nat" where
  "bit_ceil_from p n = (if n \<le> p \<or> p = 0 then p else bit_ceil_from (2 * p) n)"
  by auto
termination by (relation "measure (\<lambda>(p, n). n - p)") auto

declare bit_ceil_from.simps [simp del]

lemma bit_ceil_from_power:
  "\<exists>k \<ge> i. bit_ceil_from (2 ^ i) n = 2 ^ k \<and> n \<le> 2 ^ k \<and> (k = i \<or> 2 ^ (k - 1) < n)"
proof (induction "n - 2 ^ i" arbitrary: i rule: less_induct)
  case less
  show ?case
  proof (cases "n \<le> 2 ^ i")
    case True
    then show ?thesis by (intro exI [of _ i]) (simp add: bit_ceil_from.simps)
  next
    case False
    have "(2 :: nat) ^ i < 2 ^ Suc i" "2 ^ i < n" using False by simp_all
    then have "n - 2 ^ Suc i < n - 2 ^ i" by (rule diff_less_mono2)
    from less [OF this] obtain k where k: "k \<ge> Suc i" "bit_ceil_from (2 ^ Suc i) n = 2 ^ k" "n \<le> 2 ^ k"
      "k = Suc i \<or> 2 ^ (k - 1) < n" by blast
    moreover have "bit_ceil_from (2 ^ i) n = bit_ceil_from (2 ^ Suc i) n"
      using False by (subst bit_ceil_from.simps) simp
    ultimately show ?thesis using False by (intro exI [of _ k]) auto
  qed
qed

section \<open>Linked chains\<close>

text \<open>
  \<open>chain nx z p xs\<close>: starting at \<open>p\<close> and following \<open>nx\<close>, the nodes visited before
  the end marker \<open>z\<close> are exactly \<open>xs\<close>.
\<close>

fun chain :: "('a \<Rightarrow> 'a) \<Rightarrow> 'a \<Rightarrow> 'a \<Rightarrow> 'a list \<Rightarrow> bool" where
  "chain nx z p [] \<longleftrightarrow> p = z"
| "chain nx z p (x # xs) \<longleftrightarrow> p = x \<and> x \<noteq> z \<and> chain nx z (nx x) xs"

lemma chain_at_end [simp, chain_simps]: "chain nx z z xs \<longleftrightarrow> xs = []"
  by (cases xs) auto

lemma chain_frame [simp, chain_simps]:
  "u \<notin> set xs \<Longrightarrow> chain (nx(u := v)) z p xs = chain nx z p xs"
  by (induction xs arbitrary: p) auto

lemma chain_cong: "(\<And>x. x \<in> set xs \<Longrightarrow> nx x = nx' x) \<Longrightarrow> chain nx z p xs = chain nx' z p xs"
  by (induction xs arbitrary: p) auto

lemma chain_not_end: "chain nx z p xs \<Longrightarrow> z \<notin> set xs"
  by (induction xs arbitrary: p) auto

lemma chain_unique: "chain nx z p xs \<Longrightarrow> chain nx z p ys \<Longrightarrow> xs = ys"
proof (induction xs arbitrary: p ys)
  case Nil
  then show ?case by simp
next
  case (Cons x xs)
  then show ?case by (cases ys) auto
qed

lemma chain_suffix: "chain nx z p (xs @ x # ys) \<Longrightarrow> chain nx z x (x # ys)"
  by (induction xs arbitrary: p) auto

lemma chain_distinct: "chain nx z p xs \<Longrightarrow> distinct xs"
proof (induction xs arbitrary: p)
  case Nil
  then show ?case by simp
next
  case (Cons x xs)
  have "x \<notin> set xs"
  proof
    assume "x \<in> set xs"
    then obtain as bs where xs: "xs = as @ x # bs" by (meson split_list)
    with Cons.prems have "chain nx z x (x # as @ x # bs)" by simp
    moreover from Cons.prems xs have "chain nx z x (x # bs)"
      using chain_suffix [of nx z p "x # as" x bs] by simp
    ultimately have "x # as @ x # bs = x # bs" by (rule chain_unique)
    then show False by simp
  qed
  with Cons show ?case by auto
qed

lemma chain_next: "chain nx z p (as @ a # b # bs) \<Longrightarrow> nx a = b"
  by (induction as arbitrary: p) auto

lemma chain_last: "chain nx z p (as @ [a]) \<Longrightarrow> nx a = z"
  by (induction as arbitrary: p) auto

lemma chain_hd: "chain nx z p (x # xs) \<Longrightarrow> p = x"
  by simp

lemma chain_start_end_iff: "chain nx z p xs \<Longrightarrow> p = z \<longleftrightarrow> xs = []"
  by (cases xs) auto

text \<open>Removing a node that has a predecessor, and appending a node at the end.\<close>

lemma chain_remove:
  assumes "chain nx z p (as @ a # f # bs)"
  shows "chain (nx(a := nx f)) z p (as @ a # bs)"
  using assms
proof (induction as arbitrary: p)
  case Nil
  then have "chain nx z p (a # f # bs)" by simp
  then have "a \<notin> set (f # bs)" using chain_distinct by fastforce
  with Nil show ?case by (simp del: fun_upd_apply) simp
next
  case (Cons x as)
  from chain_distinct [OF Cons.prems] have "x \<noteq> a" by auto
  with Cons show ?case by auto
qed

lemma chain_snoc:
  assumes "chain nx z p (as @ [a])" and "f \<notin> set (as @ [a])" and "f \<noteq> z"
  shows "chain (nx(a := f, f := z)) z p (as @ [a, f])"
  using assms
proof (induction as arbitrary: p)
  case Nil
  then show ?case by auto
next
  case (Cons x as)
  from chain_distinct [OF Cons.prems(1)] have "x \<noteq> a" by auto
  with Cons show ?case by auto
qed

text \<open>
  The traversal \<^verbatim>\<open>for (c = p; c != z; c = nx[c])\<close> that stops at the first node with
  \<open>P\<close>.  On an arbitrary array the loop need not end; on a chain it is \<open>List.find\<close>.
\<close>

partial_function (option) chain_find ::
  "('a \<Rightarrow> 'a) \<Rightarrow> 'a \<Rightarrow> ('a \<Rightarrow> bool) \<Rightarrow> 'a \<Rightarrow> 'a option option" where
  "chain_find nx z P c =
     (if c = z then Some None
      else if P c then Some (Some c)
      else chain_find nx z P (nx c))"

lemma chain_find_eq: "chain nx z p xs \<Longrightarrow> chain_find nx z P p = Some (List.find P xs)"
proof (induction xs arbitrary: p)
  case Nil
  then show ?case by (simp add: chain_find.simps)
next
  case (Cons x xs)
  then show ?case by (subst chain_find.simps) simp
qed

section \<open>Lists\<close>

lemma find_SomeD: "List.find P xs = Some x \<Longrightarrow> x \<in> set xs \<and> P x"
  by (induction xs) (auto split: if_splits)

lemma find_first:
  "List.find P xs = Some x \<Longrightarrow> \<exists>as bs. xs = as @ x # bs \<and> (\<forall>a \<in> set as. \<not> P a)"
proof (induction xs)
  case Nil
  then show ?case by simp
next
  case (Cons y ys)
  show ?case
  proof (cases "P y")
    case True
    with Cons.prems have "y # ys = [] @ x # ys" by simp
    then show ?thesis by (metis empty_iff list.set(1))
  next
    case False
    with Cons obtain as bs where "ys = as @ x # bs" "\<forall>a \<in> set as. \<not> P a" by auto
    with False have "y # ys = (y # as) @ x # bs \<and> (\<forall>a \<in> set (y # as). \<not> P a)" by simp
    then show ?thesis by blast
  qed
qed

lemma remove1_append_mid:
  "distinct (as @ f # bs) \<Longrightarrow> remove1 f (as @ f # bs) = as @ bs"
  by (simp add: remove1_append)

end
