(* ===== verification/Status.thy ===== *)
theory Status
  imports Prelude
begin

text \<open>
  The outcome types of \<^verbatim>\<open>common/status.h\<close> and \<^verbatim>\<open>common/status.cc\<close>: error codes,
  the class a caller derives from a code, the \<^verbatim>\<open>Error\<close> value and the two
  \<^verbatim>\<open>std::expected\<close> instances \<open>Result\<close> and \<open>Status\<close>, which are sums with the
  error on the left.
\<close>

section \<open>Error codes and classes\<close>

text \<open>
  \<^verbatim>\<open>ErrorCode\<close> is an enumeration over \<^verbatim>\<open>std::uint8_t\<close>; a cast can also produce a
  value without an enumerator, which is \<open>kUnlistedCode\<close> here.
\<close>

datatype ErrorCode =
    kInvalidArgument
  | kNotFound
  | kIoError
  | kUnavailable
  | kResourceExhausted
  | kInternal
  | kFailed
  | kUnlistedCode u8

datatype ErrorClass = kPage | kResource | kUsage | kFatal

fun code_value :: "ErrorCode \<Rightarrow> u8" where
  "code_value kInvalidArgument = 1"
| "code_value kNotFound = 2"
| "code_value kIoError = 3"
| "code_value kUnavailable = 4"
| "code_value kResourceExhausted = 5"
| "code_value kInternal = 6"
| "code_value kFailed = 7"
| "code_value (kUnlistedCode b) = b"

definition code_of_value :: "u8 \<Rightarrow> ErrorCode" where
  "code_of_value b =
     (if b = 1 then kInvalidArgument
      else if b = 2 then kNotFound
      else if b = 3 then kIoError
      else if b = 4 then kUnavailable
      else if b = 5 then kResourceExhausted
      else if b = 6 then kInternal
      else if b = 7 then kFailed
      else kUnlistedCode b)"

record Error =
  err_code :: ErrorCode
  err_message :: string
  err_system_error :: int

text \<open>The constructor: a null message becomes the empty string.\<close>

definition mk_Error :: "ErrorCode \<Rightarrow> string option \<Rightarrow> int \<Rightarrow> Error" where
  "mk_Error c m e =
     \<lparr>err_code = c, err_message = (case m of None \<Rightarrow> '''' | Some t \<Rightarrow> t), err_system_error = e\<rparr>"

fun error_class :: "ErrorCode \<Rightarrow> ErrorClass" where
  "error_class kIoError = kPage"
| "error_class kResourceExhausted = kResource"
| "error_class kInvalidArgument = kUsage"
| "error_class kNotFound = kUsage"
| "error_class kUnavailable = kUsage"
| "error_class kInternal = kFatal"
| "error_class kFailed = kFatal"
| "error_class (kUnlistedCode _) = kFatal"

definition retryable :: "Error \<Rightarrow> bool" where
  "retryable e \<longleftrightarrow> error_class (err_code e) = kResource"

text \<open>\<^verbatim>\<open>Error::ToString\<close>; the C library's \<^verbatim>\<open>strerror\<close> is a parameter.\<close>

definition ToString :: "(int \<Rightarrow> string) \<Rightarrow> Error \<Rightarrow> string" where
  "ToString strerror e =
     (if err_system_error e = 0 then err_message e
      else err_message e @ '': '' @ strerror (err_system_error e))"

section \<open>Results\<close>

type_synonym 'a Result = "Error + 'a"
type_synonym Status = "unit Result"

abbreviation Ok :: Status where
  "Ok \<equiv> Inr ()"

definition InvalidArgument :: "string \<Rightarrow> Error" where
  "InvalidArgument m = mk_Error kInvalidArgument (Some m) 0"

definition NotFound :: "string \<Rightarrow> int \<Rightarrow> Error" where
  "NotFound m e = mk_Error kNotFound (Some m) e"

definition IoError :: "string \<Rightarrow> int \<Rightarrow> Error" where
  "IoError m e = mk_Error kIoError (Some m) e"

definition Unavailable :: "string \<Rightarrow> int \<Rightarrow> Error" where
  "Unavailable m e = mk_Error kUnavailable (Some m) e"

definition ResourceExhausted :: "string \<Rightarrow> Error" where
  "ResourceExhausted m = mk_Error kResourceExhausted (Some m) 0"

definition Internal :: "string \<Rightarrow> Error" where
  "Internal m = mk_Error kInternal (Some m) 0"

definition Failed :: "string \<Rightarrow> Error" where
  "Failed m = mk_Error kFailed (Some m) 0"

lemmas error_builders = mk_Error_def InvalidArgument_def NotFound_def IoError_def
  Unavailable_def ResourceExhausted_def Internal_def Failed_def

lemma builder_codes [simp]:
  "err_code (InvalidArgument m) = kInvalidArgument"
  "err_code (NotFound m e) = kNotFound"
  "err_code (IoError m e) = kIoError"
  "err_code (Unavailable m e) = kUnavailable"
  "err_code (ResourceExhausted m) = kResourceExhausted"
  "err_code (Internal m) = kInternal"
  "err_code (Failed m) = kFailed"
  by (simp_all add: error_builders)

section \<open>Codes as bytes\<close>

text \<open>Codes that have an enumerator; the only ones the library constructs.\<close>

definition listed :: "ErrorCode \<Rightarrow> bool" where
  "listed c \<longleftrightarrow> (\<forall>b. c \<noteq> kUnlistedCode b)"

lemma code_of_value_inverse: "listed c \<Longrightarrow> code_of_value (code_value c) = c"
  by (cases c) (simp_all add: listed_def code_of_value_def)

lemma code_value_nonzero: "listed c \<Longrightarrow> code_value c \<noteq> 0"
  by (cases c) (simp_all add: listed_def)

end
