(* ===== verification/Frame_Control.thy ===== *)
theory Frame_Control
  imports Status
begin

unbundle bit_operations_syntax

text \<open>
  The frame control word of \<^verbatim>\<open>buffer/frame_control.h\<close>: a 32-bit word holding the
  residency state, the dirty and writeback flags, the content latch, the waiter bit and
  the pin count.  Every operation of the code is a compare-and-swap loop; the definition
  of an operation here is the iteration whose compare-and-swap succeeds, as a function of
  the word it replaces.  The theory \<^verbatim>\<open>Frame_Fields\<close> reads the word as a record of
  fields and shows what each operation does to them.
\<close>

section \<open>Layout\<close>

text \<open>
  \<^verbatim>\<open>BufferFrameState\<close> has three enumerators; the two-bit field has a fourth value, to
  which none of them belongs.
\<close>

datatype BufferFrameState = kFree | kLoading | kResident | kNoState

definition kStateMask :: u32 where "kStateMask = 0x3"
definition kDirty :: u32 where "kDirty = push_bit 2 1"
definition kWritebackQueued :: u32 where "kWritebackQueued = push_bit 3 1"
definition kWritebackActive :: u32 where "kWritebackActive = push_bit 4 1"
definition kPrefetched :: u32 where "kPrefetched = push_bit 5 1"
definition kRedirtied :: u32 where "kRedirtied = push_bit 6 1"
definition kExclusive :: u32 where "kExclusive = push_bit 7 1"
definition kSharedOne :: u32 where "kSharedOne = push_bit 8 1"
definition kSharedMask :: u32 where "kSharedMask = push_bit 8 0xFF"
definition kMaxShared :: u32 where "kMaxShared = 0xFF"
definition kWaiters :: u32 where "kWaiters = push_bit 16 1"
definition kPinOne :: u32 where "kPinOne = push_bit 17 1"
definition kPinMask :: u32 where "kPinMask = push_bit 17 0x7FFF"
definition kMaxPins :: u32 where "kMaxPins = 0x7FFF"
definition kWritebackMask :: u32 where "kWritebackMask = kWritebackQueued OR kWritebackActive"
definition kLatchMask :: u32 where "kLatchMask = kExclusive OR kSharedMask"

definition state_of_bits :: "u32 \<Rightarrow> BufferFrameState" where
  "state_of_bits b = (if b = 0 then kFree else if b = 1 then kLoading
     else if b = 2 then kResident else kNoState)"

fun state_bits :: "BufferFrameState \<Rightarrow> u32" where
  "state_bits kFree = 0"
| "state_bits kLoading = 1"
| "state_bits kResident = 2"
| "state_bits kNoState = 3"

definition State :: "u32 \<Rightarrow> BufferFrameState" where
  "State word = state_of_bits (word AND kStateMask)"

definition WithState :: "u32 \<Rightarrow> BufferFrameState \<Rightarrow> u32" where
  "WithState word state = (word AND NOT kStateMask) OR state_bits state"

definition Pins :: "u32 \<Rightarrow> u32" where
  "Pins word = drop_bit 17 (word AND kPinMask)"

definition SharedHolders :: "u32 \<Rightarrow> u32" where
  "SharedHolders word = drop_bit 8 (word AND kSharedMask)"

definition IsResident :: "u32 \<Rightarrow> bool" where
  "IsResident word \<longleftrightarrow> State word = kResident"

definition IsDirty :: "u32 \<Rightarrow> bool" where
  "IsDirty word \<longleftrightarrow> word AND kDirty \<noteq> 0"

definition HasWriteback :: "u32 \<Rightarrow> bool" where
  "HasWriteback word \<longleftrightarrow> word AND kWritebackMask \<noteq> 0"

section \<open>Operations\<close>

text \<open>
  One pass of the loop of \<open>WaitWhile\<close>: \<open>None\<close> when the condition no longer blocks,
  otherwise the word that is stored and that the thread then sleeps on.
\<close>

definition WaitWhile :: "(u32 \<Rightarrow> bool) \<Rightarrow> u32 \<Rightarrow> u32 option" where
  "WaitWhile blocked word =
     (if \<not> blocked word then None
      else if word AND kWaiters = 0 then Some (word OR kWaiters)
      else Some word)"

text \<open>The stored word, and whether the sleepers are woken.\<close>

definition UpdateAndWake :: "(u32 \<Rightarrow> u32) \<Rightarrow> (u32 \<Rightarrow> u32 \<Rightarrow> bool) \<Rightarrow> u32 \<Rightarrow> u32 \<times> bool" where
  "UpdateAndWake next_word wakes word =
     (let new_word = next_word word;
          wake = (word AND kWaiters \<noteq> 0 \<and> wakes word new_word)
      in (if wake then new_word AND NOT kWaiters else new_word, wake))"

text \<open>\<open>None\<close> as outcome: the pin count is at its maximum and the loop yields and retries.\<close>

definition TryPinResident :: "u32 \<Rightarrow> bool option \<times> u32" where
  "TryPinResident word =
     (if \<not> IsResident word then (Some False, word)
      else if Pins word = kMaxPins then (None, word)
      else (Some True, word + kPinOne))"

definition Unpin :: "u32 \<Rightarrow> u32 option \<times> u32" where
  "Unpin word = (if Pins word = 0 then (None, word) else (Some word, word - kPinOne))"

datatype ReserveOutcome = kReserved | kNeedsFlush | kRejected

text \<open>The outcome, the observed word and the stored word.\<close>

definition TryReserve :: "bool \<Rightarrow> u32 \<Rightarrow> ReserveOutcome \<times> u32 \<times> u32" where
  "TryReserve popped_from_free_list word =
     (if State word = kLoading then (kRejected, word, word)
      else if State word = kFree \<and> \<not> popped_from_free_list then (kRejected, word, word)
      else if Pins word \<noteq> 0 \<or> word AND (kLatchMask OR kWritebackMask) \<noteq> 0
        then (kRejected, word, word)
      else if IsResident word \<and> IsDirty word then (kNeedsFlush, word, word)
      else (kReserved, word, (word AND kWaiters) OR kPinOne OR state_bits kLoading))"

definition PublishResident :: "bool \<Rightarrow> u32 \<Rightarrow> u32 \<times> bool" where
  "PublishResident release_pin =
     UpdateAndWake (\<lambda>word. WithState word kResident - (if release_pin then kPinOne else 0))
       (\<lambda>_ _. True)"

definition ReleaseToFree :: "u32 \<Rightarrow> u32 \<times> bool" where
  "ReleaseToFree = UpdateAndWake (\<lambda>word. word AND (kWaiters OR kLatchMask)) (\<lambda>_ _. True)"

datatype DiscardOutcome = kDiscarded | kWriteback | kLatched | kBusy

text \<open>
  The outcome, the replaced word (written to \<^verbatim>\<open>previous\<close> on success only), the
  stored word, and whether the sleepers are woken.
\<close>

definition TryDiscardPinned :: "u32 \<Rightarrow> DiscardOutcome \<times> u32 option \<times> u32 \<times> bool" where
  "TryDiscardPinned word =
     (if HasWriteback word then (kWriteback, None, word, False)
      else if \<not> IsResident word \<or> Pins word \<noteq> 1 then (kBusy, None, word, False)
      else if word AND kLatchMask \<noteq> 0 then (kLatched, None, word, False)
      else (kDiscarded, Some word, 0, word AND kWaiters \<noteq> 0))"

definition MarkDirty :: "u32 \<Rightarrow> bool option \<times> u32" where
  "MarkDirty word =
     (if \<not> IsResident word then (None, word)
      else let next1 = word OR kDirty;
               next2 = (if HasWriteback word then next1 OR kRedirtied else next1)
           in if next2 = word then (Some False, word)
              else (Some (\<not> IsDirty word), next2))"

definition TryAcquireShared :: "u32 \<Rightarrow> bool \<times> u32" where
  "TryAcquireShared word =
     (if word AND kExclusive = 0 \<and> SharedHolders word < kMaxShared
      then (True, word + kSharedOne) else (False, word))"

text \<open>The condition on which \<^verbatim>\<open>AcquireShared\<close> sleeps.\<close>

definition SharedBlocked :: "u32 \<Rightarrow> bool" where
  "SharedBlocked word \<longleftrightarrow> word AND kExclusive \<noteq> 0 \<or> kMaxShared \<le> SharedHolders word"

definition ReleaseShared :: "u32 \<Rightarrow> u32 \<times> bool" where
  "ReleaseShared =
     UpdateAndWake (\<lambda>word. word - kSharedOne)
       (\<lambda>old_word new_word. SharedHolders new_word = 0 \<or> SharedHolders old_word = kMaxShared)"

definition TryAcquireExclusive :: "u32 \<Rightarrow> bool \<times> u32" where
  "TryAcquireExclusive word =
     (if word AND kLatchMask = 0 then (True, word OR kExclusive) else (False, word))"

text \<open>The condition on which \<^verbatim>\<open>AcquireExclusive\<close> and \<^verbatim>\<open>DropFileBuffers\<close> sleep.\<close>

definition LatchBlocked :: "u32 \<Rightarrow> bool" where
  "LatchBlocked word \<longleftrightarrow> word AND kLatchMask \<noteq> 0"

definition ReleaseExclusive :: "u32 \<Rightarrow> u64 \<Rightarrow> (u32 \<times> bool) \<times> u64" where
  "ReleaseExclusive word version =
     (UpdateAndWake
        (\<lambda>word. let next_word = word AND NOT kExclusive
                in if HasWriteback word then next_word OR kRedirtied else next_word)
        (\<lambda>_ _. True) word,
      version + 1)"

datatype QueueOutcome = kQueued | kNotDirty | kPending | kPinned

definition TryQueueWriteback :: "bool \<Rightarrow> u32 \<Rightarrow> QueueOutcome \<times> u32" where
  "TryQueueWriteback skip_if_pinned word =
     (if HasWriteback word then (kPending, word)
      else if \<not> IsResident word \<or> \<not> IsDirty word then (kNotDirty, word)
      else if skip_if_pinned \<and> Pins word \<noteq> 0 then (kPinned, word)
      else (kQueued, (word OR kWritebackQueued) AND NOT kRedirtied))"

definition BeginWriteback :: "u32 \<Rightarrow> u32 \<times> bool" where
  "BeginWriteback =
     UpdateAndWake (\<lambda>word. (word AND NOT kWritebackQueued) OR kWritebackActive) (\<lambda>_ _. False)"

definition CancelQueuedWriteback :: "u32 \<Rightarrow> u32 \<times> bool" where
  "CancelQueuedWriteback =
     UpdateAndWake (\<lambda>word. word AND NOT (kWritebackQueued OR kRedirtied)) (\<lambda>_ _. True)"

record WritebackCompletion =
  wc_cleared_dirty :: bool
  wc_word :: u32

definition CompleteWriteback :: "bool \<Rightarrow> u32 \<Rightarrow> WritebackCompletion \<times> u32 \<times> bool" where
  "CompleteWriteback succeeded word =
     (let (stored, wake) = UpdateAndWake
            (\<lambda>word. let next_word = word AND NOT (kWritebackMask OR kRedirtied)
                    in if succeeded \<and> IsResident word \<and> IsDirty word \<and>
                          word AND (kRedirtied OR kExclusive) = 0
                       then next_word AND NOT kDirty else next_word)
            (\<lambda>_ _. True) word;
          cleared = (IsDirty word \<and> succeeded \<and> IsResident word \<and>
                     word AND (kRedirtied OR kExclusive) = 0);
          rest = word AND NOT (kWritebackMask OR kRedirtied OR kWaiters)
      in (\<lparr>wc_cleared_dirty = cleared,
           wc_word = (if cleared then rest AND NOT kDirty else rest)\<rparr>, stored, wake))"

definition LowerRecLsn :: "Lsn \<Rightarrow> Lsn \<Rightarrow> Lsn" where
  "LowerRecLsn rec_lsn lsn =
     (if lsn = kInvalidLsn then rec_lsn
      else if rec_lsn = kInvalidLsn \<or> lsn < rec_lsn then lsn
      else rec_lsn)"

section \<open>Packed writeback errors\<close>

text \<open>
  \<^verbatim>\<open>std::max(errno, 0)\<close> clamped to 24 bits; the system error is an \<^verbatim>\<open>int\<close>.
\<close>

definition PackWritebackError :: "Status \<Rightarrow> u32" where
  "PackWritebackError status =
     (case status of
        Inr _ \<Rightarrow> 0
      | Inl e \<Rightarrow>
          let code = (ucast (code_value (err_code e)) :: u32) AND 0xFF;
              system_error = min (word_of_int (max (err_system_error e) 0)) (0xFFFFFF :: u32)
          in code OR push_bit 8 system_error)"

definition UnpackWritebackError :: "u32 \<Rightarrow> Status" where
  "UnpackWritebackError packed =
     (if packed = 0 then Ok
      else Inl (mk_Error (code_of_value (ucast (packed AND 0xFF)))
                  (Some ''writeback failed'') (sint (drop_bit 8 packed))))"

end
