(* ===== verification/Frame_Fields.thy ===== *)
theory Frame_Fields
  imports Frame_Control
begin

text \<open>
  The control word read as a record of fields (\<open>decode\<close>), which determines the word, and
  the effect of every operation of \<^verbatim>\<open>Frame_Control\<close> on the fields: flags are set and
  cleared one by one, and the two counters neither borrow from nor carry into their
  neighbours as long as they stay within their range.  The packing of writeback errors and
  the lowering of recovery positions are treated at the end.
\<close>

section \<open>The word as a record of fields\<close>

record ctl =
  c_state :: BufferFrameState
  c_dirty :: bool
  c_queued :: bool
  c_active :: bool
  c_prefetched :: bool
  c_redirtied :: bool
  c_excl :: bool
  c_shared :: nat
  c_waiters :: bool
  c_pins :: nat

definition decode :: "u32 \<Rightarrow> ctl" where
  "decode w = \<lparr>c_state = State w, c_dirty = IsDirty w,
     c_queued = (w AND kWritebackQueued \<noteq> 0), c_active = (w AND kWritebackActive \<noteq> 0),
     c_prefetched = (w AND kPrefetched \<noteq> 0), c_redirtied = (w AND kRedirtied \<noteq> 0),
     c_excl = (w AND kExclusive \<noteq> 0), c_shared = unat (SharedHolders w),
     c_waiters = (w AND kWaiters \<noteq> 0), c_pins = unat (Pins w)\<rparr>"

definition zero_ctl :: ctl where
  "zero_ctl = \<lparr>c_state = kFree, c_dirty = False, c_queued = False, c_active = False,
     c_prefetched = False, c_redirtied = False, c_excl = False, c_shared = 0,
     c_waiters = False, c_pins = 0\<rparr>"

text \<open>A mask over the flag bits: neither the state, the shared count nor the pin count.\<close>

definition flag_mask :: "u32 \<Rightarrow> bool" where
  "flag_mask m \<longleftrightarrow> (\<forall>n. bit m n \<longrightarrow> n \<in> {2,3,4,5,6,7,16})"

text \<open>
  The word as four digits: the low byte, the shared count, the waiter bit and the pin
  count.
\<close>

definition pack4 :: "nat \<Rightarrow> nat \<Rightarrow> nat \<Rightarrow> nat \<Rightarrow> nat" where
  "pack4 a s h p = a + 256 * (s + 256 * (h + 2 * p))"

text \<open>When a frame may be reserved.\<close>

definition reservable :: "bool \<Rightarrow> ctl \<Rightarrow> bool" where
  "reservable popped c \<longleftrightarrow> c_state c \<noteq> kLoading \<and> (c_state c = kFree \<longrightarrow> popped) \<and>
     c_pins c = 0 \<and> \<not> c_excl c \<and> c_shared c = 0 \<and> \<not> c_queued c \<and> \<not> c_active c"

subsection \<open>Bits of the masks\<close>

lemma mask_words:
  "(0x3::u32) = mask 2" "(0xFF::u32) = mask 8" "(0x7FFF::u32) = mask 15"
  by (simp_all add: mask_eq_exp_minus_1)

lemma bit_flag: "bit (push_bit k (1::u32)) n \<longleftrightarrow> n = k \<and> k < 32"
  by (auto simp: bit_push_bit_iff bit_exp_iff)

lemma bit_masks [bit_simps]:
  "bit kStateMask n \<longleftrightarrow> n < 2"
  "bit kDirty n \<longleftrightarrow> n = 2"
  "bit kWritebackQueued n \<longleftrightarrow> n = 3"
  "bit kWritebackActive n \<longleftrightarrow> n = 4"
  "bit kPrefetched n \<longleftrightarrow> n = 5"
  "bit kRedirtied n \<longleftrightarrow> n = 6"
  "bit kExclusive n \<longleftrightarrow> n = 7"
  "bit kSharedMask n \<longleftrightarrow> 8 \<le> n \<and> n < 16"
  "bit kWaiters n \<longleftrightarrow> n = 16"
  "bit kPinMask n \<longleftrightarrow> 17 \<le> n \<and> n < 32"
  "bit kPinOne n \<longleftrightarrow> n = 17"
  unfolding kStateMask_def kDirty_def kWritebackQueued_def kWritebackActive_def kPrefetched_def
    kRedirtied_def kExclusive_def kSharedMask_def kWaiters_def kPinMask_def kPinOne_def
    mask_words bit_flag
  by (auto simp: bit_push_bit_iff bit_mask_iff)

lemma and_flag_zero:
  assumes "\<And>n. bit m n \<longleftrightarrow> n = k"
  shows "(w::u32) AND m = 0 \<longleftrightarrow> \<not> bit w k"
proof
  assume "w AND m = 0"
  then have "\<not> bit (w AND m) k" by simp
  then show "\<not> bit w k" by (simp add: bit_and_iff assms)
next
  assume "\<not> bit w k"
  then show "w AND m = 0" by (intro bit_word_eqI) (auto simp: bit_and_iff assms)
qed

lemma flag_bit:
  "w AND kDirty = 0 \<longleftrightarrow> \<not> bit w 2"
  "w AND kWritebackQueued = 0 \<longleftrightarrow> \<not> bit w 3"
  "w AND kWritebackActive = 0 \<longleftrightarrow> \<not> bit w 4"
  "w AND kPrefetched = 0 \<longleftrightarrow> \<not> bit w 5"
  "w AND kRedirtied = 0 \<longleftrightarrow> \<not> bit w 6"
  "w AND kExclusive = 0 \<longleftrightarrow> \<not> bit w 7"
  "w AND kWaiters = 0 \<longleftrightarrow> \<not> bit w 16"
  by (rule and_flag_zero; simp add: bit_masks)+

lemma shared_field: "SharedHolders w = take_bit 8 (drop_bit 8 w)"
  unfolding SharedHolders_def by (rule bit_word_eqI) (auto simp: bit_simps)

lemma pins_field: "Pins w = drop_bit 17 w"
  unfolding Pins_def by (rule bit_word_eqI) (auto simp: bit_simps dest: bit_imp_le_length)

lemma state_field: "State w = state_of_bits (take_bit 2 w)"
proof -
  have "w AND kStateMask = take_bit 2 w"
    by (rule bit_word_eqI) (auto simp: bit_simps)
  then show ?thesis by (simp add: State_def)
qed

lemma decode_fields:
  "decode w = \<lparr>c_state = state_of_bits (take_bit 2 w), c_dirty = bit w 2,
     c_queued = bit w 3, c_active = bit w 4, c_prefetched = bit w 5, c_redirtied = bit w 6,
     c_excl = bit w 7, c_shared = unat (take_bit 8 (drop_bit 8 w)),
     c_waiters = bit w 16, c_pins = unat (drop_bit 17 w)\<rparr>"
  by (simp add: decode_def IsDirty_def flag_bit shared_field pins_field state_field)

subsection \<open>Setting and clearing flags\<close>

lemma flag_masks:
  "flag_mask kDirty" "flag_mask kWritebackQueued" "flag_mask kWritebackActive"
  "flag_mask kPrefetched" "flag_mask kRedirtied" "flag_mask kExclusive" "flag_mask kWaiters"
  by (simp_all add: flag_mask_def bit_masks)

lemma flag_mask_other_bit:
  "flag_mask m \<Longrightarrow> n < 2 \<Longrightarrow> \<not> bit m n"
  "flag_mask m \<Longrightarrow> n < 8 \<Longrightarrow> \<not> bit m (8 + n)"
  "flag_mask m \<Longrightarrow> \<not> bit m (17 + n)"
  by (auto simp: flag_mask_def)

lemma fields_or:
  assumes "flag_mask m"
  shows "take_bit 2 (w OR m) = take_bit 2 w"
    and "take_bit 8 (drop_bit 8 (w OR m)) = take_bit 8 (drop_bit 8 w)"
    and "drop_bit 17 (w OR m) = drop_bit 17 w"
  by (rule bit_word_eqI; auto simp: bit_simps flag_mask_other_bit [OF assms]
      dest: bit_imp_le_length)+

lemma fields_and_not:
  assumes "flag_mask m"
  shows "take_bit 2 (w AND NOT m) = take_bit 2 w"
    and "take_bit 8 (drop_bit 8 (w AND NOT m)) = take_bit 8 (drop_bit 8 w)"
    and "drop_bit 17 (w AND NOT m) = drop_bit 17 w"
  by (rule bit_word_eqI; auto simp: bit_simps flag_mask_other_bit [OF assms]
      dest: bit_imp_le_length)+

lemma decode_or:
  assumes "flag_mask m"
  shows "decode (w OR m) = (decode w)\<lparr>
    c_dirty := c_dirty (decode w) \<or> bit m 2, c_queued := c_queued (decode w) \<or> bit m 3,
    c_active := c_active (decode w) \<or> bit m 4, c_prefetched := c_prefetched (decode w) \<or> bit m 5,
    c_redirtied := c_redirtied (decode w) \<or> bit m 6, c_excl := c_excl (decode w) \<or> bit m 7,
    c_waiters := c_waiters (decode w) \<or> bit m 16\<rparr>"
  unfolding decode_fields fields_or [OF assms] bit_or_iff by simp

lemma decode_and_not:
  assumes "flag_mask m"
  shows "decode (w AND NOT m) = (decode w)\<lparr>
    c_dirty := c_dirty (decode w) \<and> \<not> bit m 2, c_queued := c_queued (decode w) \<and> \<not> bit m 3,
    c_active := c_active (decode w) \<and> \<not> bit m 4,
    c_prefetched := c_prefetched (decode w) \<and> \<not> bit m 5,
    c_redirtied := c_redirtied (decode w) \<and> \<not> bit m 6, c_excl := c_excl (decode w) \<and> \<not> bit m 7,
    c_waiters := c_waiters (decode w) \<and> \<not> bit m 16\<rparr>"
  unfolding decode_fields fields_and_not [OF assms] bit_and_iff bit_not_iff
  by (simp add: possible_bit_def)

lemma decode_set_flag [fc_simps]:
  "decode (w OR kDirty) = (decode w)\<lparr>c_dirty := True\<rparr>"
  "decode (w OR kWritebackQueued) = (decode w)\<lparr>c_queued := True\<rparr>"
  "decode (w OR kWritebackActive) = (decode w)\<lparr>c_active := True\<rparr>"
  "decode (w OR kRedirtied) = (decode w)\<lparr>c_redirtied := True\<rparr>"
  "decode (w OR kExclusive) = (decode w)\<lparr>c_excl := True\<rparr>"
  "decode (w OR kWaiters) = (decode w)\<lparr>c_waiters := True\<rparr>"
  "decode (w OR kPrefetched) = (decode w)\<lparr>c_prefetched := True\<rparr>"
  by (simp_all add: decode_or flag_masks bit_masks)

lemma decode_clear_flag [fc_simps]:
  "decode (w AND NOT kDirty) = (decode w)\<lparr>c_dirty := False\<rparr>"
  "decode (w AND NOT kWritebackQueued) = (decode w)\<lparr>c_queued := False\<rparr>"
  "decode (w AND NOT kWritebackActive) = (decode w)\<lparr>c_active := False\<rparr>"
  "decode (w AND NOT kRedirtied) = (decode w)\<lparr>c_redirtied := False\<rparr>"
  "decode (w AND NOT kExclusive) = (decode w)\<lparr>c_excl := False\<rparr>"
  "decode (w AND NOT kWaiters) = (decode w)\<lparr>c_waiters := False\<rparr>"
  "decode (w AND NOT kPrefetched) = (decode w)\<lparr>c_prefetched := False\<rparr>"
  by (simp_all add: decode_and_not flag_masks bit_masks)

lemma and_not_or: "(w::u32) AND NOT (a OR b) = (w AND NOT a) AND NOT b"
  by (simp add: and.assoc)

lemma decode_clear_flags [fc_simps]:
  "decode (w AND NOT (kWritebackQueued OR kRedirtied)) =
     (decode w)\<lparr>c_queued := False, c_redirtied := False\<rparr>"
  "decode (w AND NOT (kWritebackMask OR kRedirtied)) =
     (decode w)\<lparr>c_queued := False, c_active := False, c_redirtied := False\<rparr>"
  "decode (w AND NOT (kWritebackMask OR kRedirtied OR kWaiters)) =
     (decode w)\<lparr>c_queued := False, c_active := False, c_redirtied := False, c_waiters := False\<rparr>"
  unfolding kWritebackMask_def and_not_or decode_clear_flag by simp_all

subsection \<open>Counters\<close>

lemma low_digit:
  "a < b \<Longrightarrow> (a + b * x) mod b = (a::nat)" "a < b \<Longrightarrow> (a + b * x) div b = (x::nat)"
  by simp_all

lemma pack4_fields [simp]:
  assumes "a < 256" "s < 256" "h < 2"
  shows "pack4 a s h p mod 256 = a" "pack4 a s h p div 256 mod 256 = s"
    "pack4 a s h p div 65536 mod 2 = h" "pack4 a s h p div 131072 = p"
proof -
  have u8: "pack4 a s h p div 256 = s + 256 * (h + 2 * p)"
    unfolding pack4_def by (rule low_digit(2)) (rule assms)
  have u16: "pack4 a s h p div 65536 = h + 2 * p"
  proof -
    have "pack4 a s h p div 65536 = pack4 a s h p div 256 div 256"
      by (simp add: div_mult2_eq [symmetric])
    then show ?thesis using u8 low_digit(2) [OF assms(2)] by simp
  qed
  show "pack4 a s h p mod 256 = a" unfolding pack4_def by (rule low_digit) (rule assms)
  show "pack4 a s h p div 256 mod 256 = s" unfolding u8 by (rule low_digit) (rule assms)
  show "pack4 a s h p div 65536 mod 2 = h" unfolding u16 by (rule low_digit) (rule assms)
  have "pack4 a s h p div 131072 = pack4 a s h p div 65536 div 2"
    by (simp add: div_mult2_eq [symmetric])
  then show "pack4 a s h p div 131072 = p" unfolding u16 using low_digit(2) [OF assms(3)] by simp
qed

lemma pack4_cases:
  obtains a s h p where "a < 256" "s < 256" "h < 2" "(u::nat) = pack4 a s h p"
proof
  show "u mod 256 < 256" "u div 256 mod 256 < 256" "u div 65536 mod 2 < 2" by simp_all
  have "u = u mod 256 + 256 * (u div 256)" by simp
  moreover have "u div 256 = u div 256 mod 256 + 256 * (u div 256 div 256)" by simp
  moreover have "u div 256 div 256 = u div 65536" by (simp add: div_mult2_eq [symmetric])
  moreover have "u div 65536 = u div 65536 mod 2 + 2 * (u div 65536 div 2)" by simp
  moreover have "u div 65536 div 2 = u div 131072" by (simp add: div_mult2_eq [symmetric])
  ultimately show "u = pack4 (u mod 256) (u div 256 mod 256) (u div 65536 mod 2) (u div 131072)"
    unfolding pack4_def by metis
qed

lemma pack4_add:
  "pack4 a s h p + 131072 = pack4 a s h (p + 1)"
  "pack4 a s h p + 256 = pack4 a (s + 1) h p"
  "0 < p \<Longrightarrow> pack4 a s h p - 131072 = pack4 a s h (p - 1)"
  "0 < s \<Longrightarrow> pack4 a s h p - 256 = pack4 a (s - 1) h p"
  by (simp_all add: pack4_def algebra_simps)

lemma unat_digits:
  "unat (take_bit 8 (w::u32)) = unat w mod 256"
  "unat (take_bit 8 (drop_bit 8 w)) = unat w div 256 mod 256"
  "bit w 16 \<longleftrightarrow> odd (unat w div 65536)"
  "unat (drop_bit 17 w) = unat w div 131072"
proof -
  show "unat (take_bit 8 w) = unat w mod 256"
    unfolding unsigned_take_bit_eq by (simp add: take_bit_eq_mod)
  show "unat (take_bit 8 (drop_bit 8 w)) = unat w div 256 mod 256"
    unfolding unsigned_take_bit_eq unat_drop_bit_eq by (simp add: take_bit_eq_mod drop_bit_eq_div)
  have "bit w 16 \<longleftrightarrow> bit (unat w) 16" by (simp add: bit_unsigned_iff)
  then show "bit w 16 \<longleftrightarrow> odd (unat w div 65536)" by (simp add: bit_iff_odd)
  show "unat (drop_bit 17 w) = unat w div 131072"
    unfolding unat_drop_bit_eq by (simp add: drop_bit_eq_div)
qed

lemma same_low_byte:
  assumes "take_bit 8 (v::u32) = take_bit 8 w"
  shows "take_bit 2 v = take_bit 2 w" and "k < 8 \<Longrightarrow> bit v k = bit w k"
proof -
  have "take_bit 2 (take_bit 8 v) = take_bit 2 (take_bit 8 w)" using assms by simp
  then show "take_bit 2 v = take_bit 2 w" by simp
  show "bit v k = bit w k" if "k < 8"
    using arg_cong [OF assms, of "\<lambda>x. bit x k"] that by (simp add: bit_take_bit_iff)
qed

lemma decode_digits:
  assumes "unat v = pack4 a s h p" "unat w = pack4 a s' h p'"
    and "a < 256" "s < 256" "s' < 256" "h < 2"
  shows "decode v = (decode w)\<lparr>c_shared := s, c_pins := p\<rparr>"
proof -
  have "unat (take_bit 8 v) = unat (take_bit 8 w)" unfolding unat_digits(1) using assms by simp
  then have low: "take_bit 8 v = take_bit 8 w" by (simp only: word_unat_eq_iff)
  have "bit v 16 = bit w 16"
    unfolding unat_digits(3) odd_iff_mod_2_eq_one using assms by simp
  then show ?thesis
    unfolding decode_fields unat_digits(2-4) same_low_byte(1) [OF low]
    using same_low_byte(2) [OF low] assms by simp
qed

lemma ctl_bounds:
  "c_pins (decode w) < 32768" "c_shared (decode w) < 256"
proof -
  have "unat w < 2 ^ 32" using unsigned_less [of w, where 'a = nat] by simp
  then show "c_pins (decode w) < 32768"
    unfolding decode_fields unat_digits(2-4) by (simp add: div_less_iff_less_mult)
  show "c_shared (decode w) < 256" unfolding decode_fields unat_digits(2-4) by simp
qed

lemma ctl_digits:
  obtains a s h p where "a < 256" "s < 256" "h < 2" "p < 32768" "unat w = pack4 a s h p"
    "c_shared (decode w) = s" "c_pins (decode w) = p"
proof (rule pack4_cases [of "unat w"])
  fix a s h p assume *: "a < 256" "s < 256" "h < 2" "unat w = pack4 a s h p"
  have "c_shared (decode w) = s" "c_pins (decode w) = p"
    unfolding decode_fields unat_digits(2-4) using * by simp_all
  then show thesis using that * ctl_bounds(1) [of w] by simp
qed

lemma counter_ones: "unat kPinOne = 131072" "unat kSharedOne = 256"
  by (simp_all add: kPinOne_def kSharedOne_def)

lemma decode_add_pin:
  assumes "c_pins (decode w) < 32767"
  shows "decode (w + kPinOne) = (decode w)\<lparr>c_pins := Suc (c_pins (decode w))\<rparr>"
proof (rule ctl_digits [of w])
  fix a s h p assume *: "a < 256" "s < 256" "h < 2" "unat w = pack4 a s h p"
    "c_shared (decode w) = s" "c_pins (decode w) = p"
  have "unat w + 131072 < 2 ^ 32" using * assms by (simp add: pack4_def)
  then have "unat (w + kPinOne) = pack4 a s h (p + 1)"
    unfolding pack4_add(1) [symmetric] by (simp add: unat_word_ariths counter_ones *)
  then show ?thesis using decode_digits [of "w + kPinOne" a s h "p + 1" w s p] * by simp
qed

lemma decode_sub_pin:
  assumes "0 < c_pins (decode w)"
  shows "decode (w - kPinOne) = (decode w)\<lparr>c_pins := c_pins (decode w) - 1\<rparr>"
proof (rule ctl_digits [of w])
  fix a s h p assume *: "a < 256" "s < 256" "h < 2" "unat w = pack4 a s h p"
    "c_shared (decode w) = s" "c_pins (decode w) = p"
  have "131072 \<le> unat w" using * assms by (simp add: pack4_def)
  then have "unat (w - kPinOne) = pack4 a s h (p - 1)"
    using pack4_add(3) [of p a s h] * assms
    by (simp add: unat_sub word_le_nat_alt counter_ones)
  then show ?thesis using decode_digits [of "w - kPinOne" a s h "p - 1" w s p] * by simp
qed

lemma decode_add_shared:
  assumes "c_shared (decode w) < 255"
  shows "decode (w + kSharedOne) = (decode w)\<lparr>c_shared := Suc (c_shared (decode w))\<rparr>"
proof (rule ctl_digits [of w])
  fix a s h p assume *: "a < 256" "s < 256" "h < 2" "p < 32768" "unat w = pack4 a s h p"
    "c_shared (decode w) = s" "c_pins (decode w) = p"
  have "unat w + 256 < 2 ^ 32" using * assms by (simp add: pack4_def)
  then have "unat (w + kSharedOne) = pack4 a (s + 1) h p"
    unfolding pack4_add(2) [symmetric] by (simp add: unat_word_ariths counter_ones *)
  then show ?thesis using decode_digits [of "w + kSharedOne" a "s + 1" h p w s p] * assms by simp
qed

lemma decode_sub_shared:
  assumes "0 < c_shared (decode w)"
  shows "decode (w - kSharedOne) = (decode w)\<lparr>c_shared := c_shared (decode w) - 1\<rparr>"
proof (rule ctl_digits [of w])
  fix a s h p assume *: "a < 256" "s < 256" "h < 2" "unat w = pack4 a s h p"
    "c_shared (decode w) = s" "c_pins (decode w) = p"
  have "256 \<le> unat w" using * assms by (simp add: pack4_def)
  then have "unat (w - kSharedOne) = pack4 a (s - 1) h p"
    using pack4_add(4) [of s a h p] * assms
    by (simp add: unat_sub word_le_nat_alt counter_ones)
  then show ?thesis using decode_digits [of "w - kSharedOne" a "s - 1" h p w s p] * by simp
qed

subsection \<open>State changes and whole-word stores\<close>

lemma state_bits_small: "bit (state_bits st) n \<Longrightarrow> n < 2"
proof (cases st)
  case kNoState
  moreover assume "bit (state_bits st) n"
  ultimately show ?thesis by (simp only: state_bits.simps mask_words bit_mask_iff)
next
  case kResident
  moreover have "(2::u32) = push_bit 1 1" by simp
  moreover assume "bit (state_bits st) n"
  ultimately show ?thesis by (simp only: state_bits.simps bit_flag)
qed (auto simp: bit_1_iff)

lemma state_of_state_bits: "state_of_bits (take_bit 2 (state_bits st)) = st"
proof -
  have "take_bit 2 (state_bits st) = state_bits st"
    by (rule bit_word_eqI) (auto simp: bit_take_bit_iff dest: state_bits_small)
  then show ?thesis by (cases st) (simp_all add: state_of_bits_def)
qed

lemma decode_WithState [fc_simps]: "decode (WithState w st) = (decode w)\<lparr>c_state := st\<rparr>"
proof -
  have high: "bit (WithState w st) n = bit w n" if "2 \<le> n" for n
    using that state_bits_small [of st n] bit_imp_le_length [of w n]
    unfolding WithState_def by (auto simp: bit_simps)
  have "take_bit 2 (WithState w st) = take_bit 2 (state_bits st)"
    unfolding WithState_def by (rule bit_word_eqI) (auto simp: bit_simps)
  moreover have "take_bit 8 (drop_bit 8 (WithState w st)) = take_bit 8 (drop_bit 8 w)"
    "drop_bit 17 (WithState w st) = drop_bit 17 w"
    by (rule bit_word_eqI; auto simp: bit_take_bit_iff bit_drop_bit_eq high)+
  ultimately show ?thesis
    unfolding decode_fields by (simp add: high state_of_state_bits)
qed

lemma decode_zero [fc_simps]: "decode 0 = zero_ctl"
  by (simp add: decode_fields zero_ctl_def state_of_bits_def)

lemma decode_reserved [fc_simps]:
  "decode ((w AND kWaiters) OR kPinOne OR state_bits kLoading) =
     zero_ctl\<lparr>c_state := kLoading, c_waiters := c_waiters (decode w), c_pins := 1\<rparr>"
proof -
  define v where "v = (w AND kWaiters) OR kPinOne OR state_bits kLoading"
  have bits: "bit v n \<longleftrightarrow> n = 0 \<or> n = 17 \<or> n = 16 \<and> bit w 16" for n
    unfolding v_def by (auto simp: bit_simps bit_1_iff)
  have "take_bit 2 v = 1" "take_bit 8 (drop_bit 8 v) = 0" "drop_bit 17 v = 1"
    by (rule bit_word_eqI; auto simp: bit_take_bit_iff bit_drop_bit_eq bits bit_1_iff)+
  then show ?thesis
    unfolding v_def [symmetric] decode_fields bits by (simp add: zero_ctl_def state_of_bits_def)
qed

lemma decode_released [fc_simps]:
  "decode (w AND (kWaiters OR kLatchMask)) =
     zero_ctl\<lparr>c_excl := c_excl (decode w), c_shared := c_shared (decode w),
       c_waiters := c_waiters (decode w)\<rparr>"
proof -
  define v where "v = w AND (kWaiters OR kLatchMask)"
  have bits: "bit v n \<longleftrightarrow> 7 \<le> n \<and> n \<le> 16 \<and> bit w n" for n
    unfolding v_def by (auto simp: bit_simps kLatchMask_def)
  have "take_bit 2 v = 0" "take_bit 8 (drop_bit 8 v) = take_bit 8 (drop_bit 8 w)" "drop_bit 17 v = 0"
    by (rule bit_word_eqI; auto simp: bit_take_bit_iff bit_drop_bit_eq bits)+
  then show ?thesis
    unfolding v_def [symmetric] decode_fields bits by (simp add: zero_ctl_def state_of_bits_def)
qed

subsection \<open>Conditions read as fields\<close>

lemma latch_zero: "w AND kSharedMask = 0 \<longleftrightarrow> SharedHolders w = 0"
proof
  assume "SharedHolders w = 0"
  then have none: "\<not> bit (SharedHolders w) n" for n by simp
  show "w AND kSharedMask = 0"
  proof (rule bit_word_eqI)
    fix n
    show "bit (w AND kSharedMask) n = bit 0 n"
      using none [of "n - 8"] unfolding shared_field by (auto simp: bit_simps)
  qed
qed (simp add: SharedHolders_def)

lemma and_or_zero: "(w::u32) AND (a OR b) = 0 \<longleftrightarrow> w AND a = 0 \<and> w AND b = 0"
  by (auto simp: bit.conj_disj_distrib or_eq_0_iff)

lemma ctl_tests [fc_simps]:
  "State w = c_state (decode w)"
  "IsResident w \<longleftrightarrow> c_state (decode w) = kResident"
  "IsDirty w \<longleftrightarrow> c_dirty (decode w)"
  "HasWriteback w \<longleftrightarrow> c_queued (decode w) \<or> c_active (decode w)"
  "w AND kLatchMask = 0 \<longleftrightarrow> \<not> c_excl (decode w) \<and> c_shared (decode w) = 0"
  "w AND (kLatchMask OR kWritebackMask) = 0 \<longleftrightarrow> \<not> c_excl (decode w) \<and> c_shared (decode w) = 0 \<and>
     \<not> c_queued (decode w) \<and> \<not> c_active (decode w)"
  "w AND (kRedirtied OR kExclusive) = 0 \<longleftrightarrow> \<not> c_redirtied (decode w) \<and> \<not> c_excl (decode w)"
  "w AND kExclusive = 0 \<longleftrightarrow> \<not> c_excl (decode w)"
  "w AND kWaiters = 0 \<longleftrightarrow> \<not> c_waiters (decode w)"
  "w AND kPrefetched = 0 \<longleftrightarrow> \<not> c_prefetched (decode w)"
  by (auto simp: decode_def IsResident_def IsDirty_def HasWriteback_def kWritebackMask_def
      kLatchMask_def and_or_zero latch_zero unat_eq_0)

lemma ctl_counts [fc_simps]:
  "Pins w = 0 \<longleftrightarrow> c_pins (decode w) = 0"
  "Pins w = 1 \<longleftrightarrow> c_pins (decode w) = 1"
  "Pins w = kMaxPins \<longleftrightarrow> c_pins (decode w) = 32767"
  "SharedHolders w = 0 \<longleftrightarrow> c_shared (decode w) = 0"
  "SharedHolders w = kMaxShared \<longleftrightarrow> c_shared (decode w) = 255"
  "SharedHolders w < kMaxShared \<longleftrightarrow> c_shared (decode w) < 255"
  "kMaxShared \<le> SharedHolders w \<longleftrightarrow> 255 \<le> c_shared (decode w)"
  by (simp_all add: decode_def word_unat_eq_iff word_less_nat_alt word_le_nat_alt
      kMaxPins_def kMaxShared_def)

subsection \<open>The fields determine the word\<close>

lemma state_of_bits_inj:
  "state_of_bits (take_bit 2 v) = state_of_bits (take_bit 2 w) \<Longrightarrow> take_bit 2 v = take_bit 2 w"
proof -
  have small: "take_bit 2 x \<in> {0, 1, 2, 3}" for x :: u32
  proof -
    have "unat (take_bit 2 x) < 4" unfolding unsigned_take_bit_eq by (simp add: take_bit_eq_mod)
    then have "unat (take_bit 2 x) \<in> {0, 1, 2, 3}" by auto
    then show ?thesis by (auto simp: word_unat_eq_iff)
  qed
  assume "state_of_bits (take_bit 2 v) = state_of_bits (take_bit 2 w)"
  then show ?thesis using small [of v] small [of w] by (auto simp: state_of_bits_def)
qed

lemma decode_inj: "decode v = decode w \<Longrightarrow> v = w"
proof (rule bit_word_eqI)
  fix n assume eq: "decode v = decode w" and "n < LENGTH(32)"
  have st: "take_bit 2 v = take_bit 2 w"
    using eq by (intro state_of_bits_inj) (simp add: decode_fields)
  have sh: "take_bit 8 (drop_bit 8 v) = take_bit 8 (drop_bit 8 w)"
    and pin: "drop_bit 17 v = drop_bit 17 w"
    using eq unfolding decode_fields by (simp_all only: ctl.ext_inject word_unat_eq_iff)
  consider "n < 2" | "n \<in> {2,3,4,5,6,7,16}" | "8 \<le> n" "n < 16" | "17 \<le> n" by fastforce
  then show "bit v n = bit w n"
  proof cases
    case 1
    then show ?thesis using arg_cong [OF st, of "\<lambda>x. bit x n"] by (simp add: bit_take_bit_iff)
  next
    case 2
    then show ?thesis using eq unfolding decode_fields by auto
  next
    case 3
    moreover from 3 have "n - 8 < 8" by arith
    ultimately show ?thesis using arg_cong [OF sh, of "\<lambda>x. bit x (n - 8)"]
      by (simp add: bit_take_bit_iff bit_drop_bit_eq)
  next
    case 4
    then show ?thesis using arg_cong [OF pin, of "\<lambda>x. bit x (n - 17)"] by (simp add: bit_drop_bit_eq)
  qed
qed

section \<open>What the operations do to the fields\<close>

lemma UpdateAndWake_wakes [fc_simps]:
  "snd (UpdateAndWake f g w) \<longleftrightarrow> c_waiters (decode w) \<and> g w (f w)"
  by (simp add: UpdateAndWake_def Let_def fc_simps)

lemma UpdateAndWake_word:
  "decode (fst (UpdateAndWake f g w)) =
     (if c_waiters (decode w) \<and> g w (f w) then (decode (f w))\<lparr>c_waiters := False\<rparr> else decode (f w))"
  by (simp add: UpdateAndWake_def Let_def fc_simps)

lemma UpdateAndWake_always:
  assumes "c_waiters (decode (f w)) = c_waiters (decode w)"
  shows "decode (fst (UpdateAndWake f (\<lambda>_ _. True) w)) = (decode (f w))\<lparr>c_waiters := False\<rparr>"
  using assms by (cases "decode (f w)") (simp add: UpdateAndWake_word)

lemma TryPinResident_fields:
  "TryPinResident w = (Some True, w + kPinOne) \<and> c_state (decode w) = kResident \<and>
     decode (w + kPinOne) = (decode w)\<lparr>c_pins := Suc (c_pins (decode w))\<rparr> \<or>
   TryPinResident w = (Some False, w) \<and> c_state (decode w) \<noteq> kResident \<or>
   TryPinResident w = (None, w) \<and> c_pins (decode w) = 32767"
  using ctl_bounds(1) [of w]
  by (auto simp: TryPinResident_def fc_simps intro: decode_add_pin)

lemma Unpin_fields:
  "0 < c_pins (decode w) \<Longrightarrow>
     fst (Unpin w) = Some w \<and> decode (snd (Unpin w)) = (decode w)\<lparr>c_pins := c_pins (decode w) - 1\<rparr>"
  "c_pins (decode w) = 0 \<Longrightarrow> Unpin w = (None, w)"
  by (simp_all add: Unpin_def fc_simps decode_sub_pin)

lemma TryReserve_fields:
  "fst (TryReserve popped w) = kReserved \<longleftrightarrow>
     reservable popped (decode w) \<and> \<not> (c_state (decode w) = kResident \<and> c_dirty (decode w))"
  "fst (TryReserve popped w) = kNeedsFlush \<longleftrightarrow>
     reservable popped (decode w) \<and> c_state (decode w) = kResident \<and> c_dirty (decode w)"
  "fst (snd (TryReserve popped w)) = w"
  "decode (snd (snd (TryReserve popped w))) =
     (if fst (TryReserve popped w) = kReserved
      then zero_ctl\<lparr>c_state := kLoading, c_waiters := c_waiters (decode w), c_pins := 1\<rparr>
      else decode w)"
  by (auto simp: TryReserve_def fc_simps reservable_def simp del: state_bits.simps)

lemma PublishResident_fields:
  assumes "release_pin \<Longrightarrow> 0 < c_pins (decode w)"
  shows "decode (fst (PublishResident release_pin w)) =
      (decode w)\<lparr>c_state := kResident, c_waiters := False,
         c_pins := c_pins (decode w) - (if release_pin then 1 else 0)\<rparr>"
    and "snd (PublishResident release_pin w) = c_waiters (decode w)"
  using assms unfolding PublishResident_def
  by (cases release_pin; simp add: UpdateAndWake_always fc_simps decode_sub_pin)+

lemma ReleaseToFree_fields:
  "decode (fst (ReleaseToFree w)) =
     zero_ctl\<lparr>c_excl := c_excl (decode w), c_shared := c_shared (decode w)\<rparr>"
  "snd (ReleaseToFree w) = c_waiters (decode w)"
  unfolding ReleaseToFree_def by (simp_all add: UpdateAndWake_always fc_simps) (simp add: zero_ctl_def)

lemma TryDiscardPinned_fields:
  "fst (TryDiscardPinned w) = kDiscarded \<longleftrightarrow> c_state (decode w) = kResident \<and>
     c_pins (decode w) = 1 \<and> \<not> c_excl (decode w) \<and> c_shared (decode w) = 0 \<and>
     \<not> c_queued (decode w) \<and> \<not> c_active (decode w)"
  "TryDiscardPinned w = (out, prev, w', wake) \<Longrightarrow>
     (if out = kDiscarded then w' = 0 \<and> prev = Some w \<and> wake = c_waiters (decode w)
      else w' = w \<and> prev = None \<and> \<not> wake)"
  by (auto simp: TryDiscardPinned_def fc_simps split: if_splits)

lemma MarkDirty_fields:
  "fst (MarkDirty w) =
     (if c_state (decode w) = kResident then Some (\<not> c_dirty (decode w)) else None)"
  "decode (snd (MarkDirty w)) =
     (if c_state (decode w) = kResident
      then (decode w)\<lparr>c_dirty := True, c_redirtied := c_redirtied (decode w) \<or>
              c_queued (decode w) \<or> c_active (decode w)\<rparr>
      else decode w)"
proof -
  have same: "c_dirty (decode w)" if "w OR kDirty = w"
    using arg_cong [OF that, of decode] unfolding decode_set_flag by (cases "decode w") auto
  have same': "c_dirty (decode w) \<and> c_redirtied (decode w)" if "(w OR kDirty) OR kRedirtied = w"
    using arg_cong [OF that, of decode] unfolding decode_set_flag by (cases "decode w") auto
  show "fst (MarkDirty w) =
     (if c_state (decode w) = kResident then Some (\<not> c_dirty (decode w)) else None)"
    using same same' by (auto simp: MarkDirty_def Let_def fc_simps)
  show "decode (snd (MarkDirty w)) =
     (if c_state (decode w) = kResident
      then (decode w)\<lparr>c_dirty := True, c_redirtied := c_redirtied (decode w) \<or>
              c_queued (decode w) \<or> c_active (decode w)\<rparr>
      else decode w)"
    using same same' by (cases "decode w") (auto simp: MarkDirty_def Let_def fc_simps)
qed

lemma TryAcquireShared_fields:
  "fst (TryAcquireShared w) \<longleftrightarrow> \<not> c_excl (decode w) \<and> c_shared (decode w) < 255"
  "decode (snd (TryAcquireShared w)) =
     (if fst (TryAcquireShared w) then (decode w)\<lparr>c_shared := Suc (c_shared (decode w))\<rparr>
      else decode w)"
  by (simp_all add: TryAcquireShared_def fc_simps decode_add_shared)

lemma ReleaseShared_fields:
  assumes "0 < c_shared (decode w)"
  shows "snd (ReleaseShared w) \<longleftrightarrow>
      c_waiters (decode w) \<and> (c_shared (decode w) = 1 \<or> c_shared (decode w) = 255)"
    and "decode (fst (ReleaseShared w)) =
      (decode w)\<lparr>c_shared := c_shared (decode w) - 1,
         c_waiters := c_waiters (decode w) \<and> \<not> snd (ReleaseShared w)\<rparr>"
  using assms unfolding ReleaseShared_def
  by (auto simp: UpdateAndWake_word fc_simps decode_sub_shared)

lemma TryAcquireExclusive_fields:
  "fst (TryAcquireExclusive w) \<longleftrightarrow> \<not> c_excl (decode w) \<and> c_shared (decode w) = 0"
  "decode (snd (TryAcquireExclusive w)) =
     (if fst (TryAcquireExclusive w) then (decode w)\<lparr>c_excl := True\<rparr> else decode w)"
  by (simp_all add: TryAcquireExclusive_def fc_simps)

lemma ReleaseExclusive_fields:
  "snd (fst (ReleaseExclusive w v)) = c_waiters (decode w)"
  "decode (fst (fst (ReleaseExclusive w v))) =
     (decode w)\<lparr>c_excl := False, c_waiters := False, c_redirtied := c_redirtied (decode w) \<or>
        c_queued (decode w) \<or> c_active (decode w)\<rparr>"
  "snd (ReleaseExclusive w v) = v + 1"
  unfolding ReleaseExclusive_def by (auto simp: UpdateAndWake_always fc_simps Let_def)

lemma TryQueueWriteback_fields:
  "fst (TryQueueWriteback skip w) = kQueued \<longleftrightarrow> \<not> c_queued (decode w) \<and> \<not> c_active (decode w) \<and>
     c_state (decode w) = kResident \<and> c_dirty (decode w) \<and> (skip \<longrightarrow> c_pins (decode w) = 0)"
  "decode (snd (TryQueueWriteback skip w)) =
     (if fst (TryQueueWriteback skip w) = kQueued
      then (decode w)\<lparr>c_queued := True, c_redirtied := False\<rparr> else decode w)"
  by (auto simp: TryQueueWriteback_def fc_simps)

lemma BeginWriteback_fields:
  "decode (fst (BeginWriteback w)) = (decode w)\<lparr>c_queued := False, c_active := True\<rparr>"
  "\<not> snd (BeginWriteback w)"
  by (simp_all add: BeginWriteback_def UpdateAndWake_word fc_simps)

lemma CancelQueuedWriteback_fields:
  "decode (fst (CancelQueuedWriteback w)) =
     (decode w)\<lparr>c_queued := False, c_redirtied := False, c_waiters := False\<rparr>"
  "snd (CancelQueuedWriteback w) = c_waiters (decode w)"
  unfolding CancelQueuedWriteback_def UpdateAndWake_wakes
  by (subst UpdateAndWake_always; simp only: decode_clear_flags; simp) simp

lemma CompleteWriteback_fields:
  fixes w ok
  defines "clears \<equiv> ok \<and> c_state (decode w) = kResident \<and> c_dirty (decode w) \<and>
     \<not> c_redirtied (decode w) \<and> \<not> c_excl (decode w)"
  shows "decode (fst (snd (CompleteWriteback ok w))) =
      (decode w)\<lparr>c_dirty := c_dirty (decode w) \<and> \<not> clears, c_queued := False, c_active := False,
         c_redirtied := False, c_waiters := False\<rparr>"
    and "snd (snd (CompleteWriteback ok w)) = c_waiters (decode w)"
    and "wc_cleared_dirty (fst (CompleteWriteback ok w)) = clears"
    and "wc_word (fst (CompleteWriteback ok w)) = fst (snd (CompleteWriteback ok w))"
proof -
  define f where "f = (\<lambda>v. let next_word = v AND NOT (kWritebackMask OR kRedirtied)
      in if ok \<and> IsResident v \<and> IsDirty v \<and> v AND (kRedirtied OR kExclusive) = 0
         then next_word AND NOT kDirty else next_word)"
  have f: "decode (f w) = (decode w)\<lparr>c_dirty := c_dirty (decode w) \<and> \<not> clears, c_queued := False,
      c_active := False, c_redirtied := False\<rparr>"
    unfolding f_def Let_def ctl_tests clears_def
    by (cases "decode w") (simp only: if_distrib [of decode] decode_clear_flag decode_clear_flags, simp)
  have up: "CompleteWriteback ok w =
      (\<lparr>wc_cleared_dirty = clears, wc_word = (if clears
           then (w AND NOT (kWritebackMask OR kRedirtied OR kWaiters)) AND NOT kDirty
           else w AND NOT (kWritebackMask OR kRedirtied OR kWaiters))\<rparr>,
       UpdateAndWake f (\<lambda>_ _. True) w)"
    unfolding CompleteWriteback_def f_def [symmetric] unfolding clears_def ctl_tests
    by (simp add: Let_def case_prod_beta conj_ac)
  show word: "decode (fst (snd (CompleteWriteback ok w))) =
      (decode w)\<lparr>c_dirty := c_dirty (decode w) \<and> \<not> clears, c_queued := False, c_active := False,
         c_redirtied := False, c_waiters := False\<rparr>"
    unfolding up by (simp add: UpdateAndWake_always f)
  show "snd (snd (CompleteWriteback ok w)) = c_waiters (decode w)"
    unfolding up by (simp add: fc_simps)
  show "wc_cleared_dirty (fst (CompleteWriteback ok w)) = clears" unfolding up by simp
  have "decode (wc_word (fst (CompleteWriteback ok w))) = decode (fst (snd (CompleteWriteback ok w)))"
    unfolding word unfolding up
    by (cases "decode w") (simp only: fst_conv WritebackCompletion.simps if_distrib [of decode]
        decode_clear_flag decode_clear_flags, simp add: clears_def)
  then show "wc_word (fst (CompleteWriteback ok w)) = fst (snd (CompleteWriteback ok w))"
    by (rule decode_inj)
qed

section \<open>Writeback errors and recovery positions\<close>

lemma packed_fields:
  assumes "(c::u32) < 256"
  shows "(c OR push_bit 8 x) AND 0xFF = c" and "drop_bit 8 (c OR push_bit 8 x) = take_bit 24 x"
proof -
  have c: "n < 8" if "bit c n" for n
  proof -
    have "unat (take_bit 8 c) = unat c"
      unfolding unsigned_take_bit_eq using assms by (simp add: take_bit_eq_mod word_less_nat_alt)
    then have "c = take_bit 8 c" by (simp only: word_unat_eq_iff)
    then show ?thesis using that by (metis bit_take_bit_iff)
  qed
  have "(c OR push_bit 8 x) AND mask 8 = c"
    by (rule bit_word_eqI) (auto simp: bit_and_iff bit_or_iff bit_push_bit_iff bit_mask_iff dest: c)
  then show "(c OR push_bit 8 x) AND 0xFF = c" unfolding mask_words .
  show "drop_bit 8 (c OR push_bit 8 x) = take_bit 24 x"
    by (rule bit_word_eqI) (auto simp: bit_drop_bit_eq bit_or_iff bit_push_bit_iff bit_take_bit_iff
        dest: c bit_imp_le_length)
qed

lemma clamped_errno:
  fixes e :: int
  assumes "e < 2 ^ 31"
  defines "x \<equiv> min (word_of_int (max e 0)) (0xFFFFFF :: u32)"
  shows "take_bit 24 x = x" and "sint x = min (max e 0) 0xFFFFFF"
proof -
  have u: "uint x = min (max e 0) 0xFFFFFF"
  proof -
    have "uint (word_of_int (max e 0) :: u32) = max e 0"
      using assms(1) by (simp add: uint_word_of_int take_bit_int_eq_self)
    then show ?thesis unfolding x_def by (simp add: min_def word_le_def)
  qed
  have "uint (take_bit 24 x) = uint x"
    unfolding unsigned_take_bit_eq using u by (simp add: take_bit_int_eq_self)
  then show "take_bit 24 x = x" by (simp only: word_uint_eq_iff)
  have "sint x = signed_take_bit 31 (uint x)" by (simp add: sint_uint)
  then show "sint x = min (max e 0) 0xFFFFFF"
    unfolding u by (simp add: signed_take_bit_int_eq_self)
qed

lemma code_byte:
  "((ucast (b::u8) :: u32) AND 0xFF) = ucast b" "(ucast b :: u32) < 256"
  "(ucast (ucast b :: u32) :: u8) = b"
proof -
  show lt: "(ucast b :: u32) < 256"
    using unsigned_less [of b, where 'a = nat]
    by (simp add: word_less_nat_alt unsigned_ucast_eq take_bit_nat_eq_self)
  show "((ucast (b::u8) :: u32) AND 0xFF) = ucast b" using packed_fields(1) [OF lt, of 0] by simp
  show "(ucast (ucast b :: u32) :: u8) = b" by (rule bit_word_eqI) (simp add: bit_simps)
qed

lemma LowerRecLsn_min:
  "LowerRecLsn (LowerRecLsn r a) b = LowerRecLsn (LowerRecLsn r b) a"
  "r \<noteq> kInvalidLsn \<Longrightarrow> LowerRecLsn r a \<noteq> kInvalidLsn \<and> LowerRecLsn r a \<le> r"
  "a \<noteq> kInvalidLsn \<Longrightarrow> LowerRecLsn r a \<noteq> kInvalidLsn \<and> LowerRecLsn r a \<le> a"
  by (auto simp: LowerRecLsn_def)

lemma unpack_pack:
  assumes "listed (err_code e)" and "err_system_error e < 2 ^ 31"
  shows "UnpackWritebackError (PackWritebackError (Inl e)) =
    Inl \<lparr>err_code = err_code e, err_message = ''writeback failed'',
         err_system_error = min (max (err_system_error e) 0) 0xFFFFFF\<rparr>"
proof -
  define c where "c = (ucast (code_value (err_code e)) :: u32)"
  define x where "x = min (word_of_int (max (err_system_error e) 0)) (0xFFFFFF :: u32)"
  have pack: "PackWritebackError (Inl e) = c OR push_bit 8 x"
    unfolding PackWritebackError_def Let_def c_def x_def code_byte(1) by simp
  have c: "c < 256" unfolding c_def by (rule code_byte(2))
  have low: "ucast c = code_value (err_code e)" unfolding c_def by (rule code_byte(3))
  have "c \<noteq> 0" using low code_value_nonzero [OF assms(1)] by auto
  then have "c OR push_bit 8 x \<noteq> 0" using packed_fields(1) [OF c, of x] by auto
  then show ?thesis
    unfolding pack UnpackWritebackError_def packed_fields [OF c] low
      clamped_errno [OF assms(2), folded x_def] code_of_value_inverse [OF assms(1)]
    by (simp add: mk_Error_def)
qed

end
