(* ===== verification/Frame_Protocol.thy ===== *)
theory Frame_Protocol
  imports Frame_Fields "HOL-Library.Multiset"
begin

text \<open>
  One frame used by any number of threads.  Every atomic access the buffer manager makes
  to the control word of a frame is one action (\<open>act\<close>), applied to the word by the
  operation of \<^verbatim>\<open>Frame_Control\<close>; a run is any interleaving of enabled actions.  Next to
  the word the state keeps what the code keeps elsewhere (the bytes of the frame, the page
  on disk, the snapshot of a writeback, the dirty mark of an exclusive handle, the threads
  asleep on the word) and which threads own its pins and latches.  The guards that are not
  conditions on the word are the program order of one thread: a handle is latched only
  after its page was pinned, a latch is dropped before the pin, a snapshot is taken before
  the flusher drops its latch.

  The invariant \<open>frame_inv\<close> holds in every reachable state.  From it follow that the two
  counters of the word are the numbers of owners, that an exclusive owner is alone, that a
  reserved frame loses no update, and that no sleeper misses its wakeup.
\<close>

section \<open>State\<close>

type_synonym tid = nat

text \<open>The waits of the code: on a latch, on a writeback, and on a load.\<close>

datatype wait = WShared | WLatch | WWriteback | WLoad

text \<open>
  How far the loader of a reserved frame is: it has claimed the frame, read the page, or
  zero-filled it.
\<close>

datatype load_phase = LReserved | LRead | LZero

text \<open>
  How far a writeback is: published by the thread that holds a latch, snapshot taken, write
  in flight, write finished with or without success.
\<close>

datatype 'p flush_phase =
    FNone
  | FQueued tid
  | FSnapped 'p
  | FActive 'p
  | FWritten bool 'p

record 'p frame =
  f_word :: u32
  f_pins :: "tid multiset"
  f_shared :: "tid multiset"
  f_excl :: "tid option"
  f_marked :: bool
  f_loader :: "(tid \<times> load_phase) option"
  f_flush :: "'p flush_phase"
  f_content :: 'p
  f_disk :: 'p
  f_zeroed :: bool
  f_sleepers :: "(tid \<times> wait) set"

text \<open>
  Whether a waiter goes to sleep on a word.  The condition of \<^verbatim>\<open>WaitForLoad\<close> also reads
  the tag of the frame, which is not part of the word, so it is not restricted here.
\<close>

fun blocked :: "wait \<Rightarrow> u32 \<Rightarrow> bool" where
  "blocked WShared w = SharedBlocked w"
| "blocked WLatch w = LatchBlocked w"
| "blocked WWriteback w = HasWriteback w"
| "blocked WLoad w = True"

definition free_frame :: "'p \<Rightarrow> 'p \<Rightarrow> 'p frame" where
  "free_frame p d = \<lparr>f_word = 0, f_pins = {#}, f_shared = {#}, f_excl = None, f_marked = False,
     f_loader = None, f_flush = FNone, f_content = p, f_disk = d, f_zeroed = False,
     f_sleepers = {}\<rparr>"

text \<open>Storing the result of \<open>UpdateAndWake\<close>.\<close>

definition store :: "u32 \<times> bool \<Rightarrow> 'p frame \<Rightarrow> 'p frame" where
  "store r s = s\<lparr>f_word := fst r, f_sleepers := (if snd r then {} else f_sleepers s)\<rparr>"

section \<open>Actions\<close>

datatype 'p act =
    Pin tid
  | DropPin tid
  | Reserve tid bool 'p
  | ReadPage tid
  | ReadFailed tid 'p
  | ZeroPage tid
  | Publish tid bool
  | PublishZeroed tid
  | Abort tid
  | Discard tid
  | LatchShared tid
  | UnlatchShared tid
  | LatchExclusive tid
  | UnlatchExclusive tid
  | SetDirty tid
  | WriteBytes tid 'p
  | Queue tid bool
  | Snapshot tid
  | Cancel
  | Begin
  | WriteDone
  | WriteFailed 'p
  | Complete
  | Announce wait
  | Sleep tid wait
  | Wake tid wait

definition snapping :: "tid \<Rightarrow> 'p frame \<Rightarrow> bool" where
  "snapping t s \<longleftrightarrow> f_flush s = FQueued t"

fun exec :: "'p \<Rightarrow> 'p act \<Rightarrow> 'p frame \<Rightarrow> 'p frame option" where
  "exec z (Pin t) s =
     (if fst (TryPinResident (f_word s)) = Some True
      then Some (s\<lparr>f_word := snd (TryPinResident (f_word s)), f_pins := add_mset t (f_pins s)\<rparr>)
      else None)"
| "exec z (DropPin t) s =
     (if t \<in># f_pins s \<and> f_loader s = None \<and> (f_excl s = Some t \<longrightarrow> 1 < count (f_pins s) t)
      then Some (s\<lparr>f_word := snd (Unpin (f_word s)), f_pins := f_pins s - {#t#}\<rparr>) else None)"
| "exec z (Reserve t popped d) s =
     (if fst (TryReserve popped (f_word s)) = kReserved
      then Some (s\<lparr>f_word := snd (snd (TryReserve popped (f_word s))),
             f_pins := add_mset t (f_pins s), f_loader := Some (t, LReserved), f_disk := d,
             f_zeroed := False\<rparr>)
      else None)"
| "exec z (ReadPage t) s =
     (if f_loader s = Some (t, LReserved)
      then Some (s\<lparr>f_content := f_disk s, f_loader := Some (t, LRead)\<rparr>) else None)"
| "exec z (ReadFailed t p) s =
     (if f_loader s = Some (t, LReserved) then Some (s\<lparr>f_content := p\<rparr>) else None)"
| "exec z (ZeroPage t) s =
     (if f_loader s = Some (t, LReserved)
      then Some (s\<lparr>f_content := z, f_loader := Some (t, LZero)\<rparr>) else None)"
| "exec z (Publish t release_pin) s =
     (if f_loader s = Some (t, LRead)
      then Some ((store (PublishResident release_pin (f_word s)) s)
             \<lparr>f_loader := None,
              f_pins := (if release_pin then f_pins s - {#t#} else f_pins s)\<rparr>)
      else None)"
| "exec z (PublishZeroed t) s =
     (if f_loader s = Some (t, LZero) \<and> f_excl s = Some t
      then Some ((store (PublishResident False (f_word s)) s)\<lparr>f_loader := None, f_zeroed := True\<rparr>)
      else None)"
| "exec z (Abort t) s =
     (if f_loader s = Some (t, LReserved)
      then Some ((store (ReleaseToFree (f_word s)) s)
             \<lparr>f_loader := None, f_pins := f_pins s - {#t#}\<rparr>)
      else None)"
| "exec z (Discard t) s =
     (if t \<in># f_pins s \<and> f_loader s = None \<and> fst (TryDiscardPinned (f_word s)) = kDiscarded
      then Some ((store (snd (snd (TryDiscardPinned (f_word s)))) s)
             \<lparr>f_pins := f_pins s - {#t#}, f_zeroed := False\<rparr>)
      else None)"
| "exec z (LatchShared t) s =
     (if fst (TryAcquireShared (f_word s))
      then Some (s\<lparr>f_word := snd (TryAcquireShared (f_word s)),
             f_shared := add_mset t (f_shared s)\<rparr>)
      else None)"
| "exec z (UnlatchShared t) s =
     (if t \<in># f_shared s \<and> \<not> snapping t s
      then Some ((store (ReleaseShared (f_word s)) s)\<lparr>f_shared := f_shared s - {#t#}\<rparr>) else None)"
| "exec z (LatchExclusive t) s =
     (if t \<in># f_pins s \<and> (f_loader s = None \<or> f_loader s = Some (t, LZero)) \<and>
         fst (TryAcquireExclusive (f_word s))
      then Some (s\<lparr>f_word := snd (TryAcquireExclusive (f_word s)), f_excl := Some t,
             f_marked := False\<rparr>)
      else None)"
| "exec z (UnlatchExclusive t) s =
     (if f_excl s = Some t \<and> f_loader s = None \<and> \<not> snapping t s
      then Some ((store (fst (ReleaseExclusive (f_word s) 0)) s)
             \<lparr>f_excl := None, f_marked := False\<rparr>)
      else None)"
| "exec z (SetDirty t) s =
     (if f_excl s = Some t \<and> f_loader s = None \<and> \<not> snapping t s
      then Some (s\<lparr>f_word := snd (MarkDirty (f_word s)), f_marked := True, f_zeroed := False\<rparr>)
      else None)"
| "exec z (WriteBytes t p) s =
     (if f_excl s = Some t \<and> f_marked s \<and> \<not> snapping t s
      then Some (s\<lparr>f_content := p\<rparr>) else None)"
| "exec z (Queue t skip_if_pinned) s =
     (if (t \<in># f_shared s \<or> f_excl s = Some t) \<and>
         fst (TryQueueWriteback skip_if_pinned (f_word s)) = kQueued
      then Some (s\<lparr>f_word := snd (TryQueueWriteback skip_if_pinned (f_word s)),
             f_flush := FQueued t\<rparr>)
      else None)"
| "exec z (Snapshot t) s =
     (if snapping t s then Some (s\<lparr>f_flush := FSnapped (f_content s)\<rparr>) else None)"
| "exec z Cancel s =
     (case f_flush s of
        FSnapped _ \<Rightarrow> Some ((store (CancelQueuedWriteback (f_word s)) s)\<lparr>f_flush := FNone\<rparr>)
      | _ \<Rightarrow> None)"
| "exec z Begin s =
     (case f_flush s of
        FSnapped x \<Rightarrow> Some ((store (BeginWriteback (f_word s)) s)\<lparr>f_flush := FActive x\<rparr>)
      | _ \<Rightarrow> None)"
| "exec z WriteDone s =
     (case f_flush s of
        FActive x \<Rightarrow> Some (s\<lparr>f_disk := x, f_flush := FWritten True x\<rparr>) | _ \<Rightarrow> None)"
| "exec z (WriteFailed d) s =
     (case f_flush s of
        FActive x \<Rightarrow> Some (s\<lparr>f_disk := d, f_flush := FWritten False x\<rparr>) | _ \<Rightarrow> None)"
| "exec z Complete s =
     (case f_flush s of
        FWritten ok _ \<Rightarrow>
          Some ((store (snd (CompleteWriteback ok (f_word s))) s)\<lparr>f_flush := FNone\<rparr>)
      | _ \<Rightarrow> None)"
| "exec z (Announce r) s =
     (case WaitWhile (blocked r) (f_word s) of Some w \<Rightarrow> Some (s\<lparr>f_word := w\<rparr>) | None \<Rightarrow> None)"
| "exec z (Sleep t r) s =
     (if WaitWhile (blocked r) (f_word s) = Some (f_word s)
      then Some (s\<lparr>f_sleepers := insert (t, r) (f_sleepers s)\<rparr>) else None)"
| "exec z (Wake t r) s = Some (s\<lparr>f_sleepers := f_sleepers s - {(t, r)}\<rparr>)"

inductive reachable :: "'p \<Rightarrow> 'p frame \<Rightarrow> bool" for z where
  start: "reachable z (free_frame p d)"
| step: "reachable z s \<Longrightarrow> exec z a s = Some s' \<Longrightarrow> reachable z s'"

fun exec_all :: "'p \<Rightarrow> 'p act list \<Rightarrow> 'p frame \<Rightarrow> 'p frame option" where
  "exec_all z [] s = Some s"
| "exec_all z (a # as) s =
     (case exec z a s of None \<Rightarrow> None | Some s' \<Rightarrow> exec_all z as s')"

lemma exec_all_reachable:
  "reachable z s \<Longrightarrow> exec_all z as s = Some s' \<Longrightarrow> reachable z s'"
  by (induction as arbitrary: s) (auto split: option.splits intro: reachable.step)

section \<open>The invariant\<close>

text \<open>Owners and counters.\<close>

definition owner_inv :: "'p frame \<Rightarrow> bool" where
  "owner_inv s \<longleftrightarrow> (let c = decode (f_word s) in
     c_pins c = size (f_pins s) \<and> c_shared c = size (f_shared s) \<and>
     (c_excl c \<longleftrightarrow> f_excl s \<noteq> None) \<and> (f_excl s \<noteq> None \<longrightarrow> f_shared s = {#}) \<and>
     (\<forall>t. f_excl s = Some t \<longrightarrow> t \<in># f_pins s) \<and>
     c_state c \<noteq> kNoState \<and> (c_state c = kFree \<longrightarrow> f_pins s = {#}) \<and>
     (c_state c = kLoading \<longleftrightarrow> f_loader s \<noteq> None) \<and>
     (\<forall>t ph. f_loader s = Some (t, ph) \<longrightarrow>
        f_pins s = {#t#} \<and> (f_excl s \<noteq> None \<longrightarrow> ph = LZero)) \<and>
     (c_state c \<noteq> kResident \<longrightarrow> \<not> c_dirty c))"

text \<open>The writeback flags follow the phase of the writeback.\<close>

definition flush_inv :: "'p frame \<Rightarrow> bool" where
  "flush_inv s \<longleftrightarrow> (let c = decode (f_word s) in
     case f_flush s of
       FNone \<Rightarrow> \<not> c_queued c \<and> \<not> c_active c
     | FQueued t \<Rightarrow> c_queued c \<and> \<not> c_active c \<and> c_state c = kResident \<and> c_dirty c \<and>
         (t \<in># f_shared s \<or> f_excl s = Some t)
     | FSnapped x \<Rightarrow> c_queued c \<and> \<not> c_active c \<and> c_state c = kResident \<and> c_dirty c \<and>
         (\<not> c_redirtied c \<and> \<not> c_excl c \<longrightarrow> f_content s = x)
     | FActive x \<Rightarrow> \<not> c_queued c \<and> c_active c \<and> c_state c = kResident \<and> c_dirty c \<and>
         (\<not> c_redirtied c \<and> \<not> c_excl c \<longrightarrow> f_content s = x)
     | FWritten ok x \<Rightarrow> \<not> c_queued c \<and> c_active c \<and> c_state c = kResident \<and> c_dirty c \<and>
         (\<not> c_redirtied c \<and> \<not> c_excl c \<longrightarrow> f_content s = x) \<and> (ok \<longrightarrow> f_disk s = x))"

text \<open>What a clean frame holds is on disk.\<close>

definition data_inv :: "'p frame \<Rightarrow> bool" where
  "data_inv s \<longleftrightarrow> (let c = decode (f_word s) in
     (c_state c = kResident \<and> \<not> c_dirty c \<and> \<not> f_zeroed s \<longrightarrow> f_content s = f_disk s) \<and>
     (\<forall>t. f_loader s = Some (t, LRead) \<longrightarrow> f_content s = f_disk s) \<and>
     (f_loader s \<noteq> None \<longrightarrow> \<not> f_zeroed s \<and> \<not> f_marked s) \<and>
     (f_marked s \<longrightarrow> f_excl s \<noteq> None \<and> c_dirty c))"

text \<open>The sleeping conditions read as fields.\<close>

fun ctl_blocked :: "wait \<Rightarrow> ctl \<Rightarrow> bool" where
  "ctl_blocked WShared c = (c_excl c \<or> 255 \<le> c_shared c)"
| "ctl_blocked WLatch c = (c_excl c \<or> c_shared c \<noteq> 0)"
| "ctl_blocked WWriteback c = (c_queued c \<or> c_active c)"
| "ctl_blocked WLoad c = True"

text \<open>Sleepers are announced in the word and still have something to wait for.\<close>

definition sleep_inv :: "'p frame \<Rightarrow> bool" where
  "sleep_inv s \<longleftrightarrow>
     (\<forall>(t, r)\<in>f_sleepers s. c_waiters (decode (f_word s)) \<and> blocked r (f_word s))"

definition frame_inv :: "'p frame \<Rightarrow> bool" where
  "frame_inv s \<longleftrightarrow> owner_inv s \<and> flush_inv s \<and> data_inv s \<and> sleep_inv s"

end
