(* ===== verification/Frame_Effects.thy ===== *)
theory Frame_Effects
  imports Frame_Protocol
begin

text \<open>
  What each action of \<^verbatim>\<open>Frame_Protocol\<close> does to the fields of the control word: one
  elimination lemma per action that stores a word, giving the guards that held, the new
  state, and the new word in terms of the fields of the old one.  The invariant proofs use
  only these lemmas.
\<close>

section \<open>Word operations as used by the actions\<close>

lemma TryPinResident_ctl:
  assumes "fst (TryPinResident w) = Some True"
  shows "c_state (decode w) = kResident"
    and "decode (snd (TryPinResident w)) = (decode w)\<lparr>c_pins := Suc (c_pins (decode w))\<rparr>"
proof -
  have "IsResident w" "Pins w \<noteq> kMaxPins" "snd (TryPinResident w) = w + kPinOne"
    using assms unfolding TryPinResident_def by (simp_all split: if_splits)
  moreover from this have "c_pins (decode w) < 32767"
    using ctl_bounds(1) [of w] unfolding fc_simps by linarith
  ultimately show "c_state (decode w) = kResident"
    and "decode (snd (TryPinResident w)) = (decode w)\<lparr>c_pins := Suc (c_pins (decode w))\<rparr>"
    by (simp_all add: decode_add_pin fc_simps)
qed

lemma TryDiscardPinned_ctl:
  "fst (TryDiscardPinned w) = kDiscarded \<Longrightarrow>
     snd (snd (TryDiscardPinned w)) = (0, c_waiters (decode w))"
  by (auto simp: TryDiscardPinned_def fc_simps split: if_splits)

lemma waiters_set: "c_waiters c \<Longrightarrow> c\<lparr>c_waiters := True\<rparr> = c"
  by (cases c) simp

lemma WaitWhile_ctl:
  assumes "WaitWhile b w = Some w'"
  shows "b w" and "decode w' = (decode w)\<lparr>c_waiters := True\<rparr>"
  using assms by (auto simp: WaitWhile_def fc_simps waiters_set split: if_splits)

lemma WaitWhile_same: "WaitWhile b w = Some w \<Longrightarrow> c_waiters (decode w)"
  using arg_cong [OF WaitWhile_ctl(2) [of b w w], of c_waiters] by simp

lemma blocked_ctl: "blocked r w \<longleftrightarrow> ctl_blocked r (decode w)"
  by (cases r) (auto simp: SharedBlocked_def LatchBlocked_def fc_simps)

lemma store_simps [simp]:
  "f_word (store r s) = fst r" "f_pins (store r s) = f_pins s" "f_shared (store r s) = f_shared s"
  "f_excl (store r s) = f_excl s" "f_marked (store r s) = f_marked s"
  "f_loader (store r s) = f_loader s" "f_flush (store r s) = f_flush s"
  "f_content (store r s) = f_content s" "f_disk (store r s) = f_disk s"
  "f_zeroed (store r s) = f_zeroed s"
  "f_sleepers (store r s) = (if snd r then {} else f_sleepers s)"
  by (simp_all add: store_def)

lemma mem_size: "t \<in># M \<Longrightarrow> 0 < size M \<and> size (M - {#t#}) = size M - 1"
  by (auto simp: size_Diff_singleton nonempty_has_size [symmetric])

section \<open>Pins and loads\<close>

lemma eff_Pin:
  assumes "exec z (Pin t) s = Some s'"
  obtains w where "s' = s\<lparr>f_word := w, f_pins := add_mset t (f_pins s)\<rparr>"
    "c_state (decode (f_word s)) = kResident"
    "decode w = (decode (f_word s))\<lparr>c_pins := Suc (c_pins (decode (f_word s)))\<rparr>"
  using assms by (auto split: if_splits dest: TryPinResident_ctl intro!: that)

lemma eff_DropPin:
  assumes "exec z (DropPin t) s = Some s'" "owner_inv s"
  obtains w where "s' = s\<lparr>f_word := w, f_pins := f_pins s - {#t#}\<rparr>"
    "t \<in># f_pins s" "f_loader s = None" "f_excl s = Some t \<longrightarrow> 1 < count (f_pins s) t"
    "decode w = (decode (f_word s))\<lparr>c_pins := c_pins (decode (f_word s)) - 1\<rparr>"
proof -
  from assms(1) have g: "s' = s\<lparr>f_word := snd (Unpin (f_word s)), f_pins := f_pins s - {#t#}\<rparr>"
    "t \<in># f_pins s" "f_loader s = None" "f_excl s = Some t \<longrightarrow> 1 < count (f_pins s) t"
    by (simp_all split: if_splits)
  have "0 < c_pins (decode (f_word s))"
    using assms(2) mem_size [OF g(2)] by (simp add: owner_inv_def Let_def)
  from Unpin_fields(1) [OF this] show thesis using that g by blast
qed

lemma eff_Reserve:
  assumes "exec z (Reserve t popped d) s = Some s'"
  obtains w where "s' = s\<lparr>f_word := w, f_pins := add_mset t (f_pins s),
      f_loader := Some (t, LReserved), f_disk := d, f_zeroed := False\<rparr>"
    "reservable popped (decode (f_word s))"
    "\<not> (c_state (decode (f_word s)) = kResident \<and> c_dirty (decode (f_word s)))"
    "decode w = zero_ctl\<lparr>c_state := kLoading, c_waiters := c_waiters (decode (f_word s)), c_pins := 1\<rparr>"
proof -
  have g: "fst (TryReserve popped (f_word s)) = kReserved" using assms by (simp split: if_splits)
  show thesis
    by (rule that [of "snd (snd (TryReserve popped (f_word s)))"])
       (use assms g in \<open>simp_all add: TryReserve_fields(1,4) split: if_splits\<close>)
qed

lemma eff_Publish:
  assumes "exec z (Publish t release_pin) s = Some s'" "owner_inv s"
  obtains r where "s' = (store r s)\<lparr>f_loader := None,
      f_pins := (if release_pin then f_pins s - {#t#} else f_pins s)\<rparr>"
    "f_loader s = Some (t, LRead)" "snd r = c_waiters (decode (f_word s))"
    "decode (fst r) = (decode (f_word s))\<lparr>c_state := kResident, c_waiters := False,
       c_pins := c_pins (decode (f_word s)) - (if release_pin then 1 else 0)\<rparr>"
proof -
  have g: "f_loader s = Some (t, LRead)" using assms by (simp split: if_splits)
  have "0 < c_pins (decode (f_word s))" using assms(2) g by (simp add: owner_inv_def Let_def)
  then show thesis
    by (intro that [of "PublishResident release_pin (f_word s)"] PublishResident_fields g)
       (use assms(1) g in simp_all)
qed

lemma eff_PublishZeroed:
  assumes "exec z (PublishZeroed t) s = Some s'"
  obtains r where "s' = (store r s)\<lparr>f_loader := None, f_zeroed := True\<rparr>"
    "f_loader s = Some (t, LZero)" "f_excl s = Some t" "snd r = c_waiters (decode (f_word s))"
    "decode (fst r) = (decode (f_word s))\<lparr>c_state := kResident, c_waiters := False\<rparr>"
proof -
  have g: "f_loader s = Some (t, LZero)" "f_excl s = Some t"
    using assms by (simp_all split: if_splits)
  have d: "decode (fst (PublishResident False (f_word s))) =
      (decode (f_word s))\<lparr>c_state := kResident, c_waiters := False\<rparr>"
    using PublishResident_fields(1) [of False "f_word s"] by (cases "decode (f_word s)") simp
  show thesis
    by (rule that [OF _ g _ d]) (use assms g in \<open>simp_all add: PublishResident_fields(2)\<close>)
qed

lemma eff_Abort:
  assumes "exec z (Abort t) s = Some s'"
  obtains r where "s' = (store r s)\<lparr>f_loader := None, f_pins := f_pins s - {#t#}\<rparr>"
    "f_loader s = Some (t, LReserved)" "snd r = c_waiters (decode (f_word s))"
    "decode (fst r) =
       zero_ctl\<lparr>c_excl := c_excl (decode (f_word s)), c_shared := c_shared (decode (f_word s))\<rparr>"
proof -
  have g: "f_loader s = Some (t, LReserved)" using assms by (simp split: if_splits)
  show thesis by (rule that [OF _ g ReleaseToFree_fields(2,1)]) (use assms g in simp)
qed

lemma eff_Discard:
  assumes "exec z (Discard t) s = Some s'"
  obtains "s' = (store (0, c_waiters (decode (f_word s))) s)
      \<lparr>f_pins := f_pins s - {#t#}, f_zeroed := False\<rparr>"
    "t \<in># f_pins s" "f_loader s = None" "c_state (decode (f_word s)) = kResident"
    "c_pins (decode (f_word s)) = 1" "\<not> c_excl (decode (f_word s))"
    "c_shared (decode (f_word s)) = 0" "\<not> c_queued (decode (f_word s))"
    "\<not> c_active (decode (f_word s))"
proof -
  have g: "t \<in># f_pins s" "f_loader s = None" "fst (TryDiscardPinned (f_word s)) = kDiscarded"
    using assms by (simp_all split: if_splits)
  show thesis
    using assms g TryDiscardPinned_ctl [OF g(3)] g(3) [unfolded TryDiscardPinned_fields(1)]
    by (intro that) simp_all
qed

section \<open>Latches\<close>

lemma eff_LatchShared:
  assumes "exec z (LatchShared t) s = Some s'"
  obtains w where "s' = s\<lparr>f_word := w, f_shared := add_mset t (f_shared s)\<rparr>"
    "\<not> c_excl (decode (f_word s))" "c_shared (decode (f_word s)) < 255"
    "decode w = (decode (f_word s))\<lparr>c_shared := Suc (c_shared (decode (f_word s)))\<rparr>"
  by (rule that [of "snd (TryAcquireShared (f_word s))"])
     (use assms in \<open>simp_all add: TryAcquireShared_fields split: if_splits\<close>)

lemma eff_UnlatchShared:
  assumes "exec z (UnlatchShared t) s = Some s'" "owner_inv s"
  obtains r where "s' = (store r s)\<lparr>f_shared := f_shared s - {#t#}\<rparr>"
    "t \<in># f_shared s" "f_flush s \<noteq> FQueued t" "0 < c_shared (decode (f_word s))"
    "snd r \<longleftrightarrow> c_waiters (decode (f_word s)) \<and>
       (c_shared (decode (f_word s)) = 1 \<or> c_shared (decode (f_word s)) = 255)"
    "decode (fst r) = (decode (f_word s))\<lparr>c_shared := c_shared (decode (f_word s)) - 1,
       c_waiters := c_waiters (decode (f_word s)) \<and> \<not> snd r\<rparr>"
proof -
  have g: "t \<in># f_shared s" "f_flush s \<noteq> FQueued t"
    using assms by (simp_all add: snapping_def split: if_splits)
  have "0 < c_shared (decode (f_word s))"
    using assms(2) mem_size [OF g(1)] by (simp add: owner_inv_def Let_def)
  then show thesis
    by (intro that [of "ReleaseShared (f_word s)"] ReleaseShared_fields g)
       (use assms(1) g in \<open>simp_all add: snapping_def\<close>)
qed

lemma eff_LatchExclusive:
  assumes "exec z (LatchExclusive t) s = Some s'"
  obtains w where "s' = s\<lparr>f_word := w, f_excl := Some t, f_marked := False\<rparr>"
    "t \<in># f_pins s" "f_loader s = None \<or> f_loader s = Some (t, LZero)"
    "\<not> c_excl (decode (f_word s))" "c_shared (decode (f_word s)) = 0"
    "decode w = (decode (f_word s))\<lparr>c_excl := True\<rparr>"
  by (rule that [of "snd (TryAcquireExclusive (f_word s))"])
     (use assms in \<open>simp_all add: TryAcquireExclusive_fields split: if_splits\<close>)

lemma eff_UnlatchExclusive:
  assumes "exec z (UnlatchExclusive t) s = Some s'"
  obtains r where "s' = (store r s)\<lparr>f_excl := None, f_marked := False\<rparr>"
    "f_excl s = Some t" "f_loader s = None" "f_flush s \<noteq> FQueued t"
    "snd r = c_waiters (decode (f_word s))"
    "decode (fst r) = (decode (f_word s))\<lparr>c_excl := False, c_waiters := False,
       c_redirtied := c_redirtied (decode (f_word s)) \<or> c_queued (decode (f_word s)) \<or>
         c_active (decode (f_word s))\<rparr>"
proof -
  have g: "f_excl s = Some t" "f_loader s = None" "f_flush s \<noteq> FQueued t"
    using assms by (simp_all add: snapping_def split: if_splits)
  show thesis
    by (rule that [OF _ g ReleaseExclusive_fields(1,2) [where v = 0]])
       (use assms g in \<open>simp add: snapping_def\<close>)
qed

lemma eff_SetDirty:
  assumes "exec z (SetDirty t) s = Some s'" "owner_inv s"
  obtains w where "s' = s\<lparr>f_word := w, f_marked := True, f_zeroed := False\<rparr>"
    "f_excl s = Some t" "f_loader s = None" "c_state (decode (f_word s)) = kResident"
    "decode w = (decode (f_word s))\<lparr>c_dirty := True,
       c_redirtied := c_redirtied (decode (f_word s)) \<or> c_queued (decode (f_word s)) \<or>
         c_active (decode (f_word s))\<rparr>"
proof -
  have g: "f_excl s = Some t" "f_loader s = None" using assms by (simp_all split: if_splits)
  have "c_state (decode (f_word s)) = kResident"
    using assms(2) g unfolding owner_inv_def Let_def
    by (cases "c_state (decode (f_word s))") auto
  then show thesis
    by (intro that [of "snd (MarkDirty (f_word s))"])
       (use assms g in \<open>simp_all add: MarkDirty_fields split: if_splits\<close>)
qed

section \<open>Writebacks and waits\<close>

lemma eff_Queue:
  assumes "exec z (Queue t skip) s = Some s'"
  obtains w where "s' = s\<lparr>f_word := w, f_flush := FQueued t\<rparr>"
    "t \<in># f_shared s \<or> f_excl s = Some t" "\<not> c_queued (decode (f_word s))"
    "\<not> c_active (decode (f_word s))" "c_state (decode (f_word s)) = kResident"
    "c_dirty (decode (f_word s))"
    "decode w = (decode (f_word s))\<lparr>c_queued := True, c_redirtied := False\<rparr>"
proof -
  have g: "fst (TryQueueWriteback skip (f_word s)) = kQueued" "t \<in># f_shared s \<or> f_excl s = Some t"
    using assms by (simp_all split: if_splits)
  show thesis
    using g(1) [unfolded TryQueueWriteback_fields(1)] g
      TryQueueWriteback_fields(2) [of skip "f_word s"] assms
    by (intro that [of "snd (TryQueueWriteback skip (f_word s))"]) simp_all
qed

lemma eff_Cancel:
  assumes "exec z Cancel s = Some s'"
  obtains r x where "s' = (store r s)\<lparr>f_flush := FNone\<rparr>" "f_flush s = FSnapped x"
    "snd r = c_waiters (decode (f_word s))"
    "decode (fst r) = (decode (f_word s))\<lparr>c_queued := False, c_redirtied := False, c_waiters := False\<rparr>"
  by (cases "f_flush s")
     (use assms that [OF _ _ CancelQueuedWriteback_fields(2,1)] in simp_all)

lemma eff_Begin:
  assumes "exec z Begin s = Some s'"
  obtains w x where "s' = s\<lparr>f_word := w, f_flush := FActive x\<rparr>" "f_flush s = FSnapped x"
    "decode w = (decode (f_word s))\<lparr>c_queued := False, c_active := True\<rparr>"
proof (cases "f_flush s")
  case (FSnapped x)
  show thesis
    by (rule that [OF _ FSnapped BeginWriteback_fields(1)])
       (use assms FSnapped BeginWriteback_fields(2) in \<open>simp add: store_def\<close>)
qed (use assms in simp_all)

lemma eff_Complete:
  assumes "exec z Complete s = Some s'"
  obtains r ok x where "s' = (store r s)\<lparr>f_flush := FNone\<rparr>" "f_flush s = FWritten ok x"
    "snd r = c_waiters (decode (f_word s))"
    "decode (fst r) = (decode (f_word s))\<lparr>
       c_dirty := c_dirty (decode (f_word s)) \<and> \<not> (ok \<and> c_state (decode (f_word s)) = kResident \<and>
         c_dirty (decode (f_word s)) \<and> \<not> c_redirtied (decode (f_word s)) \<and>
         \<not> c_excl (decode (f_word s))),
       c_queued := False, c_active := False, c_redirtied := False, c_waiters := False\<rparr>"
proof (cases "f_flush s")
  case (FWritten ok x)
  show thesis
    by (rule that [OF _ FWritten CompleteWriteback_fields(2,1)]) (use assms FWritten in simp)
qed (use assms in simp_all)

lemma eff_Announce:
  assumes "exec z (Announce r) s = Some s'"
  obtains w where "s' = s\<lparr>f_word := w\<rparr>" "decode w = (decode (f_word s))\<lparr>c_waiters := True\<rparr>"
  using assms by (auto split: option.splits dest: WaitWhile_ctl(2) intro!: that)

end
