(* ===== verification/Frame_Invariant.thy ===== *)
theory Frame_Invariant
  imports Frame_Effects
begin

text \<open>
  The invariant of \<^verbatim>\<open>Frame_Protocol\<close> is kept by every action, one lemma per action, and
  therefore holds in every reachable state of a frame.
\<close>

section \<open>Consequences of the invariant\<close>

lemma ctl_blocked_upd [simp]:
  "ctl_blocked r (c\<lparr>c_pins := n\<rparr>) = ctl_blocked r c"
  "ctl_blocked r (c\<lparr>c_dirty := b\<rparr>) = ctl_blocked r c"
  "ctl_blocked r (c\<lparr>c_redirtied := b\<rparr>) = ctl_blocked r c"
  "ctl_blocked r (c\<lparr>c_waiters := b\<rparr>) = ctl_blocked r c"
  "ctl_blocked r (c\<lparr>c_state := st\<rparr>) = ctl_blocked r c"
  by (cases r; simp)+

lemmas inv_defs = frame_inv_def owner_inv_def flush_inv_def data_inv_def Let_def

lemma sleep_inv_iff:
  "sleep_inv s \<longleftrightarrow> (\<forall>t r. (t, r) \<in> f_sleepers s \<longrightarrow>
     c_waiters (decode (f_word s)) \<and> ctl_blocked r (decode (f_word s)))"
  by (auto simp: sleep_inv_def blocked_ctl)

text \<open>Threads asleep when no latch is held and no writeback runs wait for a load.\<close>

lemma ctl_blocked_idle:
  "ctl_blocked r c \<Longrightarrow> \<not> c_excl c \<Longrightarrow> c_shared c = 0 \<Longrightarrow> \<not> c_queued c \<Longrightarrow> \<not> c_active c \<Longrightarrow>
     r = WLoad"
  by (cases r) auto

lemma store_woken:
  "sleep_inv s \<Longrightarrow> snd r = c_waiters (decode (f_word s)) \<Longrightarrow> f_sleepers (store r s) = {}"
  by (auto simp: sleep_inv_def)

lemma no_sleepers: "f_sleepers s = {} \<Longrightarrow> sleep_inv s"
  by (simp add: sleep_inv_def)

lemma inv_parts:
  assumes "frame_inv s"
  shows "owner_inv s" "flush_inv s" "data_inv s" "sleep_inv s"
  using assms by (simp_all add: frame_inv_def)

lemma unlatched:
  assumes "frame_inv s" "\<not> c_excl (decode (f_word s))"
  shows "f_excl s = None" "\<not> f_marked s"
  using inv_parts(1,3) [OF assms(1)] assms(2) by (auto simp: owner_inv_def data_inv_def Let_def)

lemma latched_alone:
  assumes "frame_inv s" "f_excl s = Some t"
  shows "f_shared s = {#}"
  using inv_parts(1) [OF assms(1)] assms(2) by (simp add: owner_inv_def Let_def)

lemma not_resident_no_flush:
  assumes "frame_inv s" "c_state (decode (f_word s)) \<noteq> kResident"
  shows "f_flush s = FNone"
  using inv_parts(2) [OF assms(1)] assms(2)
  by (cases "f_flush s") (simp_all add: flush_inv_def Let_def)

lemma loading_no_flush:
  assumes "frame_inv s" "f_loader s = Some l"
  shows "f_flush s = FNone"
proof -
  have "c_state (decode (f_word s)) = kLoading"
    using inv_parts(1) [OF assms(1)] assms(2) by (simp add: owner_inv_def Let_def)
  then show ?thesis by (intro not_resident_no_flush [OF assms(1)]) simp
qed

lemma flush_no_loader: "frame_inv s \<Longrightarrow> f_flush s \<noteq> FNone \<Longrightarrow> f_loader s = None"
  using loading_no_flush by (cases "f_loader s") auto

section \<open>Pins and loads\<close>

lemma inv_Pin:
  assumes "frame_inv s" "exec z (Pin t) s = Some s'"
  shows "frame_inv s'"
  using assms(2)
proof (rule eff_Pin)
  fix w assume e: "s' = s\<lparr>f_word := w, f_pins := add_mset t (f_pins s)\<rparr>"
    "c_state (decode (f_word s)) = kResident"
    "decode w = (decode (f_word s))\<lparr>c_pins := Suc (c_pins (decode (f_word s)))\<rparr>"
  show ?thesis using assms(1) e(2)
    unfolding inv_defs sleep_inv_iff e(1) by (simp add: e(3) split: flush_phase.splits)
qed

lemma inv_DropPin:
  assumes "frame_inv s" "exec z (DropPin t) s = Some s'"
  shows "frame_inv s'"
proof -
  have o: "owner_inv s" using assms(1) by (simp add: frame_inv_def)
  show ?thesis using assms(2) o
  proof (rule eff_DropPin)
    fix w assume e: "s' = s\<lparr>f_word := w, f_pins := f_pins s - {#t#}\<rparr>"
      "t \<in># f_pins s" "f_loader s = None" "f_excl s = Some t \<longrightarrow> 1 < count (f_pins s) t"
      "decode w = (decode (f_word s))\<lparr>c_pins := c_pins (decode (f_word s)) - 1\<rparr>"
    have "u \<in># f_pins s - {#t#}" if "f_excl s = Some u" for u
      using that e(4) o by (cases "u = t") (auto simp: owner_inv_def Let_def in_diff_count)
    then show ?thesis using assms(1) e(3) mem_size [OF e(2)]
      unfolding inv_defs sleep_inv_iff e(1) by (simp add: e(5) split: flush_phase.splits)
  qed
qed

lemma inv_Reserve:
  assumes "frame_inv s" "exec z (Reserve t popped d) s = Some s'"
  shows "frame_inv s'"
  using assms(2)
proof (rule eff_Reserve)
  fix w assume e: "s' = s\<lparr>f_word := w, f_pins := add_mset t (f_pins s),
      f_loader := Some (t, LReserved), f_disk := d, f_zeroed := False\<rparr>"
    "reservable popped (decode (f_word s))"
    "\<not> (c_state (decode (f_word s)) = kResident \<and> c_dirty (decode (f_word s)))"
    "decode w = zero_ctl\<lparr>c_state := kLoading, c_waiters := c_waiters (decode (f_word s)), c_pins := 1\<rparr>"
  have b: "ctl_blocked r (decode w)" if "ctl_blocked r (decode (f_word s))" for r
    using ctl_blocked_idle [OF that] e(2) by (simp add: reservable_def)
  moreover have "c_waiters (decode w) = c_waiters (decode (f_word s))" by (simp add: e(4))
  ultimately have "sleep_inv s'"
    using inv_parts(4) [OF assms(1)] unfolding sleep_inv_iff e(1) by simp
  then show ?thesis using assms(1) e(2)
    unfolding inv_defs e(1) by (simp add: e(4) reservable_def zero_ctl_def split: flush_phase.splits)
qed

lemma inv_ReadPage:
  assumes "frame_inv s" "exec z (ReadPage t) s = Some s'"
  shows "frame_inv s'"
proof -
  have e: "f_loader s = Some (t, LReserved)"
    "s' = s\<lparr>f_content := f_disk s, f_loader := Some (t, LRead)\<rparr>"
    using assms(2) by (simp_all split: if_splits)
  show ?thesis using assms(1) e(1) loading_no_flush [OF assms(1) e(1)]
    unfolding inv_defs sleep_inv_iff e(2) by simp
qed

lemma inv_ReadFailed:
  assumes "frame_inv s" "exec z (ReadFailed t p) s = Some s'"
  shows "frame_inv s'"
proof -
  have e: "f_loader s = Some (t, LReserved)" "s' = s\<lparr>f_content := p\<rparr>"
    using assms(2) by (simp_all split: if_splits)
  show ?thesis using assms(1) e(1) loading_no_flush [OF assms(1) e(1)]
    unfolding inv_defs sleep_inv_iff e(2) by simp
qed

lemma inv_ZeroPage:
  assumes "frame_inv s" "exec z (ZeroPage t) s = Some s'"
  shows "frame_inv s'"
proof -
  have e: "f_loader s = Some (t, LReserved)"
    "s' = s\<lparr>f_content := z, f_loader := Some (t, LZero)\<rparr>"
    using assms(2) by (simp_all split: if_splits)
  show ?thesis using assms(1) e(1) loading_no_flush [OF assms(1) e(1)]
    unfolding inv_defs sleep_inv_iff e(2) by simp
qed

lemma inv_Publish:
  assumes "frame_inv s" "exec z (Publish t release_pin) s = Some s'"
  shows "frame_inv s'"
  using assms(2) inv_parts(1) [OF assms(1)]
proof (rule eff_Publish)
  fix r assume e: "s' = (store r s)\<lparr>f_loader := None,
      f_pins := (if release_pin then f_pins s - {#t#} else f_pins s)\<rparr>"
    "f_loader s = Some (t, LRead)" "snd r = c_waiters (decode (f_word s))"
    "decode (fst r) = (decode (f_word s))\<lparr>c_state := kResident, c_waiters := False,
       c_pins := c_pins (decode (f_word s)) - (if release_pin then 1 else 0)\<rparr>"
  have "sleep_inv s'"
    using store_woken [OF inv_parts(4) [OF assms(1)] e(3)] by (intro no_sleepers) (simp add: e(1))
  then show ?thesis using assms(1) e(2) loading_no_flush [OF assms(1) e(2)]
    unfolding inv_defs e(1) by (simp add: e(4))
qed

lemma inv_PublishZeroed:
  assumes "frame_inv s" "exec z (PublishZeroed t) s = Some s'"
  shows "frame_inv s'"
  using assms(2)
proof (rule eff_PublishZeroed)
  fix r assume e: "s' = (store r s)\<lparr>f_loader := None, f_zeroed := True\<rparr>"
    "f_loader s = Some (t, LZero)" "f_excl s = Some t" "snd r = c_waiters (decode (f_word s))"
    "decode (fst r) = (decode (f_word s))\<lparr>c_state := kResident, c_waiters := False\<rparr>"
  have "sleep_inv s'"
    using store_woken [OF inv_parts(4) [OF assms(1)] e(4)] by (intro no_sleepers) (simp add: e(1))
  then show ?thesis using assms(1) e(2,3) loading_no_flush [OF assms(1) e(2)]
    unfolding inv_defs e(1) by (simp add: e(5))
qed

lemma inv_Abort:
  assumes "frame_inv s" "exec z (Abort t) s = Some s'"
  shows "frame_inv s'"
  using assms(2)
proof (rule eff_Abort)
  fix r assume e: "s' = (store r s)\<lparr>f_loader := None, f_pins := f_pins s - {#t#}\<rparr>"
    "f_loader s = Some (t, LReserved)" "snd r = c_waiters (decode (f_word s))"
    "decode (fst r) =
       zero_ctl\<lparr>c_excl := c_excl (decode (f_word s)), c_shared := c_shared (decode (f_word s))\<rparr>"
  have "sleep_inv s'"
    using store_woken [OF inv_parts(4) [OF assms(1)] e(3)] by (intro no_sleepers) (simp add: e(1))
  then show ?thesis using assms(1) e(2) loading_no_flush [OF assms(1) e(2)]
    unfolding inv_defs e(1) by (simp add: e(4) zero_ctl_def)
qed

lemma inv_Discard:
  assumes "frame_inv s" "exec z (Discard t) s = Some s'"
  shows "frame_inv s'"
  using assms(2)
proof (rule eff_Discard)
  assume e: "s' = (store (0, c_waiters (decode (f_word s))) s)
      \<lparr>f_pins := f_pins s - {#t#}, f_zeroed := False\<rparr>"
    "t \<in># f_pins s" "f_loader s = None" "c_state (decode (f_word s)) = kResident"
    "c_pins (decode (f_word s)) = 1" "\<not> c_excl (decode (f_word s))"
    "c_shared (decode (f_word s)) = 0" "\<not> c_queued (decode (f_word s))"
    "\<not> c_active (decode (f_word s))"
  have "sleep_inv s'"
    using store_woken [OF inv_parts(4) [OF assms(1)], of "(0, c_waiters (decode (f_word s)))"]
    by (intro no_sleepers) (simp add: e(1))
  moreover have "f_pins s - {#t#} = {#}"
    using inv_parts(1) [OF assms(1)] e(2,5) mem_size [OF e(2)]
    by (simp add: owner_inv_def Let_def flip: size_eq_0_iff_empty)
  ultimately show ?thesis using assms(1) e(3-9) unlatched [OF assms(1) e(6)]
    unfolding inv_defs e(1) by (simp add: decode_zero zero_ctl_def split: flush_phase.splits)
qed

section \<open>Latches\<close>

lemma inv_LatchShared:
  assumes "frame_inv s" "exec z (LatchShared t) s = Some s'"
  shows "frame_inv s'"
  using assms(2)
proof (rule eff_LatchShared)
  fix w assume e: "s' = s\<lparr>f_word := w, f_shared := add_mset t (f_shared s)\<rparr>"
    "\<not> c_excl (decode (f_word s))" "c_shared (decode (f_word s)) < 255"
    "decode w = (decode (f_word s))\<lparr>c_shared := Suc (c_shared (decode (f_word s)))\<rparr>"
  have b: "ctl_blocked r (decode w)" if "ctl_blocked r (decode (f_word s))" for r
    using that e(2,3) by (cases r) (simp_all add: e(4))
  have "sleep_inv s'"
    using inv_parts(4) [OF assms(1)] b unfolding sleep_inv_iff e(1) by (simp add: e(4))
  then show ?thesis using assms(1) e(2) unlatched [OF assms(1) e(2)]
    unfolding inv_defs e(1) by (simp add: e(4) split: flush_phase.splits)
qed

lemma inv_UnlatchShared:
  assumes "frame_inv s" "exec z (UnlatchShared t) s = Some s'"
  shows "frame_inv s'"
  using assms(2) inv_parts(1) [OF assms(1)]
proof (rule eff_UnlatchShared)
  fix r assume e: "s' = (store r s)\<lparr>f_shared := f_shared s - {#t#}\<rparr>"
    "t \<in># f_shared s" "f_flush s \<noteq> FQueued t" "0 < c_shared (decode (f_word s))"
    "snd r \<longleftrightarrow> c_waiters (decode (f_word s)) \<and>
       (c_shared (decode (f_word s)) = 1 \<or> c_shared (decode (f_word s)) = 255)"
    "decode (fst r) = (decode (f_word s))\<lparr>c_shared := c_shared (decode (f_word s)) - 1,
       c_waiters := c_waiters (decode (f_word s)) \<and> \<not> snd r\<rparr>"
  have noex: "f_excl s = None" "\<not> c_excl (decode (f_word s))"
    using inv_parts(1) [OF assms(1)] e(2) by (auto simp: owner_inv_def Let_def)
  have "c_shared (decode (f_word s)) < 256" by (rule ctl_bounds)
  then have b: "ctl_blocked q (decode (fst r))"
    if "ctl_blocked q (decode (f_word s))" "c_waiters (decode (f_word s))" "\<not> snd r" for q
    using that e(4,5) noex by (cases q) (simp_all add: e(6))
  have "sleep_inv s'"
    using inv_parts(4) [OF assms(1)] b unfolding sleep_inv_iff e(1) by (simp add: e(6))
  moreover have "u \<in># f_shared s - {#t#}" if "f_flush s = FQueued u" "u \<in># f_shared s" for u
    using that e(3) by (auto simp: in_diff_count)
  ultimately show ?thesis
    using assms(1) noex mem_size [OF e(2)] unlatched [OF assms(1) noex(2)]
    unfolding inv_defs e(1) by (simp add: e(6) split: flush_phase.splits)
qed

lemma inv_LatchExclusive:
  assumes "frame_inv s" "exec z (LatchExclusive t) s = Some s'"
  shows "frame_inv s'"
  using assms(2)
proof (rule eff_LatchExclusive)
  fix w assume e: "s' = s\<lparr>f_word := w, f_excl := Some t, f_marked := False\<rparr>"
    "t \<in># f_pins s" "f_loader s = None \<or> f_loader s = Some (t, LZero)"
    "\<not> c_excl (decode (f_word s))" "c_shared (decode (f_word s)) = 0"
    "decode w = (decode (f_word s))\<lparr>c_excl := True\<rparr>"
  have b: "ctl_blocked r (decode w)" if "ctl_blocked r (decode (f_word s))" for r
    using that by (cases r) (simp_all add: e(6))
  have "sleep_inv s'"
    using inv_parts(4) [OF assms(1)] b unfolding sleep_inv_iff e(1) by (simp add: e(6))
  moreover have "f_shared s = {#}" "\<forall>u ph. f_loader s = Some (u, ph) \<longrightarrow> ph = LZero"
    using inv_parts(1) [OF assms(1)] e(3,5) by (auto simp: owner_inv_def Let_def)
  ultimately show ?thesis using assms(1) e(2-5) unlatched [OF assms(1) e(4)]
    unfolding inv_defs e(1) by (simp add: e(6) split: flush_phase.splits)
qed

lemma inv_UnlatchExclusive:
  assumes "frame_inv s" "exec z (UnlatchExclusive t) s = Some s'"
  shows "frame_inv s'"
  using assms(2)
proof (rule eff_UnlatchExclusive)
  fix r assume e: "s' = (store r s)\<lparr>f_excl := None, f_marked := False\<rparr>"
    "f_excl s = Some t" "f_loader s = None" "f_flush s \<noteq> FQueued t"
    "snd r = c_waiters (decode (f_word s))"
    "decode (fst r) = (decode (f_word s))\<lparr>c_excl := False, c_waiters := False,
       c_redirtied := c_redirtied (decode (f_word s)) \<or> c_queued (decode (f_word s)) \<or>
         c_active (decode (f_word s))\<rparr>"
  have "sleep_inv s'"
    using store_woken [OF inv_parts(4) [OF assms(1)] e(5)] by (intro no_sleepers) (simp add: e(1))
  then show ?thesis using assms(1) e(2-4) latched_alone [OF assms(1) e(2)]
    unfolding inv_defs e(1) by (simp add: e(6) split: flush_phase.splits)
qed

lemma inv_SetDirty:
  assumes "frame_inv s" "exec z (SetDirty t) s = Some s'"
  shows "frame_inv s'"
  using assms(2) inv_parts(1) [OF assms(1)]
proof (rule eff_SetDirty)
  fix w assume e: "s' = s\<lparr>f_word := w, f_marked := True, f_zeroed := False\<rparr>"
    "f_excl s = Some t" "f_loader s = None" "c_state (decode (f_word s)) = kResident"
    "decode w = (decode (f_word s))\<lparr>c_dirty := True,
       c_redirtied := c_redirtied (decode (f_word s)) \<or> c_queued (decode (f_word s)) \<or>
         c_active (decode (f_word s))\<rparr>"
  have "sleep_inv s'"
    using inv_parts(4) [OF assms(1)] unfolding sleep_inv_iff e(1) by (simp add: e(5))
  then show ?thesis using assms(1) e(2-4) latched_alone [OF assms(1) e(2)]
    unfolding inv_defs e(1) by (simp add: e(5) split: flush_phase.splits)
qed

lemma inv_WriteBytes:
  assumes "frame_inv s" "exec z (WriteBytes t p) s = Some s'"
  shows "frame_inv s'"
proof -
  have e: "f_excl s = Some t" "f_marked s" "f_flush s \<noteq> FQueued t" "s' = s\<lparr>f_content := p\<rparr>"
    using assms(2) by (simp_all add: snapping_def split: if_splits)
  have d: "f_loader s = None" "c_dirty (decode (f_word s))"
    using inv_parts(3) [OF assms(1)] e(2)
    by (cases "f_loader s"; simp add: data_inv_def Let_def)+
  moreover have "c_state (decode (f_word s)) = kResident"
    using inv_parts(1) [OF assms(1)] d(2) by (auto simp: owner_inv_def Let_def)
  ultimately show ?thesis using assms(1) e(1-3) latched_alone [OF assms(1) e(1)]
    unfolding inv_defs sleep_inv_iff e(4) by (simp split: flush_phase.splits)
qed

section \<open>Writebacks\<close>

lemma inv_Queue:
  assumes "frame_inv s" "exec z (Queue t skip) s = Some s'"
  shows "frame_inv s'"
  using assms(2)
proof (rule eff_Queue)
  fix w assume e: "s' = s\<lparr>f_word := w, f_flush := FQueued t\<rparr>"
    "t \<in># f_shared s \<or> f_excl s = Some t" "\<not> c_queued (decode (f_word s))"
    "\<not> c_active (decode (f_word s))" "c_state (decode (f_word s)) = kResident"
    "c_dirty (decode (f_word s))"
    "decode w = (decode (f_word s))\<lparr>c_queued := True, c_redirtied := False\<rparr>"
  have b: "ctl_blocked r (decode w)" if "ctl_blocked r (decode (f_word s))" for r
    using that by (cases r) (simp_all add: e(7))
  have "sleep_inv s'"
    using inv_parts(4) [OF assms(1)] b unfolding sleep_inv_iff e(1) by (simp add: e(7))
  then show ?thesis using assms(1) e(2-6)
    unfolding inv_defs e(1) by (simp add: e(7))
qed

lemma inv_Snapshot:
  assumes "frame_inv s" "exec z (Snapshot t) s = Some s'"
  shows "frame_inv s'"
proof -
  have e: "f_flush s = FQueued t" "s' = s\<lparr>f_flush := FSnapped (f_content s)\<rparr>"
    using assms(2) by (simp_all add: snapping_def split: if_splits)
  show ?thesis using assms(1) e(1) flush_no_loader [OF assms(1)]
    unfolding inv_defs sleep_inv_iff e(2) by simp
qed

lemma inv_Cancel:
  assumes "frame_inv s" "exec z Cancel s = Some s'"
  shows "frame_inv s'"
  using assms(2)
proof (rule eff_Cancel)
  fix r x assume e: "s' = (store r s)\<lparr>f_flush := FNone\<rparr>" "f_flush s = FSnapped x"
    "snd r = c_waiters (decode (f_word s))"
    "decode (fst r) = (decode (f_word s))\<lparr>c_queued := False, c_redirtied := False, c_waiters := False\<rparr>"
  have "sleep_inv s'"
    using store_woken [OF inv_parts(4) [OF assms(1)] e(3)] by (intro no_sleepers) (simp add: e(1))
  then show ?thesis using assms(1) e(2) flush_no_loader [OF assms(1)]
    unfolding inv_defs e(1) by (simp add: e(4))
qed

lemma inv_Begin:
  assumes "frame_inv s" "exec z Begin s = Some s'"
  shows "frame_inv s'"
  using assms(2)
proof (rule eff_Begin)
  fix w x assume e: "s' = s\<lparr>f_word := w, f_flush := FActive x\<rparr>" "f_flush s = FSnapped x"
    "decode w = (decode (f_word s))\<lparr>c_queued := False, c_active := True\<rparr>"
  have b: "ctl_blocked r (decode w)" if "ctl_blocked r (decode (f_word s))" for r
    using that by (cases r) (simp_all add: e(3))
  have "sleep_inv s'"
    using inv_parts(4) [OF assms(1)] b unfolding sleep_inv_iff e(1) by (simp add: e(3))
  then show ?thesis using assms(1) e(2) flush_no_loader [OF assms(1)]
    unfolding inv_defs e(1) by (simp add: e(3))
qed

lemma inv_WriteDone:
  assumes "frame_inv s" "exec z WriteDone s = Some s'"
  shows "frame_inv s'"
proof -
  obtain x where e: "f_flush s = FActive x" "s' = s\<lparr>f_disk := x, f_flush := FWritten True x\<rparr>"
    using assms(2) by (auto split: flush_phase.splits)
  show ?thesis using assms(1) e(1) flush_no_loader [OF assms(1)]
    unfolding inv_defs sleep_inv_iff e(2) by simp
qed

lemma inv_WriteFailed:
  assumes "frame_inv s" "exec z (WriteFailed d) s = Some s'"
  shows "frame_inv s'"
proof -
  obtain x where e: "f_flush s = FActive x" "s' = s\<lparr>f_disk := d, f_flush := FWritten False x\<rparr>"
    using assms(2) by (auto split: flush_phase.splits)
  show ?thesis using assms(1) e(1) flush_no_loader [OF assms(1)]
    unfolding inv_defs sleep_inv_iff e(2) by simp
qed

lemma inv_Complete:
  assumes "frame_inv s" "exec z Complete s = Some s'"
  shows "frame_inv s'"
  using assms(2)
proof (rule eff_Complete)
  fix r ok x assume e: "s' = (store r s)\<lparr>f_flush := FNone\<rparr>" "f_flush s = FWritten ok x"
    "snd r = c_waiters (decode (f_word s))"
    "decode (fst r) = (decode (f_word s))\<lparr>
       c_dirty := c_dirty (decode (f_word s)) \<and> \<not> (ok \<and> c_state (decode (f_word s)) = kResident \<and>
         c_dirty (decode (f_word s)) \<and> \<not> c_redirtied (decode (f_word s)) \<and>
         \<not> c_excl (decode (f_word s))),
       c_queued := False, c_active := False, c_redirtied := False, c_waiters := False\<rparr>"
  have "sleep_inv s'"
    using store_woken [OF inv_parts(4) [OF assms(1)] e(3)] by (intro no_sleepers) (simp add: e(1))
  then show ?thesis using assms(1) e(2) flush_no_loader [OF assms(1)]
    unfolding inv_defs e(1) by (simp add: e(4))
qed

section \<open>Waits\<close>

lemma inv_Announce:
  assumes "frame_inv s" "exec z (Announce r) s = Some s'"
  shows "frame_inv s'"
  using assms(2)
proof (rule eff_Announce)
  fix w assume e: "s' = s\<lparr>f_word := w\<rparr>" "decode w = (decode (f_word s))\<lparr>c_waiters := True\<rparr>"
  have "sleep_inv s'"
    using inv_parts(4) [OF assms(1)] unfolding sleep_inv_iff e(1) by (simp add: e(2))
  then show ?thesis using assms(1)
    unfolding inv_defs e(1) by (simp add: e(2) split: flush_phase.splits)
qed

lemma inv_Sleep:
  assumes "frame_inv s" "exec z (Sleep t r) s = Some s'"
  shows "frame_inv s'"
proof -
  have e: "WaitWhile (blocked r) (f_word s) = Some (f_word s)"
    "s' = s\<lparr>f_sleepers := insert (t, r) (f_sleepers s)\<rparr>"
    using assms(2) by (simp_all split: if_splits)
  have "sleep_inv s'"
    using inv_parts(4) [OF assms(1)] WaitWhile_ctl(1) [OF e(1)] WaitWhile_same [OF e(1)]
    unfolding sleep_inv_def e(2) by simp
  then show ?thesis using assms(1) unfolding inv_defs e(2) by (simp split: flush_phase.splits)
qed

lemma inv_Wake:
  assumes "frame_inv s" "exec z (Wake t r) s = Some s'"
  shows "frame_inv s'"
proof -
  have e: "s' = s\<lparr>f_sleepers := f_sleepers s - {(t, r)}\<rparr>" using assms(2) by simp
  have "sleep_inv s'" using inv_parts(4) [OF assms(1)] unfolding sleep_inv_def e by auto
  then show ?thesis using assms(1) unfolding inv_defs e by (simp split: flush_phase.splits)
qed

section \<open>Reachable states\<close>

lemmas inv_actions = inv_Pin inv_DropPin inv_Reserve inv_ReadPage inv_ReadFailed inv_ZeroPage
  inv_Publish inv_PublishZeroed inv_Abort inv_Discard inv_LatchShared inv_UnlatchShared
  inv_LatchExclusive inv_UnlatchExclusive inv_SetDirty inv_WriteBytes inv_Queue inv_Snapshot
  inv_Cancel inv_Begin inv_WriteDone inv_WriteFailed inv_Complete inv_Announce inv_Sleep inv_Wake

lemma inv_exec: "frame_inv s \<Longrightarrow> exec z a s = Some s' \<Longrightarrow> frame_inv s'"
  by (cases a; simp only:; erule (1) inv_actions)

lemma inv_start: "frame_inv (free_frame p d)"
  by (simp add: inv_defs sleep_inv_def free_frame_def decode_zero zero_ctl_def)

lemma reachable_inv: "reachable z s \<Longrightarrow> frame_inv s"
  by (induction rule: reachable.induct) (auto intro: inv_start inv_exec)

end
