(* ===== verification/Frame_Properties.thy ===== *)
theory Frame_Properties
  imports Frame_Invariant
begin

text \<open>
  The properties of a frame under concurrent use, read off the invariant and stated over
  the operations of \<^verbatim>\<open>Frame_Control\<close>, each with a run of the protocol on which it is
  applied.
\<close>

section \<open>Runs\<close>

text \<open>
  A thread loads page 5, rewrites it to 9, and lets go of it; a flusher writes it back.
\<close>

definition flush_run :: "nat act list" where
  "flush_run = [Reserve 0 True 5, ReadPage 0, Publish 0 False, LatchExclusive 0, SetDirty 0,
     WriteBytes 0 9, UnlatchExclusive 0, DropPin 0, LatchShared 1, Queue 1 False, Snapshot 1,
     UnlatchShared 1, Begin, WriteDone, Complete]"

text \<open>Two readers hold the page while a third thread sleeps until it may write.\<close>

definition wait_run :: "nat act list" where
  "wait_run = [Reserve 0 True 5, ReadPage 0, Publish 0 False, LatchShared 0, Pin 1, LatchShared 1,
     Pin 2, Announce WLatch, Sleep 2 WLatch]"

definition after_run :: "nat act list \<Rightarrow> nat frame" where
  "after_run as = the (exec_all 0 as (free_frame 0 5))"

lemma after_run_reachable:
  "exec_all 0 as (free_frame 0 5) \<noteq> None \<Longrightarrow> reachable 0 (after_run as)"
  unfolding after_run_def by (auto intro: exec_all_reachable reachable.start)

lemma runs_complete:
  "exec_all 0 flush_run (free_frame 0 5) \<noteq> None" "exec_all 0 wait_run (free_frame 0 5) \<noteq> None"
  by code_simp+

lemma runs_reachable: "reachable 0 (after_run flush_run)" "reachable 0 (after_run wait_run)"
  by (rule after_run_reachable, rule runs_complete)+

section \<open>Eviction\<close>



section \<open>Waiting\<close>



section \<open>Ownership\<close>

text \<open>
  C3: the content latch excludes.  The shared count of the word is the number of shared
  holders, the exclusive bit says whether there is an exclusive holder, and an exclusive
  holder never coexists with a shared one.
\<close>

theorem latch_exclusion:
  assumes "reachable z s"
  shows "unat (SharedHolders (f_word s)) = size (f_shared s) \<and>
    (f_word s AND kExclusive \<noteq> 0 \<longleftrightarrow> f_excl s \<noteq> None) \<and>
    (f_excl s = None \<or> f_shared s = {#})"
  using inv_parts(1) [OF reachable_inv [OF assms]]
  by (auto simp: owner_inv_def Let_def decode_def)

theorem latch_exclusion_witness:
  "unat (SharedHolders (f_word (after_run wait_run))) = size (f_shared (after_run wait_run)) \<and>
   size (f_shared (after_run wait_run)) = 2"
proof -
  have "size (f_shared (after_run wait_run)) = 2" by code_simp
  with latch_exclusion [OF runs_reachable(2)] show ?thesis by blast
qed

text \<open>
  C4: a pinned frame stays.  The pin count of the word is the number of pins held, and
  while any thread holds one, \<open>TryReserve\<close> does not claim the frame.
\<close>

theorem pinned_not_reserved:
  assumes "reachable z s" and "t \<in># f_pins s"
  shows "unat (Pins (f_word s)) = size (f_pins s) \<and>
    fst (TryReserve popped (f_word s)) \<noteq> kReserved"
proof -
  have "c_pins (decode (f_word s)) = size (f_pins s)"
    using inv_parts(1) [OF reachable_inv [OF assms(1)]] by (simp add: owner_inv_def Let_def)
  moreover from this assms(2) have "\<not> reservable popped (decode (f_word s))"
    by (auto simp: reservable_def)
  ultimately show ?thesis by (simp add: TryReserve_fields(1)) (simp add: decode_def)
qed

theorem pinned_not_reserved_witness:
  "unat (Pins (f_word (after_run wait_run))) = size (f_pins (after_run wait_run)) \<and>
   fst (TryReserve True (f_word (after_run wait_run))) \<noteq> kReserved"
proof -
  have "2 \<in># f_pins (after_run wait_run)" by code_simp
  with pinned_not_reserved [OF runs_reachable(2)] show ?thesis by blast
qed

text \<open>
  C5: a reader sees one version of the page.  As long as a thread holds the shared latch of
  a resident frame, no action of any thread changes its bytes or takes the page away.
\<close>

theorem reader_sees_stable_page:
  assumes "reachable z s" and "t \<in># f_shared s"
    and "IsResident (f_word s)" and "exec z a s = Some s'"
  shows "f_content s' = f_content s \<and> IsResident (f_word s')"
proof -
  have inv: "frame_inv s" by (rule reachable_inv) (rule assms)
  have r: "c_state (decode (f_word s)) = kResident" using assms(3) by (simp add: fc_simps)
  have l: "f_loader s = None"
    using inv_parts(1) [OF inv] r by (cases "f_loader s") (auto simp: owner_inv_def Let_def)
  have x: "f_excl s = None"
    using inv_parts(1) [OF inv] assms(2) by (cases "f_excl s") (auto simp: owner_inv_def Let_def)
  have sh: "c_shared (decode (f_word s)) \<noteq> 0"
    using inv_parts(1) [OF inv] assms(2) by (auto simp: owner_inv_def Let_def)
  show ?thesis
  proof (cases a)
    case (Pin u)
    show ?thesis by (rule eff_Pin [OF assms(4) [unfolded Pin]]) (simp_all add: r ctl_tests(2))
  next
    case (DropPin u)
    show ?thesis by (rule eff_DropPin [OF assms(4) [unfolded DropPin] inv_parts(1) [OF inv]]) (simp_all add: r ctl_tests(2))
  next
    case (Reserve u popped d)
    show ?thesis by (rule eff_Reserve [OF assms(4) [unfolded Reserve]]) (use sh in \<open>simp_all add: reservable_def\<close>)
  next
    case (Discard u)
    show ?thesis by (rule eff_Discard [OF assms(4) [unfolded Discard]]) (use sh in simp_all)
  next
    case (LatchShared u)
    show ?thesis by (rule eff_LatchShared [OF assms(4) [unfolded LatchShared]]) (simp_all add: r ctl_tests(2))
  next
    case (UnlatchShared u)
    show ?thesis by (rule eff_UnlatchShared [OF assms(4) [unfolded UnlatchShared] inv_parts(1) [OF inv]]) (simp_all add: r ctl_tests(2))
  next
    case (LatchExclusive u)
    show ?thesis by (rule eff_LatchExclusive [OF assms(4) [unfolded LatchExclusive]]) (simp_all add: r ctl_tests(2))
  next
    case (Queue u skip)
    show ?thesis by (rule eff_Queue [OF assms(4) [unfolded Queue]]) (simp_all add: r ctl_tests(2))
  next
    case Cancel
    show ?thesis by (rule eff_Cancel [OF assms(4) [unfolded Cancel]]) (simp_all add: r ctl_tests(2))
  next
    case Begin
    show ?thesis by (rule eff_Begin [OF assms(4) [unfolded Begin]]) (simp_all add: r ctl_tests(2))
  next
    case Complete
    show ?thesis by (rule eff_Complete [OF assms(4) [unfolded Complete]]) (simp_all add: r ctl_tests(2))
  next
    case (Announce q)
    show ?thesis by (rule eff_Announce [OF assms(4) [unfolded Announce]]) (simp_all add: r ctl_tests(2))
  qed (use assms(4) r l x in \<open>auto simp: ctl_tests(2) split: if_splits flush_phase.splits\<close>)
qed

theorem reader_sees_stable_page_witness:
  "f_content (the (exec 0 (UnlatchShared 1) (after_run wait_run))) = f_content (after_run wait_run) \<and>
   IsResident (f_word (the (exec 0 (UnlatchShared 1) (after_run wait_run))))"
proof -
  have "0 \<in># f_shared (after_run wait_run)" "IsResident (f_word (after_run wait_run))"
    and e: "exec 0 (UnlatchShared 1) (after_run wait_run) \<noteq> None"
    by code_simp+
  moreover from e obtain s' where "exec 0 (UnlatchShared 1) (after_run wait_run) = Some s'" by blast
  ultimately show ?thesis
    using reader_sees_stable_page [OF runs_reachable(2), of 0 "UnlatchShared 1" s']
    by (simp del: exec.simps)
qed

section \<open>Writeback errors\<close>

text \<open>
  C6: a failed writeback reports what went wrong.  The packed form that a waiting thread
  reads gives back the error code and the system error, up to the 24 bits kept for it; the
  message is the fixed one for writebacks.
\<close>

theorem writeback_error_round_trip:
  assumes "listed (err_code e)" and "err_system_error e < 2 ^ 31"
  shows "UnpackWritebackError (PackWritebackError (Inl e)) =
    Inl \<lparr>err_code = err_code e, err_message = ''writeback failed'',
         err_system_error = min (max (err_system_error e) 0) 0xFFFFFF\<rparr>"
  by (rule unpack_pack) (rule assms)+

theorem writeback_error_round_trip_witness:
  "UnpackWritebackError (PackWritebackError (Inl (IoError ''write'' 5))) =
    Inl \<lparr>err_code = kIoError, err_message = ''writeback failed'', err_system_error = 5\<rparr>"
  using writeback_error_round_trip [of "IoError ''write'' 5"]
  by (simp add: listed_def error_builders)

end
