(* ===== verification/Free_List.thy ===== *)
theory Free_List
  imports Prelude
begin

unbundle bit_operations_syntax

text \<open>
  \<^verbatim>\<open>buffer/frame_free_list.h\<close>: the lock-free stack of free frames.  The head is a 64-bit
  word with the index of the top frame in its low half and a version in its high half; the
  links are frame indices.  The operations are given first as a single thread runs them,
  then step by step, each atomic access an action, with any number of threads inside
  \<open>Push\<close> and \<open>Pop\<close> at once.  The version keeps a pop that was overtaken from installing a
  stale link, as long as fewer than \<open>2 ^ 32\<close> operations overtake it.
\<close>

section \<open>The head word\<close>

definition fl_kNone :: u32 where
  "fl_kNone = - 1"

definition fl_Pack :: "u32 \<Rightarrow> u32 \<Rightarrow> u64" where
  "fl_Pack index version = push_bit 32 (ucast version) OR ucast index"

definition fl_Index :: "u64 \<Rightarrow> u32" where
  "fl_Index head = ucast head"

definition fl_Version :: "u64 \<Rightarrow> u32" where
  "fl_Version head = ucast (drop_bit 32 head)"

section \<open>The list, one thread\<close>

record FrameFreeList =
  fl_head :: u64
  fl_next :: "FrameId \<Rightarrow> u32"

definition fl_empty :: FrameFreeList where
  "fl_empty = \<lparr>fl_head = fl_Pack fl_kNone 0, fl_next = (\<lambda>_. fl_kNone)\<rparr>"

definition fl_Push :: "FrameId \<Rightarrow> FrameFreeList \<Rightarrow> FrameFreeList" where
  "fl_Push frame_id l =
     l\<lparr>fl_next := (fl_next l)(frame_id := fl_Index (fl_head l)),
       fl_head := fl_Pack frame_id (fl_Version (fl_head l) + 1)\<rparr>"

definition fl_Pop :: "FrameFreeList \<Rightarrow> FrameId option \<times> FrameFreeList" where
  "fl_Pop l =
     (if fl_Index (fl_head l) = fl_kNone then (None, l)
      else (Some (fl_Index (fl_head l)),
            l\<lparr>fl_head := fl_Pack (fl_next l (fl_Index (fl_head l))) (fl_Version (fl_head l) + 1)\<rparr>))"

text \<open>The frames on the list, top first.\<close>

definition fl_list :: "FrameFreeList \<Rightarrow> FrameId list \<Rightarrow> bool" where
  "fl_list l xs \<longleftrightarrow> chain (fl_next l) fl_kNone (fl_Index (fl_head l)) xs"

section \<open>Many threads\<close>

text \<open>
  Where a thread is inside \<open>Push\<close> or \<open>Pop\<close>, with the head it loaded.
\<close>

datatype fl_phase =
    FlIdle
  | FlPushLoaded FrameId u64
  | FlPushLinked FrameId u64
  | FlPopLoaded u64
  | FlPopRead u64 u32

text \<open>
  Besides the list: the phase of every thread, what its last finished \<open>Pop\<close> returned, how
  many operations had finished when it loaded the head, how many have finished by now, and
  the stack that the finished operations describe.
\<close>

record fl_state =
  fs_list :: FrameFreeList
  fs_phase :: "nat \<Rightarrow> fl_phase"
  fs_result :: "nat \<Rightarrow> FrameId option"
  fs_stamp :: "nat \<Rightarrow> nat"
  fs_ops :: nat
  fs_stack :: "FrameId list"

definition fs_init :: fl_state where
  "fs_init = \<lparr>fs_list = fl_empty, fs_phase = (\<lambda>_. FlIdle), fs_result = (\<lambda>_. None),
     fs_stamp = (\<lambda>_. 0), fs_ops = 0, fs_stack = []\<rparr>"

datatype fl_act =
    FlStartPush nat FrameId
  | FlLink nat
  | FlCasPush nat bool
  | FlStartPop nat
  | FlReadNext nat
  | FlCasPop nat bool

text \<open>The frame a thread is about to push belongs to that thread alone.\<close>

definition fs_pushes :: "fl_state \<Rightarrow> nat \<Rightarrow> FrameId \<Rightarrow> bool" where
  "fs_pushes s t f \<longleftrightarrow> (\<exists>h. fs_phase s t = FlPushLoaded f h \<or> fs_phase s t = FlPushLinked f h)"

definition fs_may_push :: "fl_state \<Rightarrow> FrameId \<Rightarrow> bool" where
  "fs_may_push s f \<longleftrightarrow> f \<noteq> fl_kNone \<and> f \<notin> set (fs_stack s) \<and> (\<forall>t. \<not> fs_pushes s t f)"

text \<open>Loading the head anew, at the start of a \<open>Pop\<close> and after a failed exchange.\<close>

definition fs_load_pop :: "nat \<Rightarrow> fl_state \<Rightarrow> fl_state" where
  "fs_load_pop t s =
     (let h = fl_head (fs_list s)
      in if fl_Index h = fl_kNone
         then s\<lparr>fs_phase := (fs_phase s)(t := FlIdle), fs_result := (fs_result s)(t := None)\<rparr>
         else s\<lparr>fs_phase := (fs_phase s)(t := FlPopLoaded h), fs_stamp := (fs_stamp s)(t := fs_ops s)\<rparr>)"

text \<open>
  The flag of the two exchanges says that a weak exchange failed although the head was
  unchanged.
\<close>

inductive fl_step :: "fl_act \<Rightarrow> fl_state \<Rightarrow> fl_state \<Rightarrow> bool" where
  start_push: "fs_phase s t = FlIdle \<Longrightarrow> fs_may_push s f \<Longrightarrow>
    fl_step (FlStartPush t f) s
      (s\<lparr>fs_phase := (fs_phase s)(t := FlPushLoaded f (fl_head (fs_list s)))\<rparr>)"
| link: "fs_phase s t = FlPushLoaded f h \<Longrightarrow>
    fl_step (FlLink t) s
      (s\<lparr>fs_list := (fs_list s)\<lparr>fl_next := (fl_next (fs_list s))(f := fl_Index h)\<rparr>,
         fs_phase := (fs_phase s)(t := FlPushLinked f h)\<rparr>)"
| push_ok: "fs_phase s t = FlPushLinked f h \<Longrightarrow> fl_head (fs_list s) = h \<Longrightarrow>
    fl_step (FlCasPush t False) s
      (s\<lparr>fs_list := (fs_list s)\<lparr>fl_head := fl_Pack f (fl_Version h + 1)\<rparr>,
         fs_phase := (fs_phase s)(t := FlIdle), fs_ops := Suc (fs_ops s),
         fs_stack := f # fs_stack s\<rparr>)"
| push_retry: "fs_phase s t = FlPushLinked f h \<Longrightarrow> spurious \<or> fl_head (fs_list s) \<noteq> h \<Longrightarrow>
    fl_step (FlCasPush t spurious) s
      (s\<lparr>fs_phase := (fs_phase s)(t := FlPushLoaded f (fl_head (fs_list s)))\<rparr>)"
| start_pop: "fs_phase s t = FlIdle \<Longrightarrow> fl_step (FlStartPop t) s (fs_load_pop t s)"
| read_next: "fs_phase s t = FlPopLoaded h \<Longrightarrow>
    fl_step (FlReadNext t) s
      (s\<lparr>fs_phase := (fs_phase s)(t := FlPopRead h (fl_next (fs_list s) (fl_Index h)))\<rparr>)"
| pop_ok: "fs_phase s t = FlPopRead h n \<Longrightarrow> fl_head (fs_list s) = h \<Longrightarrow>
    fl_step (FlCasPop t False) s
      (s\<lparr>fs_list := (fs_list s)\<lparr>fl_head := fl_Pack n (fl_Version h + 1)\<rparr>,
         fs_phase := (fs_phase s)(t := FlIdle),
         fs_result := (fs_result s)(t := Some (fl_Index h)), fs_ops := Suc (fs_ops s),
         fs_stack := tl (fs_stack s)\<rparr>)"
| pop_retry: "fs_phase s t = FlPopRead h n \<Longrightarrow> spurious \<or> fl_head (fs_list s) \<noteq> h \<Longrightarrow>
    fl_step (FlCasPop t spurious) s (fs_load_pop t s)"

text \<open>No thread is overtaken by \<open>2 ^ 32\<close> finished operations between load and exchange.\<close>

definition fs_timely :: "fl_state \<Rightarrow> bool" where
  "fs_timely s \<longleftrightarrow> (\<forall>t. fs_ops s < fs_stamp s t + 2 ^ 32 \<or> fs_phase s t = FlIdle)"

inductive fl_reachable :: "fl_state \<Rightarrow> bool" where
  fl_start: "fl_reachable fs_init"
| fl_next: "fl_reachable s \<Longrightarrow> fs_timely s \<Longrightarrow> fl_step a s s' \<Longrightarrow> fl_reachable s'"

section \<open>Correctness\<close>

lemma fl_Index_Pack [simp]: "fl_Index (fl_Pack i v) = i"
  unfolding fl_Index_def fl_Pack_def by (rule bit_word_eqI) (auto simp: bit_simps)

lemma fl_Version_Pack [simp]: "fl_Version (fl_Pack i v) = v"
  unfolding fl_Version_def fl_Pack_def
  by (rule bit_word_eqI) (auto simp: bit_simps dest: bit_imp_le_length)

lemma fl_list_unique: "fl_list l xs \<Longrightarrow> fl_list l ys \<Longrightarrow> xs = ys"
  unfolding fl_list_def by (rule chain_unique)

lemma fl_list_empty: "fl_list fl_empty []"
  by (simp add: fl_list_def fl_empty_def)

lemma fl_list_Push:
  "fl_list l xs \<Longrightarrow> f \<notin> set xs \<Longrightarrow> f \<noteq> fl_kNone \<Longrightarrow> fl_list (fl_Push f l) (f # xs)"
  by (simp add: fl_list_def fl_Push_def)

lemma fl_list_Pop:
  "fl_list l xs \<Longrightarrow>
     (case xs of [] \<Rightarrow> fl_Pop l = (None, l)
      | x # ys \<Rightarrow> fst (fl_Pop l) = Some x \<and> fl_list (snd (fl_Pop l)) ys)"
  by (cases xs) (auto simp: fl_list_def fl_Pop_def)

subsection \<open>The invariant of interleaved operations\<close>

text \<open>A head word loaded by a pop that no operation has overtaken is the current one.\<close>

definition fs_pop_ok :: "fl_state \<Rightarrow> nat \<Rightarrow> u64 \<Rightarrow> bool" where
  "fs_pop_ok s t h \<longleftrightarrow> fs_stamp s t \<le> fs_ops s \<and> fl_Version h = word_of_nat (fs_stamp s t) \<and>
     fl_Index h \<noteq> fl_kNone \<and> (fs_stamp s t = fs_ops s \<longrightarrow> h = fl_head (fs_list s))"

definition fs_inv :: "fl_state \<Rightarrow> bool" where
  "fs_inv s \<longleftrightarrow> fl_list (fs_list s) (fs_stack s) \<and>
     fl_Version (fl_head (fs_list s)) = word_of_nat (fs_ops s) \<and>
     (\<forall>t f. fs_pushes s t f \<longrightarrow> f \<notin> set (fs_stack s) \<and> f \<noteq> fl_kNone) \<and>
     (\<forall>t u f. fs_pushes s t f \<longrightarrow> fs_pushes s u f \<longrightarrow> t = u) \<and>
     (\<forall>t f h. fs_phase s t = FlPushLinked f h \<longrightarrow> fl_next (fs_list s) f = fl_Index h) \<and>
     (\<forall>t h. fs_phase s t = FlPopLoaded h \<longrightarrow> fs_pop_ok s t h) \<and>
     (\<forall>t h n. fs_phase s t = FlPopRead h n \<longrightarrow> fs_pop_ok s t h \<and>
        (fs_stamp s t = fs_ops s \<longrightarrow> n = fl_next (fs_list s) (fl_Index h)))"

lemma fs_inv_init: "fs_inv fs_init"
  by (simp add: fs_inv_def fs_init_def fs_pushes_def fl_list_empty) (simp add: fl_empty_def)

lemma fs_top: "fs_inv s \<Longrightarrow> fl_Index (fl_head (fs_list s)) \<noteq> fl_kNone \<Longrightarrow>
   \<exists>ys. fs_stack s = fl_Index (fl_head (fs_list s)) # ys"
  unfolding fs_inv_def fl_list_def by (cases "fs_stack s") auto

text \<open>A successful exchange of a pop was not overtaken.\<close>

lemma fs_pop_current:
  assumes "fs_inv s" "fs_timely s" "fs_phase s t = FlPopRead h n" "fl_head (fs_list s) = h"
  shows "fs_stamp s t = fs_ops s" "n = fl_next (fs_list s) (fl_Index h)" "fl_Index h \<noteq> fl_kNone"
proof -
  have ok: "fs_pop_ok s t h" using assms(1,3) by (auto simp: fs_inv_def)
  have "fs_ops s < fs_stamp s t + 2 ^ 32" using assms(2,3) by (auto simp: fs_timely_def dest: spec [of _ t])
  moreover have le: "fs_stamp s t \<le> fs_ops s" using ok by (simp add: fs_pop_ok_def)
  ultimately have small: "fs_ops s - fs_stamp s t < 2 ^ 32"
    using less_diff_conv2 [OF le, of "2 ^ 32"] by (simp add: add.commute)
  have "(word_of_nat (fs_stamp s t) :: u32) = word_of_nat (fs_ops s)"
    using ok assms(1,4) by (simp add: fs_pop_ok_def fs_inv_def)
  then have "fs_ops s mod 2 ^ 32 = fs_stamp s t mod 2 ^ 32"
    by (simp add: word_of_nat_eq_iff take_bit_eq_mod)
  then have "2 ^ 32 dvd fs_ops s - fs_stamp s t" using mod_eq_dvd_iff_nat [OF le] by blast
  then have "fs_ops s - fs_stamp s t = 0"
    using small nat_dvd_not_less [of "fs_ops s - fs_stamp s t" "2 ^ 32"] by blast
  then show eq: "fs_stamp s t = fs_ops s" using le by simp
  show "n = fl_next (fs_list s) (fl_Index h)" using eq assms(1,3) by (auto simp: fs_inv_def)
  show "fl_Index h \<noteq> fl_kNone" using ok by (simp add: fs_pop_ok_def)
qed

lemma fs_inv_load_pop:
  assumes "fs_inv s" "\<forall>f. \<not> fs_pushes s t f"
  shows "fs_inv (fs_load_pop t s)"
proof (cases "fl_Index (fl_head (fs_list s)) = fl_kNone")
  case True
  then show ?thesis using assms
    unfolding fs_inv_def fs_load_pop_def fs_pop_ok_def fs_pushes_def Let_def by simp
next
  case False
  then show ?thesis using assms
    unfolding fs_inv_def fs_load_pop_def fs_pop_ok_def fs_pushes_def Let_def by simp
qed

lemma fs_invD:
  assumes "fs_inv s"
  shows "fl_list (fs_list s) (fs_stack s)" "fl_Version (fl_head (fs_list s)) = word_of_nat (fs_ops s)"
    "fs_pushes s t f \<Longrightarrow> f \<notin> set (fs_stack s) \<and> f \<noteq> fl_kNone"
    "fs_pushes s t f \<Longrightarrow> fs_pushes s u f \<Longrightarrow> t = u"
    "fs_phase s t = FlPushLinked f h \<Longrightarrow> fl_next (fs_list s) f = fl_Index h"
    "fs_phase s t = FlPopLoaded h \<Longrightarrow> fs_pop_ok s t h"
    "fs_phase s t = FlPopRead h n \<Longrightarrow> fs_pop_ok s t h"
    "fs_phase s t = FlPopRead h n \<Longrightarrow> fs_stamp s t = fs_ops s \<Longrightarrow> n = fl_next (fs_list s) (fl_Index h)"
  using assms unfolding fs_inv_def by blast+

lemma fs_pushesI [simp]:
  "fs_phase s t = FlPushLoaded f h \<Longrightarrow> fs_pushes s t f"
  "fs_phase s t = FlPushLinked f h \<Longrightarrow> fs_pushes s t f"
  by (auto simp: fs_pushes_def)

lemma fs_inv_push_load:
  assumes inv: "fs_inv s" and f: "f \<notin> set (fs_stack s)" "f \<noteq> fl_kNone" "\<And>u. fs_pushes s u f \<Longrightarrow> u = t"
  shows "fs_inv (s\<lparr>fs_phase := (fs_phase s)(t := FlPushLoaded f h)\<rparr>)" (is "fs_inv ?s")
proof -
  have p: "fs_pushes ?s u g \<longleftrightarrow> (if u = t then g = f else fs_pushes s u g)" for u g
    by (auto simp: fs_pushes_def)
  have ok: "fs_pop_ok ?s u k \<longleftrightarrow> fs_pop_ok s u k" for u k by (simp add: fs_pop_ok_def)
  note d = fs_invD [OF inv]
  show ?thesis unfolding fs_inv_def p ok
    using d(1,2) f d(3) d(4) d(5) d(6) d(7) d(8) by (auto split: if_splits)
qed

lemma fs_inv_link:
  assumes inv: "fs_inv s" and ph: "fs_phase s t = FlPushLoaded f h"
  shows "fs_inv (s\<lparr>fs_list := (fs_list s)\<lparr>fl_next := (fl_next (fs_list s))(f := fl_Index h)\<rparr>,
           fs_phase := (fs_phase s)(t := FlPushLinked f h)\<rparr>)" (is "fs_inv ?s")
proof -
  note d = fs_invD [OF inv]
  have mine: "fs_pushes s t f" using ph by simp
  have p: "fs_pushes ?s u g \<longleftrightarrow> fs_pushes s u g" for u g using ph by (auto simp: fs_pushes_def)
  have ok: "fs_pop_ok ?s u k \<longleftrightarrow> fs_pop_ok s u k" for u k by (simp add: fs_pop_ok_def)
  have other: "g \<noteq> f" if "fs_phase s u = FlPushLinked g k" for u g k
    using that ph d(4) [OF mine, of u] by auto
  have top: "fl_Index k \<noteq> f" if "fs_phase s u = FlPopRead k n" "fs_stamp s u = fs_ops s" for u k n
    using d(7) [OF that(1)] that(2) fs_top [OF inv] d(3) [OF mine] by (auto simp: fs_pop_ok_def)
  have list: "fl_list (fs_list ?s) (fs_stack s)"
    using d(1) d(3) [OF mine] by (simp add: fl_list_def chain_frame)
  show ?thesis unfolding fs_inv_def p ok
    using list d(2) d(3) d(4) d(5) d(6) d(7) d(8) other top by (auto split: if_splits)
qed

lemma fs_inv_push_ok:
  assumes inv: "fs_inv s" and ph: "fs_phase s t = FlPushLinked f h" and cur: "fl_head (fs_list s) = h"
  shows "fs_inv (s\<lparr>fs_list := (fs_list s)\<lparr>fl_head := fl_Pack f (fl_Version h + 1)\<rparr>,
           fs_phase := (fs_phase s)(t := FlIdle), fs_ops := Suc (fs_ops s),
           fs_stack := f # fs_stack s\<rparr>)" (is "fs_inv ?s")
proof -
  note d = fs_invD [OF inv]
  have mine: "fs_pushes s t f" using ph by simp
  have p: "fs_pushes ?s u g \<longleftrightarrow> u \<noteq> t \<and> fs_pushes s u g" for u g by (auto simp: fs_pushes_def)
  have ok: "fs_pop_ok s u k \<Longrightarrow> fs_pop_ok ?s u k" for u k by (auto simp: fs_pop_ok_def)
  have late: "fs_stamp s u \<noteq> Suc (fs_ops s)" if "fs_phase s u = FlPopRead k n" for u k n
    using d(7) [OF that] by (simp add: fs_pop_ok_def)
  have list: "fl_list (fs_list ?s) (f # fs_stack s)"
    using d(1) d(3) [OF mine] d(5) [OF ph] cur by (simp add: fl_list_def)
  show ?thesis unfolding fs_inv_def p
    using list d(2) cur d(3) d(4) mine d(5) d(6) [THEN ok] d(7) [THEN ok] late
    by (auto simp: add.commute split: if_splits)
qed

lemma fs_inv_pop_ok:
  assumes inv: "fs_inv s" and time: "fs_timely s"
    and ph: "fs_phase s t = FlPopRead h n" and cur: "fl_head (fs_list s) = h"
  shows "fs_inv (s\<lparr>fs_list := (fs_list s)\<lparr>fl_head := fl_Pack n (fl_Version h + 1)\<rparr>,
           fs_phase := (fs_phase s)(t := FlIdle), fs_result := (fs_result s)(t := Some (fl_Index h)),
           fs_ops := Suc (fs_ops s), fs_stack := tl (fs_stack s)\<rparr>)" (is "fs_inv ?s")
proof -
  note d = fs_invD [OF inv] and c = fs_pop_current [OF inv time ph cur]
  obtain ys where ys: "fs_stack s = fl_Index h # ys" using fs_top [OF inv] c(3) cur by auto
  have p: "fs_pushes ?s u g \<longleftrightarrow> u \<noteq> t \<and> fs_pushes s u g" for u g
    using ph by (auto simp: fs_pushes_def)
  have ok: "fs_pop_ok s u k \<Longrightarrow> fs_pop_ok ?s u k" for u k by (auto simp: fs_pop_ok_def)
  have late: "fs_stamp s u \<noteq> Suc (fs_ops s)" if "fs_phase s u = FlPopRead k m" for u k m
    using d(7) [OF that] by (simp add: fs_pop_ok_def)
  have list: "fl_list (fs_list ?s) ys"
    using d(1) c(2) cur ys by (simp add: fl_list_def)
  show ?thesis unfolding fs_inv_def p
    using list ys d(2) cur d(3) d(4) d(5) d(6) [THEN ok] d(7) [THEN ok] late
    by (auto simp: add.commute split: if_splits)
qed

lemma fs_inv_step: "fl_step a s s' \<Longrightarrow> fs_inv s \<Longrightarrow> fs_timely s \<Longrightarrow> fs_inv s'"
proof (induction rule: fl_step.induct)
  case (start_push s t f)
  then show ?case using fs_inv_push_load [of s f t] unfolding fs_may_push_def by blast
next
  case (push_retry s t f h spurious)
  then show ?case using fs_inv_push_load [of s f t] fs_invD(3,4) [of s t f] by simp
next
  case (start_pop s t)
  then show ?case using fs_inv_load_pop [of s t] by (simp add: fs_pushes_def)
next
  case (read_next s t h)
  have "fs_pop_ok s t h" using read_next fs_invD(6) by blast
  then show ?case using read_next unfolding fs_inv_def fs_pushes_def fs_pop_ok_def by simp
next
  case (pop_retry s t h n spurious)
  then show ?case using fs_inv_load_pop [of s t] by (simp add: fs_pushes_def)
qed (simp_all add: fs_inv_link fs_inv_push_ok fs_inv_pop_ok)

lemma fl_reachable_inv: "fl_reachable s \<Longrightarrow> fs_inv s"
  by (induction rule: fl_reachable.induct) (simp_all add: fs_inv_init fs_inv_step)

lemma fs_stack_end: "fs_inv s \<Longrightarrow> fl_Index (fl_head (fs_list s)) = fl_kNone \<Longrightarrow> fs_stack s = []"
  unfolding fs_inv_def fl_list_def by (cases "fs_stack s") auto

definition fl_pops :: "nat \<Rightarrow> fl_act \<Rightarrow> bool" where
  "fl_pops t a \<longleftrightarrow> a = FlStartPop t \<or> (\<exists>spurious. a = FlCasPop t spurious)"

lemma fs_load_pop_done:
  assumes "fs_inv s" "fs_phase (fs_load_pop t s) t = FlIdle"
  shows "fs_result (fs_load_pop t s) t = None" "fs_stack s = []"
  using assms fs_stack_end [OF assms(1)] by (auto simp: fs_load_pop_def Let_def split: if_splits)


text \<open>A push of frame 5 by thread 0 and then a pop by thread 1, up to its exchange.\<close>

definition fl_after_push :: fl_state where
  "fl_after_push = fs_init\<lparr>fs_list := \<lparr>fl_head = fl_Pack 5 1, fl_next = (\<lambda>_. fl_kNone)\<rparr>, fs_ops := 1,
     fs_stack := [5]\<rparr>"

definition fl_before_pop :: fl_state where
  "fl_before_pop = fl_after_push\<lparr>fs_phase := (\<lambda>_. FlIdle)(1 := FlPopRead (fl_Pack 5 1) fl_kNone),
     fs_stamp := (\<lambda>_. 0)(1 := 1)\<rparr>"

lemma fs_timely_early: "fs_ops s < 2 ^ 32 \<Longrightarrow> fs_timely s"
  by (simp add: fs_timely_def)

lemma fl_after_push_reachable: "fl_reachable fl_after_push"
proof -
  have t: "fs_timely s" if "fs_ops s = 0" for s using that by (intro fs_timely_early) simp
  note 1 = fl_next [OF fl_start t start_push [of fs_init 0 5]]
  note 2 = fl_next [OF 1 t link [of _ 0 5 "fl_Pack fl_kNone 0"]]
  note 3 = fl_next [OF 2 t push_ok [of _ 0 5 "fl_Pack fl_kNone 0"]]
  show ?thesis
    using 3 by (simp add: fl_after_push_def fs_init_def fl_empty_def fs_may_push_def fs_pushes_def fl_kNone_def fun_upd_idem)
qed

lemma fl_before_pop_reachable: "fl_reachable fl_before_pop"
proof -
  have t: "fs_timely s" if "fs_ops s = 1" for s using that by (intro fs_timely_early) simp
  note 1 = fl_next [OF fl_after_push_reachable t start_pop [of _ 1]]
  note 2 = fl_next [OF 1 t read_next [of _ 1 "fl_Pack 5 1"]]
  show ?thesis
    using 2 by (simp add: fl_after_push_def fl_before_pop_def fs_load_pop_def Let_def fs_init_def fl_kNone_def)
qed


end
