(* ===== verification/Page_Table.thy ===== *)
theory Page_Table
  imports Prelude "HOL-Library.Monad_Syntax"
begin

unbundle bit_operations_syntax

text \<open>
  \<^verbatim>\<open>buffer/page_table.h\<close> and \<^verbatim>\<open>.cc\<close>: the table from page tags to frames.  A bucket is a chain
  through the frames themselves (\<open>pt_heads\<close>, \<open>pt_next\<close>), a frame records its bucket
  (\<open>pt_bucket_of\<close>) and its tag, and writers mark the stripes they change with a lock and a
  sequence number.  The operations are the run of one thread: \<open>None\<close> stands for a run that
  does not return, because a stripe is locked or marked as being written, or because a
  chain does not end.  They refine a finite map from frames to tags.
\<close>

section \<open>The table\<close>

record Stripe =
  st_lock :: u32
  st_sequence :: u32

record PageTable =
  pt_frame_capacity :: nat
  pt_bucket_mask :: size_t
  pt_stripe_count :: size_t
  pt_heads :: "size_t \<Rightarrow> u32"
  pt_next :: "FrameId \<Rightarrow> u32"
  pt_bucket_of :: "FrameId \<Rightarrow> u32"
  pt_key_file_id :: "FrameId \<Rightarrow> FileId"
  pt_key_block_id :: "FrameId \<Rightarrow> BlockId"
  pt_stripes :: "size_t \<Rightarrow> Stripe"

definition pt_kNone :: u32 where
  "pt_kNone = - 1"

definition MixTag :: "BufferTag \<Rightarrow> u64" where
  "MixTag tag =
     (let file = ucast (bt_file_id tag) :: u64;
          v = (bt_block_id tag XOR push_bit 40 file) XOR drop_bit 24 file;
          v = v XOR drop_bit 30 v;
          v = v * 0xbf58476d1ce4e5b9;
          v = v XOR drop_bit 27 v;
          v = v * 0x94d049bb133111eb;
          v = v XOR drop_bit 31 v
      in v)"

definition BucketCount :: "nat \<Rightarrow> nat" where
  "BucketCount frame_capacity = bit_ceil_from 1 (max frame_capacity 1)"

definition pt_create :: "nat \<Rightarrow> size_t \<Rightarrow> PageTable" where
  "pt_create frame_capacity stripe_count =
     \<lparr>pt_frame_capacity = frame_capacity,
      pt_bucket_mask = word_of_nat (BucketCount frame_capacity - 1),
      pt_stripe_count = max stripe_count 1,
      pt_heads = (\<lambda>_. pt_kNone), pt_next = (\<lambda>_. pt_kNone), pt_bucket_of = (\<lambda>_. pt_kNone),
      pt_key_file_id = (\<lambda>_. 0), pt_key_block_id = (\<lambda>_. 0),
      pt_stripes = (\<lambda>_. \<lparr>st_lock = 0, st_sequence = 0\<rparr>)\<rparr>"

definition BucketFor :: "PageTable \<Rightarrow> BufferTag \<Rightarrow> size_t" where
  "BucketFor t tag = MixTag tag AND pt_bucket_mask t"

definition StripeFor :: "PageTable \<Rightarrow> size_t \<Rightarrow> size_t" where
  "StripeFor t bucket = bucket mod pt_stripe_count t"

definition MapsTo :: "PageTable \<Rightarrow> FrameId \<Rightarrow> BufferTag \<Rightarrow> bool" where
  "MapsTo t frame_id tag \<longleftrightarrow>
     pt_key_file_id t frame_id = bt_file_id tag \<and> pt_key_block_id t frame_id = bt_block_id tag"

section \<open>Stripes\<close>

text \<open>
  The stripes a writer locks, in the order it locks them: the lower address first, so two
  writers never wait for each other.
\<close>

definition stripe_order :: "size_t \<Rightarrow> size_t option \<Rightarrow> size_t list" where
  "stripe_order first second =
     (case second of
        None \<Rightarrow> [first]
      | Some s \<Rightarrow> if s = first then [first] else if s < first then [s, first] else [first, s])"

fun StripeWriter_enter :: "size_t list \<Rightarrow> PageTable \<Rightarrow> PageTable option" where
  "StripeWriter_enter [] t = Some t"
| "StripeWriter_enter (s # ss) t =
     (if st_lock (pt_stripes t s) \<noteq> 0 then None
      else StripeWriter_enter ss
        (t\<lparr>pt_stripes := (pt_stripes t)
             (s := \<lparr>st_lock = 1, st_sequence = st_sequence (pt_stripes t s) + 1\<rparr>)\<rparr>))"

fun StripeWriter_leave :: "size_t list \<Rightarrow> PageTable \<Rightarrow> PageTable" where
  "StripeWriter_leave [] t = t"
| "StripeWriter_leave (s # ss) t =
     (let t = StripeWriter_leave ss t
      in t\<lparr>pt_stripes := (pt_stripes t)
             (s := \<lparr>st_lock = 0, st_sequence = st_sequence (pt_stripes t s) + 1\<rparr>)\<rparr>)"

section \<open>Operations\<close>

definition pt_Link :: "size_t \<Rightarrow> BufferTag \<Rightarrow> FrameId \<Rightarrow> PageTable \<Rightarrow> PageTable" where
  "pt_Link bucket tag frame_id t =
     t\<lparr>pt_key_file_id := (pt_key_file_id t)(frame_id := bt_file_id tag),
       pt_key_block_id := (pt_key_block_id t)(frame_id := bt_block_id tag),
       pt_next := (pt_next t)(frame_id := pt_heads t bucket),
       pt_bucket_of := (pt_bucket_of t)(frame_id := ucast bucket),
       pt_heads := (pt_heads t)(bucket := frame_id)\<rparr>"

definition pt_Unlink :: "FrameId \<Rightarrow> PageTable \<Rightarrow> PageTable option" where
  "pt_Unlink frame_id t =
     (let bucket = ucast (pt_bucket_of t frame_id) :: size_t;
          after = pt_next t frame_id;
          clear = (\<lambda>t. t\<lparr>pt_next := (pt_next t)(frame_id := pt_kNone),
                         pt_bucket_of := (pt_bucket_of t)(frame_id := pt_kNone)\<rparr>)
      in if pt_heads t bucket = frame_id
         then Some (clear (t\<lparr>pt_heads := (pt_heads t)(bucket := after)\<rparr>))
         else map_option
           (\<lambda>prev. case prev of
              None \<Rightarrow> clear t
            | Some p \<Rightarrow> clear (t\<lparr>pt_next := (pt_next t)(p := after)\<rparr>))
           (chain_find (pt_next t) pt_kNone (\<lambda>c. pt_next t c = frame_id) (pt_heads t bucket)))"

text \<open>The loop over a chain that gives up after as many steps as there are frames.\<close>

fun pt_scan :: "PageTable \<Rightarrow> (FrameId \<Rightarrow> bool) \<Rightarrow> nat \<Rightarrow> u32 \<Rightarrow> FrameId option" where
  "pt_scan t P 0 frame = None"
| "pt_scan t P (Suc steps) frame =
     (if frame = pt_kNone then None
      else if P frame then Some frame
      else pt_scan t P steps (pt_next t frame))"

definition LookupFrameId :: "PageTable \<Rightarrow> BufferTag \<Rightarrow> FrameId option option" where
  "LookupFrameId t tag =
     (let bucket = BucketFor t tag;
          before = st_sequence (pt_stripes t (StripeFor t bucket))
      in if before AND 1 \<noteq> 0 then None
         else Some (pt_scan t (\<lambda>f. MapsTo t f tag) (pt_frame_capacity t) (pt_heads t bucket)))"

definition pt_Remove :: "BufferTag \<Rightarrow> FrameId \<Rightarrow> PageTable \<Rightarrow> PageTable option" where
  "pt_Remove tag frame_id t =
     (if pt_bucket_of t frame_id = pt_kNone then Some t
      else
        let stripes = stripe_order (StripeFor t (ucast (pt_bucket_of t frame_id))) None
        in do {
          t \<leftarrow> StripeWriter_enter stripes t;
          t \<leftarrow> (if MapsTo t frame_id tag then pt_Unlink frame_id t else Some t);
          Some (StripeWriter_leave stripes t)
        })"

definition pt_writer :: "BufferTag \<Rightarrow> FrameId \<Rightarrow> PageTable \<Rightarrow> size_t list" where
  "pt_writer new_tag frame_id t =
     stripe_order (StripeFor t (BucketFor t new_tag))
       (if pt_bucket_of t frame_id = pt_kNone then None
        else Some (StripeFor t (ucast (pt_bucket_of t frame_id))))"

definition pt_Replace :: "BufferTag \<Rightarrow> BufferTag \<Rightarrow> FrameId \<Rightarrow> PageTable \<Rightarrow> PageTable option" where
  "pt_Replace old_tag new_tag frame_id t =
     (let old_bucket = pt_bucket_of t frame_id;
          new_bucket = BucketFor t new_tag;
          stripes = pt_writer new_tag frame_id t
      in do {
        t \<leftarrow> StripeWriter_enter stripes t;
        t \<leftarrow> (if old_bucket \<noteq> pt_kNone \<and> (MapsTo t frame_id old_tag \<or> \<not> MapsTo t frame_id new_tag)
             then pt_Unlink frame_id t else Some t);
        let t = (if pt_bucket_of t frame_id = pt_kNone then pt_Link new_bucket new_tag frame_id t else t);
        Some (StripeWriter_leave stripes t)
      })"

definition pt_Install :: "BufferTag \<Rightarrow> FrameId \<Rightarrow> PageTable \<Rightarrow> PageTable option" where
  "pt_Install tag frame_id t = pt_Replace tag tag frame_id t"

definition ReplaceUnlessLive ::
    "BufferTag option \<Rightarrow> BufferTag \<Rightarrow> FrameId \<Rightarrow> (FrameId \<Rightarrow> bool) \<Rightarrow> PageTable
      \<Rightarrow> (FrameId option \<times> PageTable) option" where
  "ReplaceUnlessLive old_tag new_tag frame_id live t =
     (let old_bucket = pt_bucket_of t frame_id;
          new_bucket = BucketFor t new_tag;
          stripes = pt_writer new_tag frame_id t
      in do {
        t \<leftarrow> StripeWriter_enter stripes t;
        let existing = pt_scan t (\<lambda>f. f \<noteq> frame_id \<and> MapsTo t f new_tag \<and> live f)
                         (pt_frame_capacity t) (pt_heads t new_bucket);
        let linked_under_new = (old_bucket \<noteq> pt_kNone \<and> MapsTo t frame_id new_tag);
        t \<leftarrow> (if old_bucket \<noteq> pt_kNone \<and>
                 ((case old_tag of None \<Rightarrow> False | Some tag \<Rightarrow> MapsTo t frame_id tag) \<or>
                  \<not> linked_under_new \<or> existing \<noteq> None)
             then pt_Unlink frame_id t else Some t);
        let t = (if existing = None \<and> pt_bucket_of t frame_id = pt_kNone
                 then pt_Link new_bucket new_tag frame_id t else t);
        Some (existing, StripeWriter_leave stripes t)
      })"

section \<open>Well-formed tables\<close>

definition pt_key :: "PageTable \<Rightarrow> FrameId \<Rightarrow> BufferTag" where
  "pt_key t f = \<lparr>bt_file_id = pt_key_file_id t f, bt_block_id = pt_key_block_id t f\<rparr>"

text \<open>The map that the table represents: the tag under which a frame is linked.\<close>

definition pt_tag :: "PageTable \<Rightarrow> FrameId \<Rightarrow> BufferTag option" where
  "pt_tag t f = (if pt_bucket_of t f = pt_kNone then None else Some (pt_key t f))"

definition pt_bucket :: "PageTable \<Rightarrow> size_t \<Rightarrow> FrameId list \<Rightarrow> bool" where
  "pt_bucket t b xs \<longleftrightarrow> chain (pt_next t) pt_kNone (pt_heads t b) xs \<and>
     set xs = {f. unat f < pt_frame_capacity t \<and> pt_bucket_of t f = ucast b}"

definition pt_small :: "PageTable \<Rightarrow> bool" where
  "pt_small t \<longleftrightarrow> pt_frame_capacity t \<le> 2 ^ 31 \<and> unat (pt_bucket_mask t) < 2 ^ 31"

definition pt_wf :: "PageTable \<Rightarrow> bool" where
  "pt_wf t \<longleftrightarrow> pt_small t \<and> (\<forall>b \<le> pt_bucket_mask t. \<exists>xs. pt_bucket t b xs) \<and>
     (\<forall>f. unat f < pt_frame_capacity t \<longrightarrow> pt_bucket_of t f \<noteq> pt_kNone \<longrightarrow>
        ucast (pt_bucket_of t f) = BucketFor t (pt_key t f))"

definition pt_idle :: "PageTable \<Rightarrow> bool" where
  "pt_idle t \<longleftrightarrow> (\<forall>s. st_lock (pt_stripes t s) = 0 \<and> st_sequence (pt_stripes t s) AND 1 = 0)"

lemma MapsTo_key: "MapsTo t f tag \<longleftrightarrow> pt_key t f = tag"
  by (cases tag) (auto simp: MapsTo_def pt_key_def)

lemma BucketFor_le: "BucketFor t tag \<le> pt_bucket_mask t"
  unfolding BucketFor_def by (rule word_and_le1)

lemma bucket_small:
  assumes "pt_small t" "b \<le> pt_bucket_mask t"
  shows "ucast (ucast b :: u32) = b" "(ucast b :: u32) \<noteq> pt_kNone"
proof -
  have "unat b < 2 ^ 31" using assms by (simp add: pt_small_def word_le_nat_alt)
  then have u: "unat (ucast b :: u32) = unat b" by (simp add: unsigned_ucast_eq take_bit_nat_eq_self)
  then show "ucast (ucast b :: u32) = b"
    using \<open>unat b < 2 ^ 31\<close>
    by (simp add: word_unat_eq_iff unsigned_ucast_eq unsigned_take_bit_eq take_bit_nat_eq_self)
  have "unat pt_kNone = 4294967295" using unat_kInvalidFrameId by (simp add: pt_kNone_def kInvalidFrameId_def)
  then show "(ucast b :: u32) \<noteq> pt_kNone" using u \<open>unat b < 2 ^ 31\<close> by auto
qed

lemma bucket_inject:
  assumes "pt_small t" "b \<le> pt_bucket_mask t" "c \<le> pt_bucket_mask t"
  shows "(ucast b :: u32) = ucast c \<longleftrightarrow> b = c"
proof
  assume "(ucast b :: u32) = ucast c"
  then have "(ucast (ucast b :: u32) :: size_t) = ucast (ucast c :: u32)" by (rule arg_cong)
  then show "b = c" unfolding bucket_small(1) [OF assms(1,2)] bucket_small(1) [OF assms(1,3)] .
qed simp

lemma frame_not_kNone: "pt_small t \<Longrightarrow> unat f < pt_frame_capacity t \<Longrightarrow> f \<noteq> pt_kNone"
  using in_range_not_invalid [of f "pt_frame_capacity t"]
  by (simp add: pt_small_def pt_kNone_def kInvalidFrameId_def)

lemma pt_scan_chain:
  "chain (pt_next t) pt_kNone p xs \<Longrightarrow> length xs \<le> n \<Longrightarrow> pt_scan t P n p = List.find P xs"
proof (induction xs arbitrary: p n)
  case Nil
  then show ?case by (cases n) auto
next
  case (Cons x xs)
  then show ?case by (cases n) auto
qed

lemma pt_bucket_length:
  assumes "pt_small t" "pt_bucket t b xs"
  shows "length xs \<le> pt_frame_capacity t"
proof -
  have "set xs \<subseteq> set (frame_ids (pt_frame_capacity t))"
    using assms set_frame_ids [of "pt_frame_capacity t"] by (auto simp: pt_small_def pt_bucket_def)
  then have "card (set xs) \<le> card (set (frame_ids (pt_frame_capacity t)))" by (rule card_mono [rotated]) simp
  moreover have "card (set (frame_ids (pt_frame_capacity t))) \<le> pt_frame_capacity t" using card_length [of "frame_ids (pt_frame_capacity t)"] by simp
  moreover have "card (set xs) = length xs"
    using assms(2) by (intro distinct_card) (auto simp: pt_bucket_def intro: chain_distinct)
  ultimately show ?thesis by simp
qed

lemma pt_scan_bucket:
  assumes "pt_small t" "pt_bucket t b xs"
  shows "pt_scan t P (pt_frame_capacity t) (pt_heads t b) = List.find P xs"
  using pt_scan_chain [OF _ pt_bucket_length [OF assms]] assms(2) by (simp add: pt_bucket_def)

lemma chain_pred:
  "chain nx z q (as @ a # f # bs) \<Longrightarrow> List.find (\<lambda>c. nx c = f) (as @ a # f # bs) = Some a"
proof (induction as arbitrary: q)
  case Nil
  then show ?case by simp
next
  case (Cons x as)
  have "nx x \<noteq> f"
    using chain_distinct [OF Cons.prems] chain_next [of nx z q "[]" x] Cons.prems by (cases as) auto
  with Cons.IH [of "nx x"] Cons.prems show ?case by simp
qed

section \<open>Linking and unlinking\<close>

text \<open>Changing only locks and sequence numbers leaves the map alone.\<close>

lemma pt_stripes_irrelevant [simp]:
  "BucketFor (t\<lparr>pt_stripes := x\<rparr>) = BucketFor t" "MapsTo (t\<lparr>pt_stripes := x\<rparr>) = MapsTo t"
  "pt_key (t\<lparr>pt_stripes := x\<rparr>) = pt_key t" "pt_tag (t\<lparr>pt_stripes := x\<rparr>) = pt_tag t"
  "pt_bucket (t\<lparr>pt_stripes := x\<rparr>) = pt_bucket t"
  by (intro ext, simp add: BucketFor_def MapsTo_def pt_key_def pt_tag_def pt_bucket_def)+

lemma pt_wf_stripes [simp]: "pt_wf (t\<lparr>pt_stripes := x\<rparr>) = pt_wf t"
  by (simp add: pt_wf_def pt_small_def)

definition pt_same_shape :: "PageTable \<Rightarrow> PageTable \<Rightarrow> bool" where
  "pt_same_shape t t' \<longleftrightarrow> pt_frame_capacity t' = pt_frame_capacity t \<and>
     pt_bucket_mask t' = pt_bucket_mask t \<and> pt_stripe_count t' = pt_stripe_count t \<and>
     pt_stripes t' = pt_stripes t"

lemma pt_wf_bucket:
  assumes "pt_wf t" "unat f < pt_frame_capacity t" "pt_bucket_of t f \<noteq> pt_kNone"
  obtains b xs where "b = BucketFor t (pt_key t f)" "ucast (pt_bucket_of t f) = b" "ucast b = pt_bucket_of t f"
    "b \<le> pt_bucket_mask t" "pt_bucket t b xs" "f \<in> set xs"
proof -
  let ?b = "BucketFor t (pt_key t f)"
  have b: "ucast (pt_bucket_of t f) = ?b" using assms by (simp add: pt_wf_def)
  have m: "?b \<le> pt_bucket_mask t" by (rule BucketFor_le)
  then obtain xs where xs: "pt_bucket t ?b xs" using assms(1) unfolding pt_wf_def by blast
  have c: "ucast ?b = pt_bucket_of t f" unfolding b [symmetric]
    by (rule bit_word_eqI) (simp add: bit_simps)
  have "f \<in> set xs" using xs assms(2) c by (simp add: pt_bucket_def)
  with b c m xs that show ?thesis by blast
qed

lemma pt_wf_Link:
  fixes tag :: BufferTag
  assumes wf: "pt_wf t" and f: "unat f < pt_frame_capacity t" and free: "pt_bucket_of t f = pt_kNone"
  defines "t' \<equiv> pt_Link (BucketFor t tag) tag f t"
  shows "pt_wf t'" "pt_tag t' = (pt_tag t)(f \<mapsto> tag)" "pt_same_shape t t'"
proof -
  let ?b = "BucketFor t tag"
  have small: "pt_small t" using wf by (simp add: pt_wf_def)
  have b: "?b \<le> pt_bucket_mask t" by (rule BucketFor_le)
  note nb = bucket_small [OF small b]
  have key: "pt_key t' g = (if g = f then tag else pt_key t g)" for g
    by (simp add: t'_def pt_Link_def pt_key_def)
  show "pt_tag t' = (pt_tag t)(f \<mapsto> tag)"
    using nb(2) by (auto simp: pt_tag_def fun_eq_iff key) (auto simp: t'_def pt_Link_def split: if_splits)
  show "pt_same_shape t t'" by (simp add: pt_same_shape_def t'_def pt_Link_def)
  have bf: "BucketFor t' = BucketFor t" by (simp add: BucketFor_def fun_eq_iff t'_def pt_Link_def)
  have "\<exists>xs. pt_bucket t' c xs" if c: "c \<le> pt_bucket_mask t" for c
  proof -
    obtain xs where xs: "pt_bucket t c xs" using wf c unfolding pt_wf_def by blast
    have mem: "set xs = {g. unat g < pt_frame_capacity t \<and> pt_bucket_of t g = ucast c}"
      and ch: "chain (pt_next t) pt_kNone (pt_heads t c) xs" using xs by (simp_all add: pt_bucket_def)
    have fx: "f \<notin> set xs" using mem bucket_small(2) [OF small c] free by simp
    show ?thesis
    proof (cases "c = ?b")
      case True
      then have "pt_bucket t' c (f # xs)"
        using fx ch mem f frame_not_kNone [OF small f] unfolding pt_bucket_def t'_def pt_Link_def by auto
      then show ?thesis by blast
    next
      case False
      then have "pt_bucket t' c xs"
        using fx ch mem bucket_inject [OF small c b] unfolding pt_bucket_def t'_def pt_Link_def by auto
      then show ?thesis by blast
    qed
  qed
  moreover have "ucast (pt_bucket_of t' g) = BucketFor t' (pt_key t' g)"
    if "unat g < pt_frame_capacity t" "pt_bucket_of t' g \<noteq> pt_kNone" for g
    using that wf nb(1) unfolding bf key by (auto simp: t'_def pt_Link_def pt_wf_def)
  moreover have "pt_small t'" using small by (simp add: pt_small_def t'_def pt_Link_def)
  ultimately show "pt_wf t'" unfolding pt_wf_def by (simp add: t'_def pt_Link_def)
qed

text \<open>What \<open>Unlink\<close> stores: the node before \<open>f\<close>, or the head, skips it.\<close>

lemma pt_Unlink_stores:
  assumes "chain (pt_next t) pt_kNone (pt_heads t b) (as @ f # bs)" "ucast (pt_bucket_of t f) = b"
  obtains t' where "pt_Unlink f t = Some t'" "pt_same_shape t t'"
    "pt_key t' = pt_key t" "pt_bucket_of t' = (pt_bucket_of t)(f := pt_kNone)"
    "chain (pt_next t') pt_kNone (pt_heads t' b) (as @ bs)"
    "\<And>c. c \<noteq> b \<Longrightarrow> pt_heads t' c = pt_heads t c"
    "\<And>g. g \<notin> set (as @ f # bs) \<Longrightarrow> pt_next t' g = pt_next t g"
proof (cases as rule: rev_cases)
  case Nil
  note that [of "t\<lparr>pt_heads := (pt_heads t)(b := pt_next t f), pt_next := (pt_next t)(f := pt_kNone),
      pt_bucket_of := (pt_bucket_of t)(f := pt_kNone)\<rparr>"]
  moreover have "f \<notin> set bs" using chain_distinct [OF assms(1)] by simp
  ultimately show thesis using assms Nil
    by (simp add: pt_Unlink_def Let_def pt_same_shape_def pt_key_def fun_eq_iff)
next
  case (snoc as' p)
  have ch: "chain (pt_next t) pt_kNone (pt_heads t b) (as' @ p # f # bs)" using assms(1) snoc by simp
  have d: "distinct (as' @ p # f # bs)" using chain_distinct [OF ch] .
  have "pt_heads t b \<noteq> f" using ch d by (cases as') auto
  moreover have "chain_find (pt_next t) pt_kNone (\<lambda>c. pt_next t c = f) (pt_heads t b) = Some (Some p)"
    using chain_find_eq [OF ch] chain_pred [OF ch] by simp
  moreover have fd: "f \<notin> set (as' @ p # bs)" using d by auto
  have "chain ((pt_next t)(p := pt_next t f, f := pt_kNone)) pt_kNone (pt_heads t b) (as' @ p # bs)"
    by (subst chain_frame [OF fd]) (rule chain_remove [OF ch])
  moreover note that [of "t\<lparr>pt_next := (pt_next t)(p := pt_next t f, f := pt_kNone),
      pt_bucket_of := (pt_bucket_of t)(f := pt_kNone)\<rparr>"]
  ultimately show thesis using assms(2) snoc
    by (simp add: pt_Unlink_def Let_def pt_same_shape_def pt_key_def fun_eq_iff)
qed

lemma pt_wf_Unlink:
  assumes wf: "pt_wf t" and f: "unat f < pt_frame_capacity t" and linked: "pt_bucket_of t f \<noteq> pt_kNone"
  obtains t' where "pt_Unlink f t = Some t'" "pt_wf t'" "pt_tag t' = (pt_tag t)(f := None)"
    "pt_same_shape t t'" "pt_bucket_of t' f = pt_kNone"
proof -
  obtain b xs where b: "ucast (pt_bucket_of t f) = b" "ucast b = pt_bucket_of t f"
    "b \<le> pt_bucket_mask t" "pt_bucket t b xs" "f \<in> set xs"
    using pt_wf_bucket [OF wf f linked] by metis
  have small: "pt_small t" using wf by (simp add: pt_wf_def)
  obtain as bs where xs: "xs = as @ f # bs" using b(5) by (meson split_list)
  have ch: "chain (pt_next t) pt_kNone (pt_heads t b) (as @ f # bs)" using b(4) xs by (simp add: pt_bucket_def)
  obtain t' where t': "pt_Unlink f t = Some t'" "pt_same_shape t t'"
    "pt_key t' = pt_key t" "pt_bucket_of t' = (pt_bucket_of t)(f := pt_kNone)"
    "chain (pt_next t') pt_kNone (pt_heads t' b) (as @ bs)"
    "\<And>c. c \<noteq> b \<Longrightarrow> pt_heads t' c = pt_heads t c"
    "\<And>g. g \<notin> set (as @ f # bs) \<Longrightarrow> pt_next t' g = pt_next t g"
    using pt_Unlink_stores [OF ch b(1)] by blast
  note shape = t'(2) [unfolded pt_same_shape_def]
  have "\<exists>ys. pt_bucket t' c ys" if c: "c \<le> pt_bucket_mask t" for c
  proof (cases "c = b")
    case True
    have "set (as @ bs) = set xs - {f}" using chain_distinct [OF ch] xs by auto
    then have "pt_bucket t' b (as @ bs)"
      using t'(4,5) b(4) shape bucket_small(2) [OF small b(3)] by (auto simp: pt_bucket_def)
    then show ?thesis using True by blast
  next
    case False
    obtain ys where ys: "pt_bucket t c ys" using wf c unfolding pt_wf_def by blast
    have dis: "set ys \<inter> set xs = {}"
      using ys b(4) bucket_inject [OF small c b(3)] False by (auto simp: pt_bucket_def)
    have "pt_next t x = pt_next t' x" if "x \<in> set ys" for x
      using that dis t'(7) [of x] xs by (metis disjoint_iff)
    then have "chain (pt_next t') pt_kNone (pt_heads t c) ys"
      using ys chain_cong [of ys "pt_next t" "pt_next t'"] unfolding pt_bucket_def by blast
    moreover have "f \<notin> set ys" using dis b(5) by blast
    ultimately have "pt_bucket t' c ys"
      using ys t'(4) t'(6) [OF False] shape bucket_small(2) [OF small c] by (auto simp: pt_bucket_def)
    then show ?thesis by blast
  qed
  moreover have "BucketFor t' = BucketFor t" using shape by (simp add: BucketFor_def fun_eq_iff)
  ultimately have "pt_wf t'"
    using wf shape t'(3,4) by (simp add: pt_wf_def pt_small_def)
  moreover have "pt_tag t' = (pt_tag t)(f := None)" using t'(3,4) by (simp add: pt_tag_def fun_eq_iff)
  ultimately show thesis using that t'(1,2,4) by simp
qed

section \<open>Stripe locks\<close>

lemma stripe_order_sorted: "sorted (stripe_order a b)" "distinct (stripe_order a b)"
  by (auto simp: stripe_order_def split: option.splits)

lemma StripeWriter_enter_eq:
  "distinct ss \<Longrightarrow> \<forall>s \<in> set ss. st_lock (pt_stripes t s) = 0 \<Longrightarrow>
   StripeWriter_enter ss t = Some (t\<lparr>pt_stripes := \<lambda>s. if s \<in> set ss
      then \<lparr>st_lock = 1, st_sequence = st_sequence (pt_stripes t s) + 1\<rparr> else pt_stripes t s\<rparr>)"
proof (induction ss arbitrary: t)
  case (Cons s ss)
  let ?t = "t\<lparr>pt_stripes := (pt_stripes t)(s := \<lparr>st_lock = 1, st_sequence = st_sequence (pt_stripes t s) + 1\<rparr>)\<rparr>"
  have "StripeWriter_enter ss ?t = Some (?t\<lparr>pt_stripes := \<lambda>s. if s \<in> set ss
      then \<lparr>st_lock = 1, st_sequence = st_sequence (pt_stripes ?t s) + 1\<rparr> else pt_stripes ?t s\<rparr>)"
    using Cons.prems by (intro Cons.IH) auto
  moreover have "(\<lambda>u. if u \<in> set ss then \<lparr>st_lock = 1, st_sequence = st_sequence (pt_stripes ?t u) + 1\<rparr>
      else pt_stripes ?t u) = (\<lambda>u. if u \<in> set (s # ss)
      then \<lparr>st_lock = 1, st_sequence = st_sequence (pt_stripes t u) + 1\<rparr> else pt_stripes t u)"
    using Cons.prems(1) by (auto simp: fun_eq_iff)
  ultimately show ?case using Cons.prems(2) by simp
qed simp

lemma StripeWriter_leave_eq:
  "distinct ss \<Longrightarrow>
   StripeWriter_leave ss t = t\<lparr>pt_stripes := \<lambda>s. if s \<in> set ss
      then \<lparr>st_lock = 0, st_sequence = st_sequence (pt_stripes t s) + 1\<rparr> else pt_stripes t s\<rparr>"
proof (induction ss)
  case (Cons s ss)
  then show ?case by (auto simp: Let_def fun_eq_iff intro!: arg_cong [where f = "\<lambda>x. pt_stripes_update x t"])
qed simp

lemma even_sequence: "(x :: u32) AND 1 = 0 \<Longrightarrow> (x + 1 + 1) AND 1 = 0"
  by (simp add: and_one_eq even_iff_mod_2_eq_zero [symmetric])

text \<open>A writer's critical section ends with every stripe as it should be.\<close>

definition pt_entered :: "size_t list \<Rightarrow> PageTable \<Rightarrow> PageTable" where
  "pt_entered ss t = t\<lparr>pt_stripes := \<lambda>s. if s \<in> set ss
     then \<lparr>st_lock = 1, st_sequence = st_sequence (pt_stripes t s) + 1\<rparr> else pt_stripes t s\<rparr>"

lemma StripeWriter_section:
  assumes "pt_idle t" "distinct ss"
  shows "StripeWriter_enter ss t = Some (pt_entered ss t)"
    "pt_same_shape (pt_entered ss t) t' \<Longrightarrow> pt_idle (StripeWriter_leave ss t')"
    "pt_wf t' \<Longrightarrow> pt_wf (StripeWriter_leave ss t')"
    "pt_tag (StripeWriter_leave ss t') = pt_tag t'"
    "pt_frame_capacity (StripeWriter_leave ss t') = pt_frame_capacity t'"
  using assms StripeWriter_enter_eq [of ss t] even_sequence
  by (auto simp: StripeWriter_leave_eq pt_idle_def pt_entered_def pt_same_shape_def)

lemma pt_entered_simps [simp]:
  "pt_wf (pt_entered ss t) = pt_wf t" "pt_tag (pt_entered ss t) = pt_tag t"
  "BucketFor (pt_entered ss t) = BucketFor t" "MapsTo (pt_entered ss t) = MapsTo t"
  "pt_bucket_of (pt_entered ss t) = pt_bucket_of t" "pt_heads (pt_entered ss t) = pt_heads t"
  "pt_frame_capacity (pt_entered ss t) = pt_frame_capacity t"
  by (simp_all add: pt_entered_def)

lemma pt_writer_distinct [simp]: "distinct (pt_writer tag f t)"
  by (simp add: pt_writer_def stripe_order_sorted)

lemma pt_same_shape_trans: "pt_same_shape a b \<Longrightarrow> pt_same_shape b c \<Longrightarrow> pt_same_shape a c"
  by (simp add: pt_same_shape_def)

lemma pt_same_shape_refl [simp]: "pt_same_shape a a"
  by (simp add: pt_same_shape_def)

section \<open>The operations as operations on the map\<close>

lemma pt_Unlink_if:
  assumes "pt_wf t" "unat f < pt_frame_capacity t" "c \<Longrightarrow> pt_bucket_of t f \<noteq> pt_kNone"
  obtains t' where "(if c then pt_Unlink f t else Some t) = Some t'" "pt_wf t'"
    "pt_tag t' = (if c then (pt_tag t)(f := None) else pt_tag t)" "pt_same_shape t t'"
    "pt_bucket_of t' f = (if c then pt_kNone else pt_bucket_of t f)"
proof (cases c)
  case True
  then obtain t' where "pt_Unlink f t = Some t'" "pt_wf t'" "pt_tag t' = (pt_tag t)(f := None)"
    "pt_same_shape t t'" "pt_bucket_of t' f = pt_kNone"
    using pt_wf_Unlink [OF assms(1,2)] assms(3) by blast
  then show thesis using that [of t'] True by simp
next
  case False
  then show thesis using that [of t] assms(1) by simp
qed

lemma pt_Link_if:
  assumes "pt_wf t" "unat f < pt_frame_capacity t" "pt_bucket_of t f \<noteq> pt_kNone \<Longrightarrow> pt_tag t f = Some tag"
  defines "t' \<equiv> (if pt_bucket_of t f = pt_kNone then pt_Link (BucketFor t tag) tag f t else t)"
  shows "pt_wf t'" "pt_tag t' = (pt_tag t)(f \<mapsto> tag)" "pt_same_shape t t'"
proof -
  have "pt_wf t' \<and> pt_tag t' = (pt_tag t)(f \<mapsto> tag) \<and> pt_same_shape t t'"
    using pt_wf_Link [OF assms(1,2), of tag] assms(1,3) unfolding t'_def
    by (cases "pt_bucket_of t f = pt_kNone") (simp_all add: fun_upd_idem)
  then show "pt_wf t'" "pt_tag t' = (pt_tag t)(f \<mapsto> tag)" "pt_same_shape t t'" by simp_all
qed

lemma pt_tag_MapsTo: "pt_bucket_of t f \<noteq> pt_kNone \<Longrightarrow> pt_tag t f = Some tag \<longleftrightarrow> MapsTo t f tag"
  by (auto simp: pt_tag_def MapsTo_key)

lemma BucketFor_shape: "pt_same_shape t t' \<Longrightarrow> BucketFor t' = BucketFor t"
  by (simp add: BucketFor_def pt_same_shape_def fun_eq_iff)

lemma pt_Replace_map:
  assumes "pt_wf t" "pt_idle t" "unat f < pt_frame_capacity t"
  obtains t' where "pt_Replace old new f t = Some t'" "pt_wf t'" "pt_idle t'"
    "pt_tag t' = (pt_tag t)(f \<mapsto> new)" "pt_frame_capacity t' = pt_frame_capacity t"
proof -
  let ?ss = "pt_writer new f t"
  note sec = StripeWriter_section [OF assms(2), of ?ss, OF pt_writer_distinct]
  let ?e = "pt_entered ?ss t"
  let ?c = "pt_bucket_of t f \<noteq> pt_kNone \<and> (MapsTo t f old \<or> \<not> MapsTo t f new)"
  obtain t1 where t1: "(if ?c then pt_Unlink f ?e else Some ?e) = Some t1" "pt_wf t1"
    "pt_tag t1 = (if ?c then (pt_tag t)(f := None) else pt_tag t)" "pt_same_shape ?e t1"
    "pt_bucket_of t1 f = (if ?c then pt_kNone else pt_bucket_of t f)"
    by (rule pt_Unlink_if [of ?e f ?c, unfolded pt_entered_simps, OF assms(1,3)]) blast+
  have cap: "pt_frame_capacity t1 = pt_frame_capacity t" using t1(4) by (simp add: pt_same_shape_def)
  have linked: "pt_tag t1 f = Some new" if "pt_bucket_of t1 f \<noteq> pt_kNone"
    using that t1(3,5) pt_tag_MapsTo [of t f new] by (auto split: if_splits)
  define t2 where "t2 = (if pt_bucket_of t1 f = pt_kNone then pt_Link (BucketFor t new) new f t1 else t1)"
  have bf: "BucketFor t1 = BucketFor t" using BucketFor_shape [OF t1(4)] by simp
  have "unat f < pt_frame_capacity t1" using assms(3) cap by simp
  note l = pt_Link_if [OF t1(2) this linked, unfolded bf, folded t2_def]
  have "pt_Replace old new f t = Some (StripeWriter_leave ?ss t2)"
    by (simp only: pt_Replace_def Let_def sec(1) Option.bind.simps pt_entered_simps t1(1) t2_def [symmetric])
  moreover have "pt_idle (StripeWriter_leave ?ss t2)"
    using sec(2) pt_same_shape_trans [OF t1(4) l(3)] by blast
  moreover have "pt_tag (StripeWriter_leave ?ss t2) = (pt_tag t)(f \<mapsto> new)"
    using l(2) t1(3) unfolding sec(4) by (simp add: fun_eq_iff)
  moreover have "pt_frame_capacity (StripeWriter_leave ?ss t2) = pt_frame_capacity t"
    using l(3) cap unfolding sec(5) by (simp add: pt_same_shape_def)
  ultimately show thesis using that sec(3) [OF l(1)] by blast
qed

lemma pt_Remove_map:
  assumes "pt_wf t" "pt_idle t" "unat f < pt_frame_capacity t"
  obtains t' where "pt_Remove tag f t = Some t'" "pt_wf t'" "pt_idle t'"
    "pt_tag t' = (if pt_tag t f = Some tag then (pt_tag t)(f := None) else pt_tag t)"
    "pt_frame_capacity t' = pt_frame_capacity t"
proof (cases "pt_bucket_of t f = pt_kNone")
  case True
  then show thesis using that [of t] assms by (simp add: pt_Remove_def pt_tag_def)
next
  case False
  let ?ss = "stripe_order (StripeFor t (ucast (pt_bucket_of t f))) None"
  note sec = StripeWriter_section [OF assms(2), of ?ss, OF stripe_order_sorted(2)]
  let ?e = "pt_entered ?ss t"
  obtain t1 where t1: "(if MapsTo t f tag then pt_Unlink f ?e else Some ?e) = Some t1" "pt_wf t1"
    "pt_tag t1 = (if MapsTo t f tag then (pt_tag t)(f := None) else pt_tag t)" "pt_same_shape ?e t1"
    by (rule pt_Unlink_if [of ?e f "MapsTo t f tag", unfolded pt_entered_simps, OF assms(1,3)]) (use False in blast)+
  have "pt_Remove tag f t = Some (StripeWriter_leave ?ss t1)"
    using t1(1) sec(1) False by (simp add: pt_Remove_def Let_def)
  moreover have "pt_frame_capacity t1 = pt_frame_capacity t" using t1(4) by (simp add: pt_same_shape_def)
  ultimately show thesis
    using that sec(2) [OF t1(4)] sec(3) [OF t1(2)] sec(4,5) t1(3) pt_tag_MapsTo [OF False, of tag] by simp
qed

lemma pt_scan_map:
  assumes wf: "pt_wf t" and P: "\<And>g. P g \<Longrightarrow> MapsTo t g tag"
  shows "case pt_scan t P (pt_frame_capacity t) (pt_heads t (BucketFor t tag)) of
      None \<Rightarrow> \<forall>g. unat g < pt_frame_capacity t \<longrightarrow> pt_tag t g = Some tag \<longrightarrow> \<not> P g
    | Some g \<Rightarrow> unat g < pt_frame_capacity t \<and> pt_tag t g = Some tag \<and> P g"
proof -
  have small: "pt_small t" using wf by (simp add: pt_wf_def)
  obtain xs where xs: "pt_bucket t (BucketFor t tag) xs"
    using wf BucketFor_le unfolding pt_wf_def by blast
  have mem: "g \<in> set xs \<longleftrightarrow> unat g < pt_frame_capacity t \<and> pt_bucket_of t g = ucast (BucketFor t tag)" for g
    using xs by (simp add: pt_bucket_def)
  have nb: "(ucast (BucketFor t tag) :: u32) \<noteq> pt_kNone" by (rule bucket_small(2) [OF small BucketFor_le])
  have has: "g \<in> set xs" if g: "unat g < pt_frame_capacity t" "pt_tag t g = Some tag" for g
  proof -
    have n: "pt_bucket_of t g \<noteq> pt_kNone" "pt_key t g = tag" using g(2) by (auto simp: pt_tag_def split: if_splits)
    then show ?thesis using pt_wf_bucket [OF wf g(1) n(1)] g(1) by (metis mem)
  qed
  show ?thesis
  proof (cases "List.find P xs")
    case None
    then have "\<forall>g \<in> set xs. \<not> P g" by (simp add: find_None_iff)
    then show ?thesis unfolding pt_scan_bucket [OF small xs] None using has by auto
  next
    case (Some g)
    then show ?thesis unfolding pt_scan_bucket [OF small xs] Some
      using find_SomeD [OF Some] mem [of g] nb P [of g] pt_tag_MapsTo [of t g tag] by auto
  qed
qed

lemma LookupFrameId_map:
  assumes "pt_wf t" "pt_idle t"
  shows "\<exists>r. LookupFrameId t tag = Some r \<and>
    (case r of None \<Rightarrow> \<forall>g. unat g < pt_frame_capacity t \<longrightarrow> pt_tag t g \<noteq> Some tag
     | Some g \<Rightarrow> unat g < pt_frame_capacity t \<and> pt_tag t g = Some tag)"
proof -
  have "pt_tag t g = Some tag \<Longrightarrow> MapsTo t g tag" for g
    by (auto simp: pt_tag_def MapsTo_key split: if_splits)
  then show ?thesis
    using pt_scan_map [OF assms(1), of "\<lambda>f. MapsTo t f tag" tag] assms(2)
    by (auto simp: LookupFrameId_def Let_def pt_idle_def split: option.splits)
qed

lemma pt_scan_entered [simp]: "pt_scan (pt_entered ss t) = pt_scan t"
proof (intro ext)
  show "pt_scan (pt_entered ss t) P n f = pt_scan t P n f" for P n f
    by (induction n arbitrary: f) (simp_all add: pt_entered_def)
qed

lemma ReplaceUnlessLive_map:
  assumes "pt_wf t" "pt_idle t" "unat f < pt_frame_capacity t"
  obtains t' r where "ReplaceUnlessLive old new f live t = Some (r, t')" "pt_wf t'" "pt_idle t'"
    "pt_tag t' = (if r = None then (pt_tag t)(f \<mapsto> new) else (pt_tag t)(f := None))"
    "pt_frame_capacity t' = pt_frame_capacity t"
    "case r of None \<Rightarrow> \<forall>g. unat g < pt_frame_capacity t \<longrightarrow> pt_tag t g = Some new \<longrightarrow> g = f \<or> \<not> live g
     | Some g \<Rightarrow> unat g < pt_frame_capacity t \<and> pt_tag t g = Some new \<and> g \<noteq> f \<and> live g"
proof -
  let ?ss = "pt_writer new f t"
  note sec = StripeWriter_section [OF assms(2), of ?ss, OF pt_writer_distinct]
  let ?e = "pt_entered ?ss t"
  define r where "r = pt_scan t (\<lambda>g. g \<noteq> f \<and> MapsTo t g new \<and> live g) (pt_frame_capacity t)
    (pt_heads t (BucketFor t new))"
  have spec: "case r of None \<Rightarrow> \<forall>g. unat g < pt_frame_capacity t \<longrightarrow> pt_tag t g = Some new \<longrightarrow> g = f \<or> \<not> live g
     | Some g \<Rightarrow> unat g < pt_frame_capacity t \<and> pt_tag t g = Some new \<and> g \<noteq> f \<and> live g"
    using pt_scan_map [OF assms(1), of "\<lambda>g. g \<noteq> f \<and> MapsTo t g new \<and> live g" new] unfolding r_def [symmetric]
    by (auto simp: pt_tag_def MapsTo_key split: option.splits if_splits)
  define c where "c \<longleftrightarrow> pt_bucket_of t f \<noteq> pt_kNone \<and>
    ((case old of None \<Rightarrow> False | Some tag \<Rightarrow> MapsTo t f tag) \<or>
     \<not> (pt_bucket_of t f \<noteq> pt_kNone \<and> MapsTo t f new) \<or> r \<noteq> None)"
  obtain t1 where t1: "(if c then pt_Unlink f ?e else Some ?e) = Some t1" "pt_wf t1"
    "pt_tag t1 = (if c then (pt_tag t)(f := None) else pt_tag t)" "pt_same_shape ?e t1"
    "pt_bucket_of t1 f = (if c then pt_kNone else pt_bucket_of t f)"
    by (rule pt_Unlink_if [of ?e f c, unfolded pt_entered_simps, OF assms(1,3)]) (auto simp: c_def)
  have cap: "pt_frame_capacity t1 = pt_frame_capacity t" using t1(4) by (simp add: pt_same_shape_def)
  have linked: "pt_tag t1 f = Some new" if "pt_bucket_of t1 f \<noteq> pt_kNone"
    using that t1(3,5) pt_tag_MapsTo [of t f new] by (auto simp: c_def split: if_splits)
  have bf: "BucketFor t1 = BucketFor t" using BucketFor_shape [OF t1(4)] by simp
  have "unat f < pt_frame_capacity t1" using assms(3) cap by simp
  note l = pt_Link_if [OF t1(2) this linked, unfolded bf]
  define t2 where "t2 = (if r = None \<and> pt_bucket_of t1 f = pt_kNone
    then pt_Link (BucketFor t new) new f t1 else t1)"
  have t2: "pt_wf t2" "pt_same_shape t1 t2" using l(1,3) t1(2) unfolding t2_def by auto
  have off: "r \<noteq> None \<Longrightarrow> \<not> c \<Longrightarrow> pt_tag t f = None" by (simp add: c_def pt_tag_def)
  have tag: "pt_tag t2 = (if r = None then (pt_tag t)(f \<mapsto> new) else (pt_tag t)(f := None))"
    using l(2) t1(3) off unfolding t2_def by (auto simp: fun_eq_iff)
  have "ReplaceUnlessLive old new f live t = Some (r, StripeWriter_leave ?ss t2)"
    by (simp only: ReplaceUnlessLive_def Let_def sec(1) Option.bind.simps pt_entered_simps pt_scan_entered
        r_def [symmetric] c_def [symmetric] t1(1) t2_def [symmetric])
  moreover have "pt_frame_capacity t2 = pt_frame_capacity t" using t2(2) cap by (simp add: pt_same_shape_def)
  ultimately show thesis
    using that sec(2) [OF pt_same_shape_trans [OF t1(4) t2(2)]] sec(3) [OF t2(1)] sec(4,5) tag spec by simp
qed

section \<open>New tables\<close>

lemma BucketCount_power:
  obtains k where "BucketCount n = 2 ^ k" "n \<le> 2 ^ k" "k = 0 \<or> 2 ^ (k - 1) < n"
  using bit_ceil_from_power [of 0 "max n 1"] unfolding BucketCount_def
  by (auto simp: max_def split: if_splits)

lemma BucketCount_le:
  assumes "n \<le> 2 ^ m"
  shows "BucketCount n \<le> 2 ^ m" "0 < BucketCount n"
proof -
  obtain k where k: "BucketCount n = 2 ^ k" "k = 0 \<or> 2 ^ (k - 1) < n" using BucketCount_power .
  have "k \<le> m"
  proof (rule ccontr)
    assume "\<not> k \<le> m"
    then have "(2 :: nat) ^ m \<le> 2 ^ (k - 1)" "k \<noteq> 0" by (auto intro: power_increasing)
    then show False using k(2) assms by linarith
  qed
  then show "BucketCount n \<le> 2 ^ m" "0 < BucketCount n" using k(1) by (simp_all add: power_increasing)
qed

lemma pt_create_wf:
  assumes "n \<le> 2 ^ 31"
  shows "pt_wf (pt_create n sc)" "pt_idle (pt_create n sc)" "pt_tag (pt_create n sc) = Map.empty"
proof -
  let ?t = "pt_create n sc"
  have "BucketCount n - 1 < 2 ^ 31" using BucketCount_le [OF assms] by simp
  then have small: "pt_small ?t"
    using assms by (simp add: pt_small_def pt_create_def unat_of_nat take_bit_nat_eq_self)
  have none: "pt_bucket_of ?t f = pt_kNone" "pt_heads ?t b = pt_kNone" for f b by (simp_all add: pt_create_def)
  have "pt_bucket ?t b []" if "b \<le> pt_bucket_mask ?t" for b
    using bucket_small(2) [OF small that] by (simp add: pt_bucket_def none)
  then show "pt_wf ?t" using small unfolding pt_wf_def by (auto simp: none)
  show "pt_idle ?t" by (simp add: pt_idle_def pt_create_def)
  show "pt_tag ?t = Map.empty" by (simp add: pt_tag_def none fun_eq_iff)
qed

section \<open>Properties\<close>

text \<open>
  C8.  The page table, with its intrusive chains, bucket array and stripe locks, implements a
  map from frames to tags.  On a well-formed table with no writer inside, every operation
  returns, leaves the table well-formed and every stripe unlocked with an even sequence
  number.  \<open>Replace\<close> maps the frame to the new tag.  \<open>Remove\<close> unmaps it only if it has
  exactly that tag.  \<open>ReplaceUnlessLive\<close> either maps the frame, when no other frame under the
  new tag is live, or returns such a frame and unmaps the given one.  \<open>LookupFrameId\<close> finds
  a frame with the tag whenever there is one, and only such a frame.
\<close>

theorem page_table_is_a_map:
  assumes "pt_wf t" "pt_idle t" "unat f < pt_frame_capacity t"
  shows "(\<exists>t'. pt_Replace old new f t = Some t' \<and> pt_wf t' \<and> pt_idle t' \<and> pt_tag t' = (pt_tag t)(f \<mapsto> new)) \<and>
    (\<exists>t'. pt_Remove old f t = Some t' \<and> pt_wf t' \<and> pt_idle t' \<and>
       pt_tag t' = (if pt_tag t f = Some old then (pt_tag t)(f := None) else pt_tag t)) \<and>
    (\<exists>r t'. ReplaceUnlessLive o_tag new f live t = Some (r, t') \<and> pt_wf t' \<and> pt_idle t' \<and>
       (case r of
          None \<Rightarrow> pt_tag t' = (pt_tag t)(f \<mapsto> new) \<and>
            (\<forall>g. unat g < pt_frame_capacity t \<and> pt_tag t g = Some new \<and> g \<noteq> f \<longrightarrow> \<not> live g)
        | Some g \<Rightarrow> pt_tag t' = (pt_tag t)(f := None) \<and>
            unat g < pt_frame_capacity t \<and> pt_tag t g = Some new \<and> g \<noteq> f \<and> live g)) \<and>
    (\<exists>r. LookupFrameId t new = Some r \<and>
       (case r of
          None \<Rightarrow> \<forall>g. unat g < pt_frame_capacity t \<longrightarrow> pt_tag t g \<noteq> Some new
        | Some g \<Rightarrow> unat g < pt_frame_capacity t \<and> pt_tag t g = Some new))"
proof (intro conjI)
  show "\<exists>t'. pt_Replace old new f t = Some t' \<and> pt_wf t' \<and> pt_idle t' \<and> pt_tag t' = (pt_tag t)(f \<mapsto> new)"
    using pt_Replace_map [OF assms, of old new] by metis
  show "\<exists>t'. pt_Remove old f t = Some t' \<and> pt_wf t' \<and> pt_idle t' \<and>
       pt_tag t' = (if pt_tag t f = Some old then (pt_tag t)(f := None) else pt_tag t)"
    using pt_Remove_map [OF assms, of old] by metis
  show "\<exists>r t'. ReplaceUnlessLive o_tag new f live t = Some (r, t') \<and> pt_wf t' \<and> pt_idle t' \<and>
       (case r of
          None \<Rightarrow> pt_tag t' = (pt_tag t)(f \<mapsto> new) \<and>
            (\<forall>g. unat g < pt_frame_capacity t \<and> pt_tag t g = Some new \<and> g \<noteq> f \<longrightarrow> \<not> live g)
        | Some g \<Rightarrow> pt_tag t' = (pt_tag t)(f := None) \<and>
            unat g < pt_frame_capacity t \<and> pt_tag t g = Some new \<and> g \<noteq> f \<and> live g)"
    by (rule ReplaceUnlessLive_map [OF assms, of o_tag new live]) (auto split: option.splits)
  show "\<exists>r. LookupFrameId t new = Some r \<and>
       (case r of
          None \<Rightarrow> \<forall>g. unat g < pt_frame_capacity t \<longrightarrow> pt_tag t g \<noteq> Some new
        | Some g \<Rightarrow> unat g < pt_frame_capacity t \<and> pt_tag t g = Some new)"
    by (rule LookupFrameId_map [OF assms(1,2)])
qed

lemma page_table_is_a_map_witness:
  "\<exists>t'. pt_Replace emptyTag \<lparr>bt_file_id = 1, bt_block_id = 7\<rparr> 3 (pt_create 4 2) = Some t' \<and> pt_wf t' \<and>
     pt_idle t' \<and> pt_tag t' = [3 \<mapsto> \<lparr>bt_file_id = 1, bt_block_id = 7\<rparr>]"
  using page_table_is_a_map [of "pt_create 4 2" 3 emptyTag "\<lparr>bt_file_id = 1, bt_block_id = 7\<rparr>"]
    pt_create_wf [of 4 2]
  by (simp add: pt_create_def)

end
