(* ===== verification/Replacer_Spec.thy ===== *)
theory Replacer_Spec
  imports Prelude "HOL-Library.Monad_Syntax"
begin

text \<open>
  \<^verbatim>\<open>replacer/replacer.h\<close>: the interface of a replacement policy, as a record of operations
  over the policy's state, and its contract, as a locale that every policy interprets.  The
  first argument of an operation is the calling thread, which the policies that batch
  accesses use to choose a slot.  An operation that does not return is \<open>None\<close>.
\<close>

record 's Replacer =
  rp_RecordAccess :: "nat \<Rightarrow> FrameId \<Rightarrow> 's \<Rightarrow> 's option"
  rp_RecordLoad :: "nat \<Rightarrow> FrameId \<Rightarrow> 's \<Rightarrow> 's option"
  rp_Victim :: "(FrameId \<Rightarrow> bool) \<Rightarrow> 's \<Rightarrow> (FrameId option \<times> 's) option"
  rp_Remove :: "nat \<Rightarrow> FrameId \<Rightarrow> 's \<Rightarrow> 's option"

datatype rp_call =
    CallAccess nat FrameId
  | CallLoad nat FrameId
  | CallRemove nat FrameId
  | CallVictim "FrameId \<Rightarrow> bool"

fun rp_step :: "'s Replacer \<Rightarrow> rp_call \<Rightarrow> 's \<Rightarrow> 's option" where
  "rp_step R (CallAccess t f) s = rp_RecordAccess R t f s"
| "rp_step R (CallLoad t f) s = rp_RecordLoad R t f s"
| "rp_step R (CallRemove t f) s = rp_Remove R t f s"
| "rp_step R (CallVictim probe) s = map_option snd (rp_Victim R probe s)"

fun rp_run :: "'s Replacer \<Rightarrow> rp_call list \<Rightarrow> 's \<Rightarrow> 's option" where
  "rp_run R [] s = Some s"
| "rp_run R (c # cs) s = rp_step R c s \<bind> rp_run R cs"

text \<open>The frames a policy for \<open>n\<close> frames has to track after a history of calls.\<close>

fun rp_track :: "nat \<Rightarrow> rp_call \<Rightarrow> FrameId set \<Rightarrow> FrameId set" where
  "rp_track n (CallLoad t f) T = (if unat f < n then insert f T else T)"
| "rp_track n (CallRemove t f) T = T - {f}"
| "rp_track n (CallAccess t f) T = T"
| "rp_track n (CallVictim probe) T = T"

fun rp_tracked :: "nat \<Rightarrow> rp_call list \<Rightarrow> FrameId set \<Rightarrow> FrameId set" where
  "rp_tracked n [] T = T"
| "rp_tracked n (c # cs) T = rp_tracked n cs (rp_track n c T)"

text \<open>
  The contract.  A policy keeps its invariant and the set of frames it tracks; it nominates
  only a tracked frame that the probe calls evictable, and, when \<open>ready\<close> holds, fails to
  nominate only if there is none.
\<close>

locale replacer =
  fixes R :: "'s Replacer"
    and n :: nat
    and inv :: "'s \<Rightarrow> bool"
    and tracked :: "'s \<Rightarrow> FrameId set"
    and ready :: "'s \<Rightarrow> bool"
  assumes access: "inv s \<Longrightarrow> \<exists>s'. rp_RecordAccess R t f s = Some s' \<and> inv s' \<and> tracked s' = tracked s"
    and load: "inv s \<Longrightarrow> \<exists>s'. rp_RecordLoad R t f s = Some s' \<and> inv s' \<and>
       tracked s' = (if unat f < n then insert f (tracked s) else tracked s)"
    and remove: "inv s \<Longrightarrow> \<exists>s'. rp_Remove R t f s = Some s' \<and> inv s' \<and> tracked s' = tracked s - {f}"
    and victim: "inv s \<Longrightarrow> \<exists>r s'. rp_Victim R probe s = Some (r, s') \<and> inv s' \<and> tracked s' = tracked s \<and>
       (case r of None \<Rightarrow> ready s \<longrightarrow> (\<forall>f \<in> tracked s. \<not> probe f)
        | Some f \<Rightarrow> f \<in> tracked s \<and> probe f)"
begin

lemma step_ok:
  assumes "inv s"
  shows "\<exists>s'. rp_step R c s = Some s' \<and> inv s' \<and> tracked s' = rp_track n c (tracked s)"
proof (cases c)
  case (CallAccess t f)
  obtain s' where "rp_RecordAccess R t f s = Some s'" "inv s'" "tracked s' = tracked s"
    using access [OF assms, of t f] by blast
  then show ?thesis using CallAccess by simp
next
  case (CallLoad t f)
  obtain s' where "rp_RecordLoad R t f s = Some s'" "inv s'"
    "tracked s' = (if unat f < n then insert f (tracked s) else tracked s)"
    using load [OF assms, of t f] by blast
  then show ?thesis using CallLoad by simp
next
  case (CallRemove t f)
  obtain s' where "rp_Remove R t f s = Some s'" "inv s'" "tracked s' = tracked s - {f}"
    using remove [OF assms, of t f] by blast
  then show ?thesis using CallRemove by simp
next
  case (CallVictim probe)
  obtain r s' where "rp_Victim R probe s = Some (r, s')" "inv s'" "tracked s' = tracked s"
    using victim [OF assms, of probe] by blast
  then show ?thesis using CallVictim by simp
qed

lemma run_ok: "inv s \<Longrightarrow> \<exists>s'. rp_run R cs s = Some s' \<and> inv s' \<and> tracked s' = rp_tracked n cs (tracked s)"
proof (induction cs arbitrary: s)
  case Nil
  then show ?case by simp
next
  case (Cons c cs)
  obtain s1 where s1: "rp_step R c s = Some s1" "inv s1" "tracked s1 = rp_track n c (tracked s)"
    using step_ok [OF Cons.prems] by blast
  then show ?case using Cons.IH [OF s1(2)] by simp
qed

text \<open>Whatever was called before, the nominated frame is loaded, not removed, and evictable.\<close>

lemma victim_after_run:
  assumes "inv s" "tracked s = {}"
  shows "\<exists>s' r s''. rp_run R cs s = Some s' \<and> rp_Victim R probe s' = Some (r, s'') \<and>
    (case r of None \<Rightarrow> ready s' \<longrightarrow> (\<forall>f \<in> rp_tracked n cs {}. \<not> probe f)
     | Some f \<Rightarrow> f \<in> rp_tracked n cs {} \<and> probe f)"
proof -
  obtain s' where s': "rp_run R cs s = Some s'" "inv s'" "tracked s' = rp_tracked n cs {}"
    using run_ok [OF assms(1), of cs] unfolding assms(2) by blast
  show ?thesis using victim [OF s'(2), of probe] s'(1) unfolding s'(3) by blast
qed

end

end
