(* ===== verification/Clock_Replacers.thy ===== *)
theory Clock_Replacers
  imports Replacer_Spec
begin

text \<open>
  \<^verbatim>\<open>replacer/clock_replacer.cc\<close> and \<^verbatim>\<open>clock_sweep_replacer.cc\<close>: a hand that runs over the
  frames and lowers a small number per frame until it finds an evictable frame where the
  number is used up.  The hand is a 64-bit counter that wraps; a pass is complete when the
  counter does not wrap inside it.
\<close>

section \<open>Clock\<close>

definition ck_kUntracked :: u8 where "ck_kUntracked = 0"
definition ck_kClear :: u8 where "ck_kClear = 1"
definition ck_kReferenced :: u8 where "ck_kReferenced = 2"

record ClockState =
  ck_capacity :: nat
  ck_hand :: size_t
  ck_state :: "FrameId \<Rightarrow> u8"

definition clock_create :: "nat \<Rightarrow> ClockState" where
  "clock_create capacity = \<lparr>ck_capacity = capacity, ck_hand = 0, ck_state = (\<lambda>_. ck_kUntracked)\<rparr>"

definition clock_RecordAccess :: "nat \<Rightarrow> FrameId \<Rightarrow> ClockState \<Rightarrow> ClockState" where
  "clock_RecordAccess t frame_id s =
     (if unat frame_id \<ge> ck_capacity s then s
      else if ck_state s frame_id = ck_kClear then s\<lparr>ck_state := (ck_state s)(frame_id := ck_kReferenced)\<rparr>
      else s)"

definition clock_RecordLoad :: "nat \<Rightarrow> FrameId \<Rightarrow> ClockState \<Rightarrow> ClockState" where
  "clock_RecordLoad t frame_id s =
     (if unat frame_id \<ge> ck_capacity s then s
      else s\<lparr>ck_state := (ck_state s)(frame_id := ck_kReferenced)\<rparr>)"

text \<open>The first argument is the number of iterations left.\<close>

fun clock_scan :: "nat \<Rightarrow> (FrameId \<Rightarrow> bool) \<Rightarrow> ClockState \<Rightarrow> FrameId option \<times> ClockState" where
  "clock_scan 0 probe s = (None, s)"
| "clock_scan (Suc left) probe s =
     (let candidate = word_of_nat (unat (ck_hand s) mod ck_capacity s);
          s = s\<lparr>ck_hand := ck_hand s + 1\<rparr>;
          observed = ck_state s candidate
      in if observed = ck_kUntracked \<or> \<not> probe candidate then clock_scan left probe s
         else if observed = ck_kReferenced
         then clock_scan left probe (s\<lparr>ck_state := (ck_state s)(candidate := ck_kClear)\<rparr>)
         else (Some candidate, s))"

definition clock_Victim :: "(FrameId \<Rightarrow> bool) \<Rightarrow> ClockState \<Rightarrow> FrameId option \<times> ClockState" where
  "clock_Victim probe s = (if ck_capacity s = 0 then (None, s) else clock_scan (2 * ck_capacity s) probe s)"

definition clock_Remove :: "nat \<Rightarrow> FrameId \<Rightarrow> ClockState \<Rightarrow> ClockState" where
  "clock_Remove t frame_id s =
     (if unat frame_id \<ge> ck_capacity s then s
      else s\<lparr>ck_state := (ck_state s)(frame_id := ck_kUntracked)\<rparr>)"

definition ClockReplacer :: "ClockState Replacer" where
  "ClockReplacer = \<lparr>rp_RecordAccess = (\<lambda>t f s. Some (clock_RecordAccess t f s)),
      rp_RecordLoad = (\<lambda>t f s. Some (clock_RecordLoad t f s)),
     rp_Victim = (\<lambda>probe s. Some (clock_Victim probe s)), rp_Remove = (\<lambda>t f s. Some (clock_Remove t f s))\<rparr>"

section \<open>Clock sweep\<close>

definition cs_kMaxUsageCount :: u8 where "cs_kMaxUsageCount = 5"
definition cs_kUntracked :: u8 where "cs_kUntracked = 0xFF"

record ClockSweepState =
  cs_capacity :: nat
  cs_hand :: size_t
  cs_usage_count :: "FrameId \<Rightarrow> u8"

definition sweep_create :: "nat \<Rightarrow> ClockSweepState" where
  "sweep_create capacity = \<lparr>cs_capacity = capacity, cs_hand = 0, cs_usage_count = (\<lambda>_. cs_kUntracked)\<rparr>"

text \<open>
  A weak exchange may fail although the value is unchanged; the flag says that it does.
\<close>

definition sweep_RecordAccess :: "bool \<Rightarrow> nat \<Rightarrow> FrameId \<Rightarrow> ClockSweepState \<Rightarrow> ClockSweepState" where
  "sweep_RecordAccess spurious t frame_id s =
     (if unat frame_id \<ge> cs_capacity s then s
      else
        let observed = cs_usage_count s frame_id
        in if observed \<ge> cs_kMaxUsageCount \<or> spurious then s
           else s\<lparr>cs_usage_count := (cs_usage_count s)(frame_id := observed + 1)\<rparr>)"

definition sweep_RecordLoad :: "nat \<Rightarrow> FrameId \<Rightarrow> ClockSweepState \<Rightarrow> ClockSweepState" where
  "sweep_RecordLoad t frame_id s =
     (if unat frame_id \<ge> cs_capacity s then s
      else s\<lparr>cs_usage_count := (cs_usage_count s)(frame_id := 1)\<rparr>)"

fun sweep_scan ::
    "(nat \<Rightarrow> bool) \<Rightarrow> nat \<Rightarrow> (FrameId \<Rightarrow> bool) \<Rightarrow> ClockSweepState \<Rightarrow> FrameId option \<times> ClockSweepState" where
  "sweep_scan spurious 0 probe s = (None, s)"
| "sweep_scan spurious (Suc left) probe s =
     (let candidate = word_of_nat (unat (cs_hand s) mod cs_capacity s);
          s = s\<lparr>cs_hand := cs_hand s + 1\<rparr>;
          observed = cs_usage_count s candidate
      in if observed = cs_kUntracked \<or> \<not> probe candidate then sweep_scan spurious left probe s
         else if observed > 0
         then sweep_scan spurious left probe
           (if spurious left then s
            else s\<lparr>cs_usage_count := (cs_usage_count s)(candidate := observed - 1)\<rparr>)
         else (Some candidate, s))"

definition sweep_Victim ::
    "(nat \<Rightarrow> bool) \<Rightarrow> (FrameId \<Rightarrow> bool) \<Rightarrow> ClockSweepState \<Rightarrow> FrameId option \<times> ClockSweepState" where
  "sweep_Victim spurious probe s =
     (if cs_capacity s = 0 then (None, s)
      else sweep_scan spurious ((unat cs_kMaxUsageCount + 1) * cs_capacity s) probe s)"

definition sweep_Remove :: "nat \<Rightarrow> FrameId \<Rightarrow> ClockSweepState \<Rightarrow> ClockSweepState" where
  "sweep_Remove t frame_id s =
     (if unat frame_id \<ge> cs_capacity s then s
      else s\<lparr>cs_usage_count := (cs_usage_count s)(frame_id := cs_kUntracked)\<rparr>)"

definition ClockSweepReplacer :: "(nat \<Rightarrow> bool) \<Rightarrow> ClockSweepState Replacer" where
  "ClockSweepReplacer spurious = \<lparr>rp_RecordAccess = (\<lambda>t f s. Some (sweep_RecordAccess (spurious 0) t f s)),
     rp_RecordLoad = (\<lambda>t f s. Some (sweep_RecordLoad t f s)),
     rp_Victim = (\<lambda>probe s. Some (sweep_Victim spurious probe s)),
     rp_Remove = (\<lambda>t f s. Some (sweep_Remove t f s))\<rparr>"

section \<open>A hand that lowers numbers\<close>

text \<open>
  Both scans are one scan: \<open>lower\<close> gives the new number of an evictable frame, or nothing if
  the frame is nominated.
\<close>

fun hand_scan ::
    "u8 \<Rightarrow> (nat \<Rightarrow> u8 \<Rightarrow> u8 option) \<Rightarrow> nat \<Rightarrow> nat \<Rightarrow> (FrameId \<Rightarrow> bool) \<Rightarrow> size_t \<Rightarrow> (FrameId \<Rightarrow> u8)
      \<Rightarrow> FrameId option \<times> size_t \<times> (FrameId \<Rightarrow> u8)" where
  "hand_scan un lower cap 0 probe hand a = (None, hand, a)"
| "hand_scan un lower cap (Suc left) probe hand a =
     (let c = word_of_nat (unat hand mod cap)
      in if a c = un \<or> \<not> probe c then hand_scan un lower cap left probe (hand + 1) a
         else case lower left (a c) of
           Some v \<Rightarrow> hand_scan un lower cap left probe (hand + 1) (a(c := v))
         | None \<Rightarrow> (Some c, hand + 1, a))"

definition clock_lower :: "nat \<Rightarrow> u8 \<Rightarrow> u8 option" where
  "clock_lower left v = (if v = ck_kReferenced then Some ck_kClear else None)"

definition sweep_lower :: "(nat \<Rightarrow> bool) \<Rightarrow> nat \<Rightarrow> u8 \<Rightarrow> u8 option" where
  "sweep_lower spurious left v = (if v > 0 then Some (if spurious left then v else v - 1) else None)"

lemma clock_scan_hand:
  "clock_scan n probe s =
     (case hand_scan ck_kUntracked clock_lower (ck_capacity s) n probe (ck_hand s) (ck_state s) of
        (r, h, a) \<Rightarrow> (r, s\<lparr>ck_hand := h, ck_state := a\<rparr>))"
  by (induction n arbitrary: s) (simp_all add: Let_def clock_lower_def)

lemma sweep_scan_hand:
  "sweep_scan spurious n probe s =
     (case hand_scan cs_kUntracked (sweep_lower spurious) (cs_capacity s) n probe (cs_hand s) (cs_usage_count s) of
        (r, h, a) \<Rightarrow> (r, s\<lparr>cs_hand := h, cs_usage_count := a\<rparr>))"
  by (induction n arbitrary: s) (simp_all add: Let_def sweep_lower_def)

lemma candidate_in_range: "0 < cap \<Longrightarrow> cap \<le> 4294967296 \<Longrightarrow> unat (word_of_nat (m mod cap) :: FrameId) < cap"
  using unat_frame_id [of "m mod cap"] mod_less_divisor [of cap m] by linarith

lemma hand_scan_sound:
  assumes "hand_scan un lower cap n probe h a = (r, h', a')" "0 < cap" "cap \<le> 4294967296"
    and keep: "\<And>l v u. lower l v = Some u \<Longrightarrow> v \<noteq> un \<Longrightarrow> u \<noteq> un"
  shows "(a' f = un) = (a f = un)" and "r = Some c \<Longrightarrow> unat c < cap \<and> a c \<noteq> un \<and> probe c"
  using assms(1)
proof (induction n arbitrary: h a)
  case (Suc n)
  { case 1
    then show ?case using Suc.IH(1) keep by (auto simp: Let_def split: if_splits option.splits)
  next
    case (2 h a)
    let ?c = "word_of_nat (unat h mod cap) :: FrameId"
    show ?case
    proof (cases "a ?c = un \<or> \<not> probe ?c")
      case True
      then have "hand_scan un lower cap n probe (h + 1) a = (r, h', a')" using 2(2) by (auto simp: Let_def)
      then show ?thesis by (rule Suc.IH(2) [OF 2(1)])
    next
      case ev: False
      show ?thesis
      proof (cases "lower n (a ?c)")
        case None
        then have "c = ?c" using 2 ev by (simp add: Let_def)
        then show ?thesis using ev candidate_in_range [OF assms(2,3)] by simp
      next
        case (Some v)
        then have "hand_scan un lower cap n probe (h + 1) (a(?c := v)) = (r, h', a')"
          using 2(2) ev by (simp add: Let_def)
        from Suc.IH(2) [OF 2(1) this] show ?thesis using ev by (cases "c = ?c") simp_all
      qed
    qed
  }
qed simp_all

text \<open>
  Without a nomination, every visit to a frame that could have been nominated lowers its
  rank.
\<close>

lemma hand_scan_lowers:
  assumes "hand_scan un lower cap n probe h a = (None, h', a')" "unat h + n \<le> 2 ^ 64"
    and keep: "\<And>l v u. lower l v = Some u \<Longrightarrow> v \<noteq> un \<Longrightarrow> u \<noteq> un \<and> rank u < (rank v :: nat)"
    and f: "a f \<noteq> un" "probe f"
  shows "rank (a' f) + length (filter (\<lambda>i. word_of_nat ((unat h + i) mod cap) = f) [0..<n]) \<le> rank (a f)"
  using assms(1,2) f(1)
proof (induction n arbitrary: h a)
  case (Suc n)
  let ?c = "word_of_nat (unat h mod cap) :: FrameId"
  let ?F = "\<lambda>h n. length (filter (\<lambda>i. word_of_nat ((h + i) mod cap) = f) [0..<n])"
  have F: "?F (unat h) (Suc n) = (if ?c = f then 1 else 0) + ?F (Suc (unat h)) n"
    by (simp add: upt_conv_Cons map_Suc_upt [symmetric] filter_map o_def del: upt_Suc)
  show ?case
  proof (cases "n = 0")
    case True
    then show ?thesis using Suc.prems f(2) keep
      by (auto simp: Let_def F split: if_splits option.splits dest!: keep)
  next
    case False
    have h1: "unat (h + 1) = Suc (unat h)" "unat (h + 1) + n \<le> 2 ^ 64"
      using Suc.prems(2) False by (simp_all add: unat_word_ariths)
    show ?thesis
    proof (cases "a ?c = un \<or> \<not> probe ?c")
      case True
      then have "hand_scan un lower cap n probe (h + 1) a = (None, h', a')" "?c \<noteq> f"
        using Suc.prems(1,3) f(2) by (auto simp: Let_def)
      then show ?thesis using Suc.IH [of "h + 1" a] h1(2) Suc.prems(3) F h1(1) by simp
    next
      case ev: False
      then obtain v where v: "lower n (a ?c) = Some v"
        "hand_scan un lower cap n probe (h + 1) (a(?c := v)) = (None, h', a')"
        using Suc.prems(1) by (auto simp: Let_def split: option.splits)
      have lt: "v \<noteq> un" "rank v < rank (a ?c)" using keep [OF v(1)] ev by auto
      have nu: "(a(?c := v)) f \<noteq> un" using lt(1) Suc.prems(3) by simp
      have "rank (a' f) + ?F (Suc (unat h)) n \<le> rank ((a(?c := v)) f)"
        using Suc.IH [OF v(2) h1(2), OF nu] unfolding h1(1) .
      then show ?thesis using F lt(2) by (cases "f = ?c") simp_all
    qed
  qed
qed simp

lemma hand_scan_keeps:
  assumes "hand_scan un lower cap n probe h a = (r, h', a')" "Q (a f)"
    and keep: "\<And>l v u. lower l v = Some u \<Longrightarrow> v \<noteq> un \<Longrightarrow> Q v \<Longrightarrow> Q u"
  shows "Q (a' f)"
  using assms(1,2)
proof (induction n arbitrary: h a)
  case (Suc n)
  let ?c = "word_of_nat (unat h mod cap) :: FrameId"
  show ?case
  proof (cases "a ?c = un \<or> \<not> probe ?c")
    case True
    then have "hand_scan un lower cap n probe (h + 1) a = (r, h', a')" using Suc.prems(1) by (auto simp: Let_def)
    then show ?thesis using Suc.IH [of "h + 1" a] Suc.prems(2) by blast
  next
    case ev: False
    show ?thesis
    proof (cases "lower n (a ?c)")
      case None
      then show ?thesis using Suc.prems ev by (simp add: Let_def)
    next
      case (Some v)
      then have eq: "hand_scan un lower cap n probe (h + 1) (a(?c := v)) = (r, h', a')"
        using Suc.prems(1) ev by (simp add: Let_def)
      have "Q ((a(?c := v)) f)" using keep [OF Some] ev Suc.prems(2) by (cases "f = ?c") simp_all
      then show ?thesis by (rule Suc.IH [OF eq])
    qed
  qed
qed simp

text \<open>In \<open>k\<close> rounds of \<open>cap\<close> steps the hand visits every frame at least \<open>k\<close> times.\<close>

lemma hand_reaches: "x < cap \<Longrightarrow> \<exists>i < cap. (m + i) mod cap = (x :: nat)"
proof (intro exI conjI)
  assume x: "x < cap"
  let ?i = "(x + (cap - m mod cap)) mod cap"
  show "?i < cap" using x by simp
  have le: "m mod cap \<le> cap" using x by (simp add: mod_less_divisor less_imp_le)
  have "(m + ?i) mod cap = (m mod cap + (x + (cap - m mod cap))) mod cap" by (simp add: mod_simps)
  also have "m mod cap + (x + (cap - m mod cap)) = x + cap" using le by simp
  finally show "(m + ?i) mod cap = x" using x by simp
qed

lemma hand_visits:
  assumes "unat f < cap" "cap \<le> 4294967296"
  shows "k \<le> length (filter (\<lambda>i. word_of_nat ((m + i) mod cap) = (f :: FrameId)) [0..<k * cap])"
proof (induction k)
  case (Suc k)
  obtain i where i: "i < cap" "(m + k * cap + i) mod cap = unat f" using hand_reaches [OF assms(1)] by blast
  have "k * cap + i \<in> set (filter (\<lambda>i. word_of_nat ((m + i) mod cap) = f) [k * cap..<Suc k * cap])"
    using i by (simp add: add.assoc)
  then have "0 < length (filter (\<lambda>i. word_of_nat ((m + i) mod cap) = f) [k * cap..<Suc k * cap])"
    by (metis length_pos_if_in_set)
  moreover have "[0..<Suc k * cap] = [0..<k * cap] @ [k * cap..<Suc k * cap]"
    using upt_add_eq_append [of 0 "k * cap" cap] by (simp add: add.commute)
  ultimately show ?case using Suc.IH by (simp only: filter_append length_append)
qed simp

lemma hand_scan_complete:
  assumes "hand_scan un lower cap (k * cap) probe h a = (None, h', a')" "unat h + k * cap \<le> 2 ^ 64"
    and "\<And>l v u. lower l v = Some u \<Longrightarrow> v \<noteq> un \<Longrightarrow> u \<noteq> un \<and> rank u < (rank v :: nat)"
    and "unat f < cap" "cap \<le> 4294967296" "rank (a f) < k"
  shows "a f = un \<or> \<not> probe f"
proof (rule ccontr)
  assume "\<not> ?thesis"
  then have f: "a f \<noteq> un" "probe f" by auto
  from hand_scan_lowers [OF assms(1,2,3) f] hand_visits [OF assms(4,5), of k "unat h"] assms(6)
  show False by simp
qed

section \<open>The contract\<close>

definition clock_inv :: "nat \<Rightarrow> ClockState \<Rightarrow> bool" where
  "clock_inv n s \<longleftrightarrow> ck_capacity s = n \<and> n \<le> 4294967296"

definition clock_tracked :: "ClockState \<Rightarrow> FrameId set" where
  "clock_tracked s = {f. unat f < ck_capacity s \<and> ck_state s f \<noteq> ck_kUntracked}"

definition clock_ready :: "ClockState \<Rightarrow> bool" where
  "clock_ready s \<longleftrightarrow> unat (ck_hand s) + 2 * ck_capacity s \<le> 2 ^ 64"

lemmas ck_values = ck_kUntracked_def ck_kClear_def ck_kReferenced_def

lemma clock_victim:
  assumes "clock_inv n s"
  obtains r s' where "clock_Victim probe s = (r, s')" "clock_inv n s'" "clock_tracked s' = clock_tracked s"
    "case r of None \<Rightarrow> clock_ready s \<longrightarrow> (\<forall>f \<in> clock_tracked s. \<not> probe f) | Some f \<Rightarrow> f \<in> clock_tracked s \<and> probe f"
proof (cases "n = 0")
  case True
  then show thesis using that [of None s] assms
    by (simp add: clock_Victim_def clock_inv_def clock_tracked_def)
next
  case False
  have cap: "ck_capacity s = n" "n \<le> 4294967296" "0 < n" using assms False by (simp_all add: clock_inv_def)
  obtain r h a where sc: "hand_scan ck_kUntracked clock_lower n (2 * n) probe (ck_hand s) (ck_state s) = (r, h, a)"
    by (cases "hand_scan ck_kUntracked clock_lower n (2 * n) probe (ck_hand s) (ck_state s)")
  define s' where "s' = s\<lparr>ck_hand := h, ck_state := a\<rparr>"
  have keep: "clock_lower l v = Some u \<Longrightarrow> v \<noteq> ck_kUntracked \<Longrightarrow> u \<noteq> ck_kUntracked" for l v u
    by (auto simp: clock_lower_def ck_values split: if_splits)
  have rank: "clock_lower l v = Some u \<Longrightarrow> v \<noteq> ck_kUntracked \<Longrightarrow> u \<noteq> ck_kUntracked \<and>
      (if u = ck_kReferenced then 1 else 0) < (if v = ck_kReferenced then 1 else 0 :: nat)" for l v u
    by (auto simp: clock_lower_def ck_values split: if_splits)
  note sound = hand_scan_sound [OF sc cap(3,2) keep]
  have v: "clock_Victim probe s = (r, s')" using cap sc by (simp add: clock_Victim_def clock_scan_hand s'_def)
  have t: "clock_tracked s' = clock_tracked s" using sound(1) by (simp add: clock_tracked_def s'_def)
  have "\<not> probe f" if "r = None" "clock_ready s" "f \<in> clock_tracked s" for f
  proof -
    have "ck_state s f = ck_kUntracked \<or> \<not> probe f"
      by (rule hand_scan_complete [where rank = "\<lambda>v. if v = ck_kReferenced then 1 else 0", OF _ _ rank])
        (use that sc cap in \<open>auto simp: clock_ready_def clock_tracked_def\<close>)
    then show ?thesis using that(3) by (simp add: clock_tracked_def)
  qed
  then show thesis using that [OF v _ t] assms sound(2) cap
    by (auto simp: clock_inv_def clock_tracked_def s'_def split: option.splits)
qed

interpretation ck: replacer ClockReplacer n "clock_inv n" clock_tracked clock_ready for n
proof
  fix s t f probe
  assume inv: "clock_inv n s"
  show "\<exists>s'. rp_RecordAccess ClockReplacer t f s = Some s' \<and> clock_inv n s' \<and> clock_tracked s' = clock_tracked s"
    using inv by (auto simp: ClockReplacer_def clock_RecordAccess_def clock_inv_def clock_tracked_def ck_values)
  show "\<exists>s'. rp_RecordLoad ClockReplacer t f s = Some s' \<and> clock_inv n s' \<and>
      clock_tracked s' = (if unat f < n then insert f (clock_tracked s) else clock_tracked s)"
    using inv by (auto simp: ClockReplacer_def clock_RecordLoad_def clock_inv_def clock_tracked_def ck_values)
  show "\<exists>s'. rp_Remove ClockReplacer t f s = Some s' \<and> clock_inv n s' \<and> clock_tracked s' = clock_tracked s - {f}"
    using inv by (auto simp: ClockReplacer_def clock_Remove_def clock_inv_def clock_tracked_def)
  show "\<exists>r s'. rp_Victim ClockReplacer probe s = Some (r, s') \<and> clock_inv n s' \<and> clock_tracked s' = clock_tracked s \<and>
      (case r of None \<Rightarrow> clock_ready s \<longrightarrow> (\<forall>f \<in> clock_tracked s. \<not> probe f) | Some f \<Rightarrow> f \<in> clock_tracked s \<and> probe f)"
    by (rule clock_victim [OF inv, of probe]) (simp add: ClockReplacer_def)
qed

definition sweep_inv :: "nat \<Rightarrow> ClockSweepState \<Rightarrow> bool" where
  "sweep_inv n s \<longleftrightarrow> cs_capacity s = n \<and> n \<le> 4294967296 \<and>
     (\<forall>f. cs_usage_count s f = cs_kUntracked \<or> cs_usage_count s f \<le> cs_kMaxUsageCount)"

definition sweep_tracked :: "ClockSweepState \<Rightarrow> FrameId set" where
  "sweep_tracked s = {f. unat f < cs_capacity s \<and> cs_usage_count s f \<noteq> cs_kUntracked}"

definition sweep_ready :: "(nat \<Rightarrow> bool) \<Rightarrow> ClockSweepState \<Rightarrow> bool" where
  "sweep_ready spurious s \<longleftrightarrow> (\<forall>i. \<not> spurious i) \<and> unat (cs_hand s) + 6 * cs_capacity s \<le> 2 ^ 64"

lemmas cs_values = cs_kUntracked_def cs_kMaxUsageCount_def

lemma small_usage: "(v :: u8) \<le> cs_kMaxUsageCount \<Longrightarrow> unat v \<le> 5 \<and> v \<noteq> cs_kUntracked"
  by (auto simp: cs_values word_le_nat_alt)

lemma sweep_lower_less:
  assumes "sweep_lower spurious l v = Some u" "v \<noteq> cs_kUntracked"
  shows "unat u \<le> unat v" "u \<noteq> cs_kUntracked" "\<not> spurious l \<Longrightarrow> unat u < unat v"
proof -
  have v: "v > 0" "u = (if spurious l then v else v - 1)"
    using assms(1) by (auto simp: sweep_lower_def split: if_splits)
  have "unat (v - 1) = unat v - 1" "0 < unat v" using v(1) by (simp_all add: unat_sub_if' word_less_nat_alt)
  then show le: "unat u \<le> unat v" and "\<not> spurious l \<Longrightarrow> unat u < unat v" using v(2) by auto
  have "unat v < 256" using unsigned_less [of v, where 'a = nat] by simp
  moreover have "unat v \<noteq> 255" using assms(2) by (auto simp: cs_kUntracked_def word_unat_eq_iff)
  ultimately show "u \<noteq> cs_kUntracked" using le by (auto simp: cs_kUntracked_def)
qed

lemma sweep_victim:
  assumes "sweep_inv n s"
  obtains r s' where "sweep_Victim spurious probe s = (r, s')" "sweep_inv n s'" "sweep_tracked s' = sweep_tracked s"
    "case r of None \<Rightarrow> sweep_ready spurious s \<longrightarrow> (\<forall>f \<in> sweep_tracked s. \<not> probe f)
     | Some f \<Rightarrow> f \<in> sweep_tracked s \<and> probe f"
proof (cases "n = 0")
  case True
  then show thesis using that [of None s] assms
    by (simp add: sweep_Victim_def sweep_inv_def sweep_tracked_def)
next
  case False
  have cap: "cs_capacity s = n" "n \<le> 4294967296" "0 < n"
    and use: "cs_usage_count s f = cs_kUntracked \<or> cs_usage_count s f \<le> cs_kMaxUsageCount" for f
    using assms False by (simp_all add: sweep_inv_def)
  let ?Q = "\<lambda>v. v = cs_kUntracked \<or> v \<le> cs_kMaxUsageCount" and ?low = "sweep_lower spurious"
  obtain r h a where sc: "hand_scan cs_kUntracked ?low n (6 * n) probe (cs_hand s) (cs_usage_count s) = (r, h, a)"
    by (cases "hand_scan cs_kUntracked ?low n (6 * n) probe (cs_hand s) (cs_usage_count s)")
  define s' where "s' = s\<lparr>cs_hand := h, cs_usage_count := a\<rparr>"
  have keepQ: "?low l v = Some u \<Longrightarrow> v \<noteq> cs_kUntracked \<Longrightarrow> ?Q v \<Longrightarrow> ?Q u" for l v u
    using sweep_lower_less(1) [of spurious l v u] by (auto simp: word_le_nat_alt)
  note sound = hand_scan_sound [OF sc cap(3,2) sweep_lower_less(2)]
  have v: "sweep_Victim spurious probe s = (r, s')"
    using cap sc by (simp add: sweep_Victim_def sweep_scan_hand s'_def cs_kMaxUsageCount_def)
  have t: "sweep_tracked s' = sweep_tracked s" using sound(1) by (simp add: sweep_tracked_def s'_def)
  have i: "sweep_inv n s'"
    using hand_scan_keeps [OF sc, of ?Q, OF _ keepQ] use cap by (simp add: sweep_inv_def s'_def)
  have "\<not> probe f" if "r = None" "sweep_ready spurious s" "f \<in> sweep_tracked s" for f
  proof -
    have rank: "?low l v = Some u \<Longrightarrow> v \<noteq> cs_kUntracked \<Longrightarrow> u \<noteq> cs_kUntracked \<and> unat u < unat v" for l v u
      using sweep_lower_less(2,3) [of spurious l v u] that(2) by (simp add: sweep_ready_def)
    have "cs_usage_count s f \<le> cs_kMaxUsageCount" using use [of f] that(3) by (simp add: sweep_tracked_def)
    then have "unat (cs_usage_count s f) \<le> 5" using small_usage by blast
    then have few: "unat (cs_usage_count s f) < 6" by simp
    have "cs_usage_count s f = cs_kUntracked \<or> \<not> probe f"
      by (rule hand_scan_complete [where rank = unat, OF _ _ rank])
        (use that sc cap few in \<open>auto simp: sweep_ready_def sweep_tracked_def\<close>)
    then show ?thesis using that(3) by (simp add: sweep_tracked_def)
  qed
  then show thesis using that [OF v i t] sound(2) cap
    by (auto simp: sweep_tracked_def s'_def split: option.splits)
qed

interpretation sw: replacer "ClockSweepReplacer spurious" n "sweep_inv n" sweep_tracked "sweep_ready spurious"
  for spurious n
proof
  fix s t f probe
  assume inv: "sweep_inv n s"
  have up: "v + 1 \<le> cs_kMaxUsageCount \<and> v + 1 \<noteq> cs_kUntracked \<and> v \<noteq> cs_kUntracked" if "\<not> cs_kMaxUsageCount \<le> v" for v :: u8
  proof -
    have "unat v < 5" using that by (simp add: cs_values word_le_nat_alt)
    then have "unat (v + 1) = unat v + 1" by (simp add: unat_word_ariths)
    then show ?thesis using \<open>unat v < 5\<close> by (auto simp: cs_values word_le_nat_alt)
  qed
  show "\<exists>s'. rp_RecordAccess (ClockSweepReplacer spurious) t f s = Some s' \<and> sweep_inv n s' \<and>
      sweep_tracked s' = sweep_tracked s"
    using inv up by (auto simp: ClockSweepReplacer_def sweep_RecordAccess_def sweep_inv_def sweep_tracked_def Let_def)
  have one: "(1 :: u8) \<noteq> cs_kUntracked" "(1 :: u8) \<le> cs_kMaxUsageCount" by (simp_all add: cs_values)
  show "\<exists>s'. rp_RecordLoad (ClockSweepReplacer spurious) t f s = Some s' \<and> sweep_inv n s' \<and>
      sweep_tracked s' = (if unat f < n then insert f (sweep_tracked s) else sweep_tracked s)"
    using inv one by (auto simp: ClockSweepReplacer_def sweep_RecordLoad_def sweep_inv_def sweep_tracked_def)
  show "\<exists>s'. rp_Remove (ClockSweepReplacer spurious) t f s = Some s' \<and> sweep_inv n s' \<and>
      sweep_tracked s' = sweep_tracked s - {f}"
    using inv by (auto simp: ClockSweepReplacer_def sweep_Remove_def sweep_inv_def sweep_tracked_def)
  show "\<exists>r s'. rp_Victim (ClockSweepReplacer spurious) probe s = Some (r, s') \<and> sweep_inv n s' \<and>
      sweep_tracked s' = sweep_tracked s \<and>
      (case r of None \<Rightarrow> sweep_ready spurious s \<longrightarrow> (\<forall>f \<in> sweep_tracked s. \<not> probe f)
       | Some f \<Rightarrow> f \<in> sweep_tracked s \<and> probe f)"
    by (rule sweep_victim [OF inv, of spurious probe]) (simp add: ClockSweepReplacer_def)
qed

section \<open>Properties\<close>

lemma clock_create_ok: "n \<le> 4294967296 \<Longrightarrow> clock_inv n (clock_create n) \<and> clock_tracked (clock_create n) = {}"
  by (simp add: clock_inv_def clock_tracked_def clock_create_def)

lemma sweep_create_ok: "n \<le> 4294967296 \<Longrightarrow> sweep_inv n (sweep_create n) \<and> sweep_tracked (sweep_create n) = {}"
  by (simp add: sweep_inv_def sweep_tracked_def sweep_create_def)

text \<open>
  C9.  After any history of calls, the clock policy nominates only a frame that was loaded
  and not removed since and that the probe calls evictable.  If it nominates nothing, there
  is no such frame, unless the 64-bit hand wrapped around during the two passes.
\<close>

theorem clock_nominates:
  assumes "n \<le> 4294967296"
  shows "\<exists>s r s'. rp_run ClockReplacer calls (clock_create n) = Some s \<and>
    clock_Victim probe s = (r, s') \<and>
    (case r of
       None \<Rightarrow> unat (ck_hand s) + 2 * ck_capacity s \<le> 2 ^ 64 \<longrightarrow> (\<forall>f \<in> rp_tracked n calls {}. \<not> probe f)
     | Some f \<Rightarrow> f \<in> rp_tracked n calls {} \<and> probe f)"
  using ck.victim_after_run [of n "clock_create n" calls probe] clock_create_ok [OF assms]
  unfolding clock_ready_def by (simp only: ClockReplacer_def Replacer.simps option.inject)

lemma clock_nominates_witness:
  "rp_tracked 2 [CallLoad 0 0, CallLoad 0 1, CallAccess 0 1] {} = {0, 1} \<and>
   (\<exists>s r s'. rp_run ClockReplacer [CallLoad 0 0, CallLoad 0 1, CallAccess 0 1] (clock_create 2) = Some s \<and>
      clock_Victim (\<lambda>f. f = 1) s = (r, s') \<and> (\<forall>f. r = Some f \<longrightarrow> f = 1))"
  using clock_nominates [of 2 "[CallLoad 0 0, CallLoad 0 1, CallAccess 0 1]" "\<lambda>f. f = 1"]
  by (auto split: option.splits)

text \<open>
  C10.  The same for clock sweep, where moreover a usage count never exceeds
  \<open>kMaxUsageCount\<close>.  A nomination is missed only when the hand wraps or a weak exchange fails
  without a reason.
\<close>

theorem sweep_nominates:
  assumes "n \<le> 4294967296"
  shows "\<exists>s r s'. rp_run (ClockSweepReplacer spurious) calls (sweep_create n) = Some s \<and>
    (\<forall>f \<in> rp_tracked n calls {}. cs_usage_count s f \<le> cs_kMaxUsageCount) \<and>
    sweep_Victim spurious probe s = (r, s') \<and>
    (case r of
       None \<Rightarrow> (\<forall>i. \<not> spurious i) \<and> unat (cs_hand s) + 6 * cs_capacity s \<le> 2 ^ 64 \<longrightarrow>
         (\<forall>f \<in> rp_tracked n calls {}. \<not> probe f)
     | Some f \<Rightarrow> f \<in> rp_tracked n calls {} \<and> probe f)"
proof -
  obtain s where s: "rp_run (ClockSweepReplacer spurious) calls (sweep_create n) = Some s" "sweep_inv n s"
    "sweep_tracked s = rp_tracked n calls {}"
    using sw.run_ok [of n "sweep_create n" spurious calls] sweep_create_ok [OF assms] by auto
  obtain r s' where v: "sweep_Victim spurious probe s = (r, s')"
    "case r of None \<Rightarrow> sweep_ready spurious s \<longrightarrow> (\<forall>f \<in> sweep_tracked s. \<not> probe f)
     | Some f \<Rightarrow> f \<in> sweep_tracked s \<and> probe f"
    using sweep_victim [OF s(2), of spurious probe] by blast
  have "\<forall>f \<in> sweep_tracked s. cs_usage_count s f \<le> cs_kMaxUsageCount"
    using s(2) by (auto simp: sweep_inv_def sweep_tracked_def)
  with s v show ?thesis unfolding sweep_ready_def s(3) by blast
qed

lemma sweep_nominates_witness:
  "rp_tracked 2 [CallLoad 0 0, CallLoad 0 1, CallRemove 0 0] {} = {1} \<and>
   (\<exists>s. rp_run (ClockSweepReplacer (\<lambda>_. False)) [CallLoad 0 0, CallLoad 0 1, CallRemove 0 0] (sweep_create 2) = Some s \<and>
      cs_usage_count s 1 \<le> cs_kMaxUsageCount)"
  using sweep_nominates [of 2 "\<lambda>_. False" "[CallLoad 0 0, CallLoad 0 1, CallRemove 0 0]" "\<lambda>f. f = 1"]
  by auto

end
