(* ===== verification/Frame_List.thy ===== *)
theory Frame_List
  imports Prelude
begin

text \<open>
  \<^verbatim>\<open>replacer/frame_list.h\<close>: a doubly linked list over frame ids, and
  \<^verbatim>\<open>replacer/access_batcher.h\<close>: the buffers that collect accesses per thread before they are
  applied to a policy.  The list refines a HOL list, most recent end first.  A batcher
  delays accesses but, for one thread, never changes their order relative to its other
  calls.
\<close>

section \<open>Frame lists\<close>

definition fr_kNone :: FrameId where
  "fr_kNone = kInvalidFrameId"

record FrameList =
  fr_front :: FrameId
  fr_back :: FrameId
  fr_front_to_back :: "FrameId \<Rightarrow> FrameId"
  fr_back_to_front :: "FrameId \<Rightarrow> FrameId"
  fr_linked :: "FrameId \<Rightarrow> bool"

definition fr_empty :: FrameList where
  "fr_empty = \<lparr>fr_front = fr_kNone, fr_back = fr_kNone, fr_front_to_back = (\<lambda>_. fr_kNone),
     fr_back_to_front = (\<lambda>_. fr_kNone), fr_linked = (\<lambda>_. False)\<rparr>"

definition fr_Contains :: "FrameList \<Rightarrow> FrameId \<Rightarrow> bool" where
  "fr_Contains l frame_id = fr_linked l frame_id"

definition fr_TowardFront :: "FrameList \<Rightarrow> FrameId \<Rightarrow> FrameId" where
  "fr_TowardFront l frame_id = fr_back_to_front l frame_id"

definition fr_PushFront :: "FrameId \<Rightarrow> FrameList \<Rightarrow> FrameList" where
  "fr_PushFront frame_id l =
     (let l = l\<lparr>fr_front_to_back := (fr_front_to_back l)(frame_id := fr_front l),
                fr_back_to_front := (fr_back_to_front l)(frame_id := fr_kNone)\<rparr>;
          l = (if fr_front l \<noteq> fr_kNone
               then l\<lparr>fr_back_to_front := (fr_back_to_front l)(fr_front l := frame_id)\<rparr> else l);
          l = l\<lparr>fr_front := frame_id\<rparr>;
          l = (if fr_back l = fr_kNone then l\<lparr>fr_back := frame_id\<rparr> else l)
      in l\<lparr>fr_linked := (fr_linked l)(frame_id := True)\<rparr>)"

definition fr_Unlink :: "FrameId \<Rightarrow> FrameList \<Rightarrow> FrameList" where
  "fr_Unlink frame_id l =
     (let toward_back = fr_front_to_back l frame_id;
          toward_front = fr_back_to_front l frame_id;
          l = (if toward_front \<noteq> fr_kNone
               then l\<lparr>fr_front_to_back := (fr_front_to_back l)(toward_front := toward_back)\<rparr>
               else l\<lparr>fr_front := toward_back\<rparr>);
          l = (if toward_back \<noteq> fr_kNone
               then l\<lparr>fr_back_to_front := (fr_back_to_front l)(toward_back := toward_front)\<rparr>
               else l\<lparr>fr_back := toward_front\<rparr>)
      in l\<lparr>fr_linked := (fr_linked l)(frame_id := False)\<rparr>)"

definition fr_MoveToFront :: "FrameId \<Rightarrow> FrameList \<Rightarrow> FrameList" where
  "fr_MoveToFront frame_id l = fr_PushFront frame_id (fr_Unlink frame_id l)"

text \<open>
  The loop of the policies that use a list: from the back toward the front, the first frame
  that the probe accepts.
\<close>

definition fr_pick :: "(FrameId \<Rightarrow> bool) \<Rightarrow> FrameList \<Rightarrow> FrameId option option" where
  "fr_pick probe l = chain_find (fr_TowardFront l) fr_kNone probe (fr_back l)"

subsection \<open>Lists of frames\<close>

definition fr_list :: "FrameList \<Rightarrow> FrameId list \<Rightarrow> bool" where
  "fr_list l xs \<longleftrightarrow> chain (fr_front_to_back l) fr_kNone (fr_front l) xs \<and>
     chain (fr_back_to_front l) fr_kNone (fr_back l) (rev xs) \<and> (\<forall>f. fr_linked l f \<longleftrightarrow> f \<in> set xs)"

lemma fr_list_empty: "fr_list fr_empty []"
  by (simp add: fr_list_def fr_empty_def)

lemma fr_list_distinct: "fr_list l xs \<Longrightarrow> distinct xs"
  unfolding fr_list_def by (elim conjE) (rule chain_distinct)

lemma fr_Contains_list: "fr_list l xs \<Longrightarrow> fr_Contains l f \<longleftrightarrow> f \<in> set xs"
  by (simp add: fr_list_def fr_Contains_def)

lemma fr_pick_list: "fr_list l xs \<Longrightarrow> fr_pick probe l = Some (List.find probe (rev xs))"
proof -
  assume "fr_list l xs"
  then have "chain (fr_TowardFront l) fr_kNone (fr_back l) (rev xs)"
    by (simp add: fr_list_def fr_TowardFront_def [abs_def])
  then show ?thesis unfolding fr_pick_def by (rule chain_find_eq)
qed

lemma fr_list_PushFront:
  assumes l: "fr_list l xs" and f: "f \<notin> set xs" "f \<noteq> fr_kNone"
  shows "fr_list (fr_PushFront f l) (f # xs)"
proof (cases xs)
  case Nil
  then show ?thesis using assms by (simp add: fr_list_def fr_PushFront_def Let_def)
next
  case (Cons a ys)
  have ch: "chain (fr_front_to_back l) fr_kNone (fr_front l) xs"
    "chain (fr_back_to_front l) fr_kNone (fr_back l) (rev ys @ [a])" and lk: "\<And>f. fr_linked l f \<longleftrightarrow> f \<in> set xs"
    using l Cons by (simp_all add: fr_list_def)
  have front: "fr_front l = a" "a \<noteq> fr_kNone" using ch(1) Cons by simp_all
  have bk: "fr_back l \<noteq> fr_kNone" using chain_start_end_iff [OF ch(2)] by simp
  have "f \<noteq> a" using f(1) Cons by simp
  then have "chain ((fr_back_to_front l)(f := fr_kNone, a := f)) fr_kNone (fr_back l) (rev ys @ [a, f])"
    using chain_snoc [OF ch(2) _ f(2)] f(1) Cons by (simp add: fun_upd_twist)
  moreover have "chain ((fr_front_to_back l)(f := a)) fr_kNone f (f # xs)"
    using ch(1) front f by simp
  ultimately show ?thesis
    using front bk lk Cons by (simp add: fr_list_def fr_PushFront_def Let_def)
qed

text \<open>Taking one node out of one direction of the list.\<close>

lemma chain_unlink:
  assumes "chain nx z p (as @ f # bs)"
  defines "q \<equiv> (if as = [] then z else last as)"
  shows "chain (if q \<noteq> z then nx(q := nx f) else nx) z (if q \<noteq> z then p else nx f) (as @ bs)"
proof (cases as rule: rev_cases)
  case Nil
  then show ?thesis using assms(1) by (simp add: q_def)
next
  case (snoc as' a)
  then have "chain nx z p (as' @ a # f # bs)" using assms(1) by simp
  from chain_remove [OF this] chain_not_end [OF this] show ?thesis using snoc by (auto simp: q_def)
qed

lemma chain_successor:
  "chain nx z p (as @ f # bs) \<Longrightarrow> nx f = (if bs = [] then z else hd bs)"
  using chain_last [of nx z p as f] chain_next [of nx z p as f "hd bs" "tl bs"] by (cases bs) auto

lemma fr_list_Unlink:
  assumes l: "fr_list l (as @ f # bs)"
  shows "fr_list (fr_Unlink f l) (as @ bs)"
proof -
  have c: "chain (fr_front_to_back l) fr_kNone (fr_front l) (as @ f # bs)"
    "chain (fr_back_to_front l) fr_kNone (fr_back l) (rev bs @ f # rev as)"
    and lk: "\<And>g. fr_linked l g \<longleftrightarrow> g \<in> set (as @ f # bs)" using l by (simp_all add: fr_list_def)
  have n: "fr_front_to_back l f = (if rev bs = [] then fr_kNone else last (rev bs))"
    "fr_back_to_front l f = (if as = [] then fr_kNone else last as)"
    using chain_successor [OF c(1)] chain_successor [OF c(2)] by (simp_all add: last_rev hd_rev)
  note u = chain_unlink [OF c(1), folded n(2)] chain_unlink [OF c(2), folded n(1)]
  have "distinct (as @ f # bs)" using fr_list_distinct [OF l] .
  then have "(fr_linked l)(f := False) = (\<lambda>g. g \<in> set (as @ bs))" using lk by (auto simp: fun_eq_iff)
  then show ?thesis
    using u unfolding fr_list_def fr_Unlink_def Let_def
    by (cases "fr_back_to_front l f = fr_kNone"; cases "fr_front_to_back l f = fr_kNone") simp_all
qed

lemma fr_list_remove1: "fr_list l xs \<Longrightarrow> f \<in> set xs \<Longrightarrow> fr_list (fr_Unlink f l) (remove1 f xs)"
  using fr_list_Unlink fr_list_distinct remove1_append_mid by (metis split_list)

lemma fr_list_MoveToFront:
  assumes "fr_list l xs" "f \<in> set xs"
  shows "fr_list (fr_MoveToFront f l) (f # remove1 f xs)"
proof -
  have "f \<noteq> fr_kNone" using assms chain_not_end by (force simp: fr_list_def)
  moreover have "f \<notin> set (remove1 f xs)" using fr_list_distinct [OF assms(1)] by simp
  ultimately show ?thesis
    unfolding fr_MoveToFront_def using fr_list_remove1 [OF assms] by (intro fr_list_PushFront)
qed

section \<open>Access batches\<close>

definition kBatchSize :: nat where
  "kBatchSize = 64"

record AccessBatcher =
  ab_slot_count :: size_t
  ab_slots :: "size_t \<Rightarrow> FrameId list"

text \<open>The argument is \<^verbatim>\<open>std::thread::hardware_concurrency()\<close>.\<close>

definition ab_create :: "u32 \<Rightarrow> AccessBatcher" where
  "ab_create hardware_concurrency =
     \<lparr>ab_slot_count = word_of_nat (bit_ceil_from 1 (max 4 (unat (2 * max 1 hardware_concurrency)))),
      ab_slots = (\<lambda>_. [])\<rparr>"

definition ab_SlotIndex :: "AccessBatcher \<Rightarrow> nat \<Rightarrow> size_t" where
  "ab_SlotIndex b index = and (word_of_nat index) (ab_slot_count b - 1)"

definition ab_Record :: "nat \<Rightarrow> FrameId \<Rightarrow> (FrameId \<Rightarrow> 's \<Rightarrow> 's) \<Rightarrow> AccessBatcher \<Rightarrow> 's \<Rightarrow> AccessBatcher \<times> 's" where
  "ab_Record index frame_id apply b s =
     (let i = ab_SlotIndex b index;
          frames = ab_slots b i @ [frame_id]
      in if length frames < kBatchSize then (b\<lparr>ab_slots := (ab_slots b)(i := frames)\<rparr>, s)
         else (b\<lparr>ab_slots := (ab_slots b)(i := [])\<rparr>, fold apply frames s))"

definition ab_DrainCurrentThread :: "nat \<Rightarrow> (FrameId \<Rightarrow> 's \<Rightarrow> 's) \<Rightarrow> AccessBatcher \<Rightarrow> 's \<Rightarrow> AccessBatcher \<times> 's" where
  "ab_DrainCurrentThread index apply b s =
     (let i = ab_SlotIndex b index
      in (b\<lparr>ab_slots := (ab_slots b)(i := [])\<rparr>, fold apply (ab_slots b i) s))"

definition ab_DrainAll :: "(FrameId \<Rightarrow> 's \<Rightarrow> 's) \<Rightarrow> AccessBatcher \<Rightarrow> 's \<Rightarrow> AccessBatcher \<times> 's" where
  "ab_DrainAll apply b s =
     fold (\<lambda>i (b, s). (b\<lparr>ab_slots := (ab_slots b)(i := [])\<rparr>, fold apply (ab_slots b i) s))
       (map word_of_nat [0..<unat (ab_slot_count b)]) (b, s)"

subsection \<open>What draining does\<close>

text \<open>The accesses that \<open>DrainAll\<close> applies, in its order.\<close>

definition ab_pending :: "AccessBatcher \<Rightarrow> FrameId list" where
  "ab_pending b = concat (map (\<lambda>i. ab_slots b (word_of_nat i)) [0..<unat (ab_slot_count b)])"

lemma drain_fold:
  "distinct is \<Longrightarrow>
   fold (\<lambda>i (b, s). (b\<lparr>ab_slots := (ab_slots b)(i := [])\<rparr>, fold apply (ab_slots b i) s)) is (b, s) =
     (b\<lparr>ab_slots := \<lambda>i. if i \<in> set is then [] else ab_slots b i\<rparr>,
      fold apply (concat (map (ab_slots b) is)) s)"
proof (induction "is" arbitrary: b s)
  case (Cons j js)
  let ?b = "b\<lparr>ab_slots := (ab_slots b)(j := [])\<rparr>"
  have m: "map (ab_slots ?b) js = map (ab_slots b) js" using Cons.prems by auto
  have e: "(\<lambda>i. if i \<in> set js then [] else ab_slots ?b i) =
      (\<lambda>i. if i \<in> set (j # js) then [] else ab_slots b i)" by (auto simp: fun_eq_iff)
  have "?b\<lparr>ab_slots := x\<rparr> = b\<lparr>ab_slots := x\<rparr>" for x by simp
  then show ?case
    using Cons.IH [of ?b "fold apply (ab_slots b j) s"] Cons.prems
    unfolding fold_simps split_conv m e by (simp only: distinct.simps list.map concat.simps fold_append o_apply)
qed simp

lemma unat_word_of_nat_less:
  assumes "i < unat (c :: size_t)"
  shows "unat (word_of_nat i :: size_t) = i"
proof -
  have "unat c < 2 ^ 64" using unsigned_less [of c, where 'a = nat] by simp
  then have "i < 2 ^ 64" using assms by (rule less_trans [rotated])
  then show ?thesis by (simp add: unat_of_nat take_bit_nat_eq_self)
qed

lemma word_of_nat_distinct: "distinct (map (word_of_nat :: nat \<Rightarrow> size_t) [0..<unat (c :: size_t)])"
proof -
  have "inj_on (word_of_nat :: nat \<Rightarrow> size_t) {0..<unat c}"
    by (rule inj_on_inverseI [where g = unat]) (simp add: unat_word_of_nat_less [of _ c])
  then show ?thesis by (simp only: distinct_map distinct_upt set_upt simp_thms)
qed

lemma ab_DrainAll_state: "snd (ab_DrainAll apply b s) = fold apply (ab_pending b) s"
  unfolding ab_DrainAll_def drain_fold [OF word_of_nat_distinct] by (simp add: ab_pending_def o_def)

lemma ab_DrainAll_batcher:
  "fst (ab_DrainAll apply b s) =
     b\<lparr>ab_slots := \<lambda>i. if i \<in> set (map word_of_nat [0..<unat (ab_slot_count b)]) then [] else ab_slots b i\<rparr>"
  unfolding ab_DrainAll_def drain_fold [OF word_of_nat_distinct] by simp

subsection \<open>One thread\<close>

text \<open>Only the thread with index \<open>t\<close> has used the batcher.\<close>

definition ab_only :: "nat \<Rightarrow> AccessBatcher \<Rightarrow> bool" where
  "ab_only t b \<longleftrightarrow> ab_slot_count b \<noteq> 0 \<and> (\<forall>i. i \<noteq> ab_SlotIndex b t \<longrightarrow> ab_slots b i = [])"

lemma ab_SlotIndex_less:
  assumes "ab_slot_count b \<noteq> 0"
  shows "unat (ab_SlotIndex b t) < unat (ab_slot_count b)"
proof -
  have "ab_SlotIndex b t \<le> ab_slot_count b - 1" unfolding ab_SlotIndex_def by (rule word_and_le1)
  then have "unat (ab_SlotIndex b t) \<le> unat (ab_slot_count b - 1)" by (simp add: word_le_nat_alt)
  moreover have "unat (ab_slot_count b - 1) = unat (ab_slot_count b) - 1" "0 < unat (ab_slot_count b)"
    using assms by (simp_all add: unat_sub_if' unat_gt_0 Suc_leI)
  ultimately show ?thesis by linarith
qed

lemma concat_single:
  "k < n \<Longrightarrow> (\<And>i. i < n \<Longrightarrow> i \<noteq> k \<Longrightarrow> f i = []) \<Longrightarrow> concat (map f [0..<n]) = f k"
proof (induction n)
  case (Suc n)
  show ?case
  proof (cases "k = n")
    case True
    then have "map f [0..<n] = map (\<lambda>_. []) [0..<n]" using Suc.prems by auto
    then have "concat (map f [0..<n]) = []" by (simp add: concat_eq_Nil_conv)
    then show ?thesis using True by simp
  next
    case False
    then show ?thesis using Suc by simp
  qed
qed simp

lemma ab_pending_only:
  assumes "ab_only t b"
  shows "ab_pending b = ab_slots b (ab_SlotIndex b t)"
proof -
  let ?k = "unat (ab_SlotIndex b t)"
  have "ab_slots b (word_of_nat i) = []" if "i < unat (ab_slot_count b)" "i \<noteq> ?k" for i
    using that assms unat_word_of_nat_less [OF that(1)] unfolding ab_only_def by metis
  moreover have "?k < unat (ab_slot_count b)" using assms by (intro ab_SlotIndex_less) (simp add: ab_only_def)
  ultimately show ?thesis
    unfolding ab_pending_def using concat_single [of ?k _ "\<lambda>i. ab_slots b (word_of_nat i)"] by simp
qed

lemma ab_create_only: "ab_only t (ab_create hc)"
proof -
  let ?m = "max 4 (unat (2 * max 1 hc :: u32))"
  have m: "?m \<le> 2 ^ 32" using unsigned_less [of "2 * max 1 hc :: u32", where 'a = nat] by simp
  obtain k where k: "bit_ceil_from (2 ^ 0) ?m = 2 ^ k" "k = 0 \<or> 2 ^ (k - 1) < ?m"
    using bit_ceil_from_power [of 0 ?m] by blast
  have "k \<le> 33"
  proof (rule ccontr)
    assume "\<not> k \<le> 33"
    then have "32 \<le> k - 1" "k \<noteq> 0" by auto
    then have "(2 :: nat) ^ 32 \<le> 2 ^ (k - 1)" by (intro power_increasing) auto
    then show False using k(2) m \<open>k \<noteq> 0\<close> by linarith
  qed
  then have "(2 :: nat) ^ k < 2 ^ 64" by (intro power_strict_increasing) auto
  moreover define x where "x = bit_ceil_from 1 ?m"
  ultimately have "x < 2 ^ 64" "x \<noteq> 0" using k(1) by simp_all
  then have "unat (word_of_nat x :: size_t) \<noteq> 0" by (simp add: unat_of_nat take_bit_nat_eq_self)
  then have "ab_slot_count (ab_create hc) \<noteq> 0" unfolding x_def by (auto simp: ab_create_def)
  then show ?thesis by (simp add: ab_only_def) (simp add: ab_create_def)
qed

text \<open>
  A policy that applies accesses through a batcher: \<open>touch\<close> on its state implements
  \<open>atouch\<close> on an abstract state.  The abstract state is the one in which every access has
  already been applied.
\<close>

locale batched =
  fixes touch :: "FrameId \<Rightarrow> 's \<Rightarrow> 's"
    and rel :: "'s \<Rightarrow> 'a \<Rightarrow> bool"
    and atouch :: "FrameId \<Rightarrow> 'a \<Rightarrow> 'a"
  assumes touch_rel: "rel s a \<Longrightarrow> rel (touch f s) (atouch f a)"
begin

definition one_thread :: "nat \<Rightarrow> AccessBatcher \<Rightarrow> 's \<Rightarrow> 'a \<Rightarrow> bool" where
  "one_thread t b s a \<longleftrightarrow> ab_only t b \<and> (\<exists>a0. rel s a0 \<and> a = fold atouch (ab_slots b (ab_SlotIndex b t)) a0)"

lemma fold_rel: "rel s a \<Longrightarrow> rel (fold touch fs s) (fold atouch fs a)"
  by (induction fs arbitrary: s a) (simp_all add: touch_rel)

text \<open>Whatever threads did before: the applied accesses are some accesses.\<close>

lemma any_Record:
  assumes "rel s a"
  obtains fs where "rel (snd (ab_Record t f touch b s)) (fold atouch fs a)"
  using that [of "[]"] that [of "ab_slots b (ab_SlotIndex b t) @ [f]"] assms
    fold_rel [OF assms, of "ab_slots b (ab_SlotIndex b t) @ [f]"]
  by (cases "Suc (length (ab_slots b (ab_SlotIndex b t))) < kBatchSize") (simp_all add: ab_Record_def Let_def)

lemma any_DrainCurrentThread:
  "rel s a \<Longrightarrow> rel (snd (ab_DrainCurrentThread t touch b s))
     (fold atouch (ab_slots b (ab_SlotIndex b t)) a)"
  by (simp add: ab_DrainCurrentThread_def Let_def fold_rel)

lemma any_DrainAll: "rel s a \<Longrightarrow> rel (snd (ab_DrainAll touch b s)) (fold atouch (ab_pending b) a)"
  by (simp add: ab_DrainAll_state fold_rel)

lemma one_thread_Record:
  assumes "one_thread t b s a"
  shows "one_thread t (fst (ab_Record t f touch b s)) (snd (ab_Record t f touch b s)) (atouch f a)"
proof -
  obtain a0 where a0: "rel s a0" "a = fold atouch (ab_slots b (ab_SlotIndex b t)) a0" "ab_only t b"
    using assms by (auto simp: one_thread_def)
  have idx: "ab_SlotIndex (b\<lparr>ab_slots := x\<rparr>) t = ab_SlotIndex b t" for x by (simp add: ab_SlotIndex_def)
  show ?thesis
    using a0 fold_rel [OF a0(1), of "ab_slots b (ab_SlotIndex b t) @ [f]"]
    by (auto simp: ab_Record_def Let_def one_thread_def ab_only_def idx)
qed

lemma one_thread_DrainCurrentThread:
  assumes "one_thread t b s a"
  shows "rel (snd (ab_DrainCurrentThread t touch b s)) a"
    "ab_only t (fst (ab_DrainCurrentThread t touch b s))"
    "ab_slots (fst (ab_DrainCurrentThread t touch b s)) i = []"
  using assms fold_rel
  by (auto simp: ab_DrainCurrentThread_def one_thread_def ab_only_def ab_SlotIndex_def Let_def)

lemma one_thread_DrainAll:
  assumes "one_thread t b s a"
  shows "rel (snd (ab_DrainAll touch b s)) a" "ab_only t (fst (ab_DrainAll touch b s))"
    "ab_slots (fst (ab_DrainAll touch b s)) i = []"
proof -
  have only: "ab_only t b" using assms by (simp add: one_thread_def)
  show "rel (snd (ab_DrainAll touch b s)) a"
    unfolding ab_DrainAll_state ab_pending_only [OF only] using assms fold_rel by (auto simp: one_thread_def)
  have "ab_SlotIndex b t \<in> set (map word_of_nat [0..<unat (ab_slot_count b)])"
    using ab_SlotIndex_less [of b t] only by (auto simp: ab_only_def intro!: image_eqI [of _ _ "unat (ab_SlotIndex b t)"])
  then show e: "ab_slots (fst (ab_DrainAll touch b s)) i = []" for i
    using only unfolding ab_DrainAll_batcher ab_only_def by (cases "i = ab_SlotIndex b t") simp_all
  show "ab_only t (fst (ab_DrainAll touch b s))"
    using only e by (simp add: ab_only_def ab_DrainAll_batcher)
qed

lemma one_threadI: "rel s a \<Longrightarrow> ab_only t b \<Longrightarrow> (\<And>i. ab_slots b i = []) \<Longrightarrow> one_thread t b s a"
  by (auto simp: one_thread_def)

end

end
