(* ===== verification/Lru_Replacers.thy ===== *)
theory Lru_Replacers
  imports Replacer_Spec Frame_List
begin

text \<open>
  \<^verbatim>\<open>replacer/lru_replacer.cc\<close> and \<^verbatim>\<open>two_queue_replacer.cc\<close>: policies that keep frames in
  recency lists and batch their accesses.  Both satisfy the contract of a policy, and for a
  single thread both choose exactly what the textbook algorithm chooses on the order of the
  calls, whatever the batcher delayed.
\<close>

section \<open>LRU\<close>

record LruState =
  lru_capacity :: nat
  lru_batcher :: AccessBatcher
  lru_recency :: FrameList

definition lru_create :: "u32 \<Rightarrow> nat \<Rightarrow> LruState" where
  "lru_create hc capacity = \<lparr>lru_capacity = capacity, lru_batcher = ab_create hc, lru_recency = fr_empty\<rparr>"

definition lru_Touch :: "nat \<Rightarrow> FrameId \<Rightarrow> FrameList \<Rightarrow> FrameList" where
  "lru_Touch capacity frame_id recency =
     (if unat frame_id < capacity \<and> fr_Contains recency frame_id
      then fr_MoveToFront frame_id recency else recency)"

definition lru_RecordAccess :: "nat \<Rightarrow> FrameId \<Rightarrow> LruState \<Rightarrow> LruState" where
  "lru_RecordAccess t frame_id s =
     (case ab_Record t frame_id (lru_Touch (lru_capacity s)) (lru_batcher s) (lru_recency s) of
        (b, l) \<Rightarrow> s\<lparr>lru_batcher := b, lru_recency := l\<rparr>)"

definition lru_RecordLoad :: "nat \<Rightarrow> FrameId \<Rightarrow> LruState \<Rightarrow> LruState" where
  "lru_RecordLoad t frame_id s =
     (if unat frame_id \<ge> lru_capacity s then s
      else case ab_DrainCurrentThread t (lru_Touch (lru_capacity s)) (lru_batcher s) (lru_recency s) of
        (b, l) \<Rightarrow> s\<lparr>lru_batcher := b,
                   lru_recency := (if fr_Contains l frame_id then fr_MoveToFront frame_id l
                                   else fr_PushFront frame_id l)\<rparr>)"

definition lru_Victim :: "(FrameId \<Rightarrow> bool) \<Rightarrow> LruState \<Rightarrow> (FrameId option \<times> LruState) option" where
  "lru_Victim probe s =
     (case ab_DrainAll (lru_Touch (lru_capacity s)) (lru_batcher s) (lru_recency s) of
        (b, l) \<Rightarrow> map_option (\<lambda>r. (r, s\<lparr>lru_batcher := b, lru_recency := l\<rparr>)) (fr_pick probe l))"

definition lru_Remove :: "nat \<Rightarrow> FrameId \<Rightarrow> LruState \<Rightarrow> LruState" where
  "lru_Remove t frame_id s =
     (if unat frame_id \<ge> lru_capacity s then s
      else case ab_DrainCurrentThread t (lru_Touch (lru_capacity s)) (lru_batcher s) (lru_recency s) of
        (b, l) \<Rightarrow> s\<lparr>lru_batcher := b,
                   lru_recency := (if fr_Contains l frame_id then fr_Unlink frame_id l else l)\<rparr>)"

definition LruReplacer :: "LruState Replacer" where
  "LruReplacer = \<lparr>rp_RecordAccess = (\<lambda>t f s. Some (lru_RecordAccess t f s)),
     rp_RecordLoad = (\<lambda>t f s. Some (lru_RecordLoad t f s)), rp_Victim = lru_Victim,
     rp_Remove = (\<lambda>t f s. Some (lru_Remove t f s))\<rparr>"

section \<open>Two queues\<close>

record TwoQueueState =
  tq_capacity :: nat
  tq_batcher :: AccessBatcher
  tq_history :: FrameList
  tq_cache :: FrameList

definition tq_create :: "u32 \<Rightarrow> nat \<Rightarrow> TwoQueueState" where
  "tq_create hc capacity = \<lparr>tq_capacity = capacity, tq_batcher = ab_create hc, tq_history = fr_empty, tq_cache = fr_empty\<rparr>"

definition tq_Touch :: "nat \<Rightarrow> FrameId \<Rightarrow> FrameList \<times> FrameList \<Rightarrow> FrameList \<times> FrameList" where
  "tq_Touch capacity frame_id hc =
     (case hc of (history, cache) \<Rightarrow>
        if unat frame_id \<ge> capacity then (history, cache)
        else if fr_Contains history frame_id then (fr_Unlink frame_id history, fr_PushFront frame_id cache)
        else if fr_Contains cache frame_id then (history, fr_MoveToFront frame_id cache)
        else (history, cache))"

definition tq_Untrack :: "FrameId \<Rightarrow> FrameList \<times> FrameList \<Rightarrow> FrameList \<times> FrameList" where
  "tq_Untrack frame_id hc =
     (case hc of (history, cache) \<Rightarrow>
        (if fr_Contains history frame_id then fr_Unlink frame_id history else history,
         if fr_Contains cache frame_id then fr_Unlink frame_id cache else cache))"

definition tq_RecordAccess :: "nat \<Rightarrow> FrameId \<Rightarrow> TwoQueueState \<Rightarrow> TwoQueueState" where
  "tq_RecordAccess t frame_id s =
     (case ab_Record t frame_id (tq_Touch (tq_capacity s)) (tq_batcher s) (tq_history s, tq_cache s) of
        (b, history, cache) \<Rightarrow> s\<lparr>tq_batcher := b, tq_history := history, tq_cache := cache\<rparr>)"

definition tq_RecordLoad :: "nat \<Rightarrow> FrameId \<Rightarrow> TwoQueueState \<Rightarrow> TwoQueueState" where
  "tq_RecordLoad t frame_id s =
     (if unat frame_id \<ge> tq_capacity s then s
      else case ab_DrainCurrentThread t (tq_Touch (tq_capacity s)) (tq_batcher s) (tq_history s, tq_cache s) of
        (b, hc) \<Rightarrow> (case tq_Untrack frame_id hc of
          (history, cache) \<Rightarrow>
            s\<lparr>tq_batcher := b, tq_history := fr_PushFront frame_id history, tq_cache := cache\<rparr>))"

text \<open>\<^verbatim>\<open>PickFrom\<close> the history and, if it has none, the cache.\<close>

definition tq_Victim :: "(FrameId \<Rightarrow> bool) \<Rightarrow> TwoQueueState \<Rightarrow> (FrameId option \<times> TwoQueueState) option" where
  "tq_Victim probe s =
     (case ab_DrainAll (tq_Touch (tq_capacity s)) (tq_batcher s) (tq_history s, tq_cache s) of
        (b, history, cache) \<Rightarrow>
          let s = s\<lparr>tq_batcher := b, tq_history := history, tq_cache := cache\<rparr>
          in do {
            r \<leftarrow> fr_pick probe history;
            (case r of
               Some f \<Rightarrow> Some (Some f, s)
             | None \<Rightarrow> map_option (\<lambda>r. (r, s)) (fr_pick probe cache))
          })"

definition tq_Remove :: "nat \<Rightarrow> FrameId \<Rightarrow> TwoQueueState \<Rightarrow> TwoQueueState" where
  "tq_Remove t frame_id s =
     (if unat frame_id \<ge> tq_capacity s then s
      else case ab_DrainCurrentThread t (tq_Touch (tq_capacity s)) (tq_batcher s) (tq_history s, tq_cache s) of
        (b, hc) \<Rightarrow> (case tq_Untrack frame_id hc of
          (history, cache) \<Rightarrow> s\<lparr>tq_batcher := b, tq_history := history, tq_cache := cache\<rparr>))"

definition TwoQueueReplacer :: "TwoQueueState Replacer" where
  "TwoQueueReplacer = \<lparr>rp_RecordAccess = (\<lambda>t f s. Some (tq_RecordAccess t f s)),
     rp_RecordLoad = (\<lambda>t f s. Some (tq_RecordLoad t f s)), rp_Victim = tq_Victim,
     rp_Remove = (\<lambda>t f s. Some (tq_Remove t f s))\<rparr>"

section \<open>LRU: contract\<close>

definition lru_list :: "nat \<Rightarrow> FrameList \<Rightarrow> FrameId list \<Rightarrow> bool" where
  "lru_list n l xs \<longleftrightarrow> fr_list l xs \<and> (\<forall>f \<in> set xs. unat f < n) \<and> n \<le> 4294967295"

definition mtf :: "FrameId \<Rightarrow> FrameId list \<Rightarrow> FrameId list" where
  "mtf f xs = (if f \<in> set xs then f # remove1 f xs else xs)"

lemma set_move_front: "insert f (set (remove1 f xs)) = insert f (set xs)"
  by (induction xs) auto

lemma set_mtf [simp]: "set (mtf f xs) = set xs"
  using set_move_front [of f xs] by (auto simp: mtf_def)

lemma set_fold_mtf [simp]: "set (fold mtf fs xs) = set xs"
  by (induction fs arbitrary: xs) simp_all

lemma lru_Touch_list: "lru_list n l xs \<Longrightarrow> lru_list n (lru_Touch n f l) (mtf f xs)"
  unfolding lru_list_def using fr_list_MoveToFront [of l xs f] fr_Contains_list [of l xs f]
  by (auto simp: lru_Touch_def mtf_def simp del: set_mtf dest: set_remove1_subset [THEN subsetD])

interpretation lb: batched "lru_Touch n" "lru_list n" mtf for n
  by unfold_locales (rule lru_Touch_list)

lemma lru_list_front:
  assumes "lru_list n l xs" "unat f < n"
  shows "lru_list n (if fr_Contains l f then fr_MoveToFront f l else fr_PushFront f l) (f # remove1 f xs)"
proof -
  have l: "fr_list l xs" "n \<le> 4294967295" using assms(1) by (simp_all add: lru_list_def)
  have "f \<noteq> fr_kNone" using in_range_not_invalid [OF assms(2) l(2)] by (simp add: fr_kNone_def)
  then show ?thesis
    using assms fr_list_MoveToFront [OF l(1)] fr_list_PushFront [OF l(1)] fr_Contains_list [OF l(1), of f]
    by (auto simp: lru_list_def remove1_idem dest: set_remove1_subset [THEN subsetD])
qed

lemma lru_list_unlink:
  assumes "lru_list n l xs"
  shows "lru_list n (if fr_Contains l f then fr_Unlink f l else l) (remove1 f xs)"
proof -
  have l: "fr_list l xs" using assms(1) by (simp add: lru_list_def)
  then show ?thesis
    using assms fr_list_remove1 [OF l, of f] fr_Contains_list [OF l, of f]
    by (auto simp: lru_list_def remove1_idem dest: set_remove1_subset [THEN subsetD])
qed

definition lru_inv :: "nat \<Rightarrow> LruState \<Rightarrow> bool" where
  "lru_inv n s \<longleftrightarrow> lru_capacity s = n \<and> (\<exists>xs. lru_list n (lru_recency s) xs)"

definition lru_tracked :: "LruState \<Rightarrow> FrameId set" where
  "lru_tracked s = {f. fr_Contains (lru_recency s) f}"

lemma lru_invI: "lru_capacity s = n \<Longrightarrow> lru_list n (lru_recency s) xs \<Longrightarrow> lru_inv n s \<and> lru_tracked s = set xs"
  by (auto simp: lru_inv_def lru_tracked_def lru_list_def fr_Contains_list)

lemma lru_invE:
  assumes "lru_inv n s"
  obtains xs where "lru_capacity s = n" "lru_list n (lru_recency s) xs" "lru_tracked s = set xs"
  using assms lru_invI unfolding lru_inv_def by blast

lemma lru_access:
  assumes "lru_inv n s"
  shows "lru_inv n (lru_RecordAccess t f s) \<and> lru_tracked (lru_RecordAccess t f s) = lru_tracked s"
proof -
  obtain xs where xs: "lru_capacity s = n" "lru_list n (lru_recency s) xs" "lru_tracked s = set xs"
    using lru_invE [OF assms] .
  obtain fs where "lru_list n (snd (ab_Record t f (lru_Touch n) (lru_batcher s) (lru_recency s))) (fold mtf fs xs)"
    using lb.any_Record [OF xs(2)] .
  then show ?thesis
    using xs(1,3) lru_invI [of "lru_RecordAccess t f s" n "fold mtf fs xs"]
    by (simp add: lru_RecordAccess_def case_prod_beta)
qed

lemma lru_load:
  assumes "lru_inv n s"
  shows "lru_inv n (lru_RecordLoad t f s) \<and>
    lru_tracked (lru_RecordLoad t f s) = (if unat f < n then insert f (lru_tracked s) else lru_tracked s)"
proof (cases "unat f < n")
  case True
  obtain xs where xs: "lru_capacity s = n" "lru_list n (lru_recency s) xs" "lru_tracked s = set xs"
    using lru_invE [OF assms] .
  define ys where "ys = fold mtf (ab_slots (lru_batcher s) (ab_SlotIndex (lru_batcher s) t)) xs"
  have l: "lru_list n (snd (ab_DrainCurrentThread t (lru_Touch n) (lru_batcher s) (lru_recency s))) ys"
    unfolding ys_def by (rule lb.any_DrainCurrentThread [OF xs(2)])
  have "set (f # remove1 f ys) = insert f (set xs)" by (simp add: set_move_front ys_def)
  then show ?thesis
    using True xs(1,3) lru_list_front [OF l True] lru_invI [of "lru_RecordLoad t f s" n "f # remove1 f ys"]
    by (simp add: lru_RecordLoad_def case_prod_beta)
next
  case False
  then show ?thesis using assms by (auto simp: lru_RecordLoad_def lru_inv_def)
qed

lemma lru_remove:
  assumes "lru_inv n s"
  shows "lru_inv n (lru_Remove t f s) \<and> lru_tracked (lru_Remove t f s) = lru_tracked s - {f}"
proof -
  obtain xs where xs: "lru_capacity s = n" "lru_list n (lru_recency s) xs" "lru_tracked s = set xs"
    using lru_invE [OF assms] .
  show ?thesis
  proof (cases "unat f < n")
    case True
    define ys where "ys = fold mtf (ab_slots (lru_batcher s) (ab_SlotIndex (lru_batcher s) t)) xs"
    have l: "lru_list n (snd (ab_DrainCurrentThread t (lru_Touch n) (lru_batcher s) (lru_recency s))) ys"
      unfolding ys_def by (rule lb.any_DrainCurrentThread [OF xs(2)])
    have "distinct ys" using l fr_list_distinct unfolding lru_list_def by blast
    then have "set (remove1 f ys) = set xs - {f}" by (simp add: ys_def)
    then show ?thesis
      using True xs(1,3) lru_list_unlink [OF l, of f] lru_invI [of "lru_Remove t f s" n "remove1 f ys"]
      by (simp add: lru_Remove_def case_prod_beta)
  next
    case False
    then have "f \<notin> set xs" using xs(2) by (auto simp: lru_list_def)
    then show ?thesis using False assms xs by (simp add: lru_Remove_def)
  qed
qed

lemma lru_victim:
  assumes "lru_inv n s"
  obtains r s' where "lru_Victim probe s = Some (r, s')" "lru_inv n s'" "lru_tracked s' = lru_tracked s"
    "case r of None \<Rightarrow> \<forall>f \<in> lru_tracked s. \<not> probe f | Some f \<Rightarrow> f \<in> lru_tracked s \<and> probe f"
proof -
  obtain xs where xs: "lru_capacity s = n" "lru_list n (lru_recency s) xs" "lru_tracked s = set xs"
    using lru_invE [OF assms] .
  define d where "d = ab_DrainAll (lru_Touch n) (lru_batcher s) (lru_recency s)"
  define ys where "ys = fold mtf (ab_pending (lru_batcher s)) xs"
  define s' where "s' = s\<lparr>lru_batcher := fst d, lru_recency := snd d\<rparr>"
  have l: "lru_list n (snd d) ys"
    unfolding d_def ys_def by (rule lb.any_DrainAll [OF xs(2)])
  have "lru_Victim probe s = Some (List.find probe (rev ys), s')"
    using fr_pick_list [of "snd d" ys probe] l xs(1)
    by (simp add: lru_Victim_def d_def [symmetric] s'_def lru_list_def case_prod_beta)
  moreover have "lru_inv n s' \<and> lru_tracked s' = lru_tracked s"
    using lru_invI [of s' n ys] l xs(1,3) by (simp add: s'_def ys_def)
  moreover have "case List.find probe (rev ys) of None \<Rightarrow> \<forall>f \<in> lru_tracked s. \<not> probe f
     | Some f \<Rightarrow> f \<in> lru_tracked s \<and> probe f"
    using xs(3) find_SomeD [of probe "rev ys"] by (auto simp: ys_def find_None_iff split: option.splits)
  ultimately show thesis using that by blast
qed

interpretation lru: replacer LruReplacer n "lru_inv n" lru_tracked "\<lambda>_. True" for n
proof
  fix s t f probe
  assume inv: "lru_inv n s"
  show "\<exists>s'. rp_RecordAccess LruReplacer t f s = Some s' \<and> lru_inv n s' \<and> lru_tracked s' = lru_tracked s"
    using lru_access [OF inv] by (simp add: LruReplacer_def)
  show "\<exists>s'. rp_RecordLoad LruReplacer t f s = Some s' \<and> lru_inv n s' \<and>
      lru_tracked s' = (if unat f < n then insert f (lru_tracked s) else lru_tracked s)"
    using lru_load [OF inv] by (simp add: LruReplacer_def)
  show "\<exists>s'. rp_Remove LruReplacer t f s = Some s' \<and> lru_inv n s' \<and> lru_tracked s' = lru_tracked s - {f}"
    using lru_remove [OF inv] by (simp add: LruReplacer_def)
  show "\<exists>r s'. rp_Victim LruReplacer probe s = Some (r, s') \<and> lru_inv n s' \<and> lru_tracked s' = lru_tracked s \<and>
      (case r of None \<Rightarrow> True \<longrightarrow> (\<forall>f \<in> lru_tracked s. \<not> probe f) | Some f \<Rightarrow> f \<in> lru_tracked s \<and> probe f)"
    by (rule lru_victim [OF inv, of probe]) (simp add: LruReplacer_def split: option.splits)
qed

section \<open>Two queues: contract\<close>

definition tq_lists :: "nat \<Rightarrow> FrameList \<times> FrameList \<Rightarrow> FrameId list \<times> FrameId list \<Rightarrow> bool" where
  "tq_lists n l a \<longleftrightarrow> lru_list n (fst l) (fst a) \<and> lru_list n (snd l) (snd a) \<and> set (fst a) \<inter> set (snd a) = {}"

definition tq_touch :: "FrameId \<Rightarrow> FrameId list \<times> FrameId list \<Rightarrow> FrameId list \<times> FrameId list" where
  "tq_touch f a = (if f \<in> set (fst a) then (remove1 f (fst a), f # snd a) else (fst a, mtf f (snd a)))"

definition tq_members :: "FrameId list \<times> FrameId list \<Rightarrow> FrameId set" where
  "tq_members a = set (fst a) \<union> set (snd a)"

lemma lru_list_distinct: "lru_list n l xs \<Longrightarrow> distinct xs"
  using fr_list_distinct unfolding lru_list_def by blast

lemma lru_list_Contains: "lru_list n l xs \<Longrightarrow> fr_Contains l f \<longleftrightarrow> f \<in> set xs"
  unfolding lru_list_def using fr_Contains_list by blast

lemma lru_list_range: "lru_list n l xs \<Longrightarrow> f \<in> set xs \<Longrightarrow> unat f < n"
  by (simp add: lru_list_def)

lemma lru_list_push:
  "lru_list n l xs \<Longrightarrow> unat f < n \<Longrightarrow> f \<notin> set xs \<Longrightarrow> lru_list n (fr_PushFront f l) (f # xs)"
  using lru_list_front [of n l xs f] lru_list_Contains [of n l xs f] by (simp add: remove1_idem)

lemma lru_list_drop: "lru_list n l xs \<Longrightarrow> f \<in> set xs \<Longrightarrow> lru_list n (fr_Unlink f l) (remove1 f xs)"
  using lru_list_unlink [of n l xs f] lru_list_Contains [of n l xs f] by simp

lemma lru_list_move: "lru_list n l xs \<Longrightarrow> f \<in> set xs \<Longrightarrow> lru_list n (fr_MoveToFront f l) (mtf f xs)"
  using lru_list_front [of n l xs f] lru_list_Contains [of n l xs f] lru_list_range by (simp add: mtf_def)

lemma tq_Touch_lists:
  assumes "tq_lists n l a"
  shows "tq_lists n (tq_Touch n f l) (tq_touch f a)"
proof -
  have l: "lru_list n (fst l) (fst a)" "lru_list n (snd l) (snd a)" "set (fst a) \<inter> set (snd a) = {}"
    using assms by (simp_all add: tq_lists_def)
  note c = lru_list_Contains [OF l(1), of f] lru_list_Contains [OF l(2), of f]
  note r = lru_list_range [OF l(1), of f] lru_list_range [OF l(2), of f]
  show ?thesis
  proof (cases "f \<in> set (fst a)")
    case True
    then have "f \<notin> set (snd a)" "unat f < n" using l(3) r by auto
    moreover have "set (remove1 f (fst a)) = set (fst a) - {f}" using lru_list_distinct [OF l(1)] by simp
    ultimately show ?thesis
      using True c l(3) lru_list_drop [OF l(1) True] lru_list_push [OF l(2)]
      by (auto simp: tq_lists_def tq_Touch_def tq_touch_def case_prod_beta)
  next
    case False
    moreover have "f \<notin> set (snd a) \<Longrightarrow> mtf f (snd a) = snd a" by (simp add: mtf_def)
    ultimately show ?thesis
      using c l r lru_list_move [OF l(2), of f]
      by (cases "f \<in> set (snd a)") (simp_all add: tq_lists_def tq_Touch_def tq_touch_def case_prod_beta)
  qed
qed

interpretation tb: batched "tq_Touch n" "tq_lists n" tq_touch for n
  by unfold_locales (rule tq_Touch_lists)

lemma tq_touch_members [simp]: "tq_members (tq_touch f a) = tq_members a"
  using set_move_front [of f "fst a"] by (auto simp: tq_members_def tq_touch_def)

lemma tq_fold_members [simp]: "tq_members (fold tq_touch fs a) = tq_members a"
  by (induction fs arbitrary: a) simp_all

definition tq_untrack :: "FrameId \<Rightarrow> FrameId list \<times> FrameId list \<Rightarrow> FrameId list \<times> FrameId list" where
  "tq_untrack f a = (remove1 f (fst a), remove1 f (snd a))"

lemma tq_Untrack_lists:
  assumes "tq_lists n l a"
  shows "tq_lists n (tq_Untrack f l) (tq_untrack f a)" "tq_members (tq_untrack f a) = tq_members a - {f}"
proof -
  have l: "lru_list n (fst l) (fst a)" "lru_list n (snd l) (snd a)" "set (fst a) \<inter> set (snd a) = {}"
    using assms by (simp_all add: tq_lists_def)
  have d: "set (remove1 f (fst a)) = set (fst a) - {f}" "set (remove1 f (snd a)) = set (snd a) - {f}"
    using lru_list_distinct [OF l(1)] lru_list_distinct [OF l(2)] by simp_all
  show "tq_lists n (tq_Untrack f l) (tq_untrack f a)"
    using lru_list_unlink [OF l(1), of f] lru_list_unlink [OF l(2), of f] l(3) d
    by (auto simp: tq_lists_def tq_Untrack_def tq_untrack_def case_prod_beta)
  show "tq_members (tq_untrack f a) = tq_members a - {f}" using d by (auto simp: tq_members_def tq_untrack_def)
qed

lemma tq_push_lists:
  assumes "tq_lists n l a" "unat f < n" "f \<notin> tq_members a"
  shows "tq_lists n (fr_PushFront f (fst l), snd l) (f # fst a, snd a)"
  using assms lru_list_push [of n "fst l" "fst a" f] by (auto simp: tq_lists_def tq_members_def)

definition tq_inv :: "nat \<Rightarrow> TwoQueueState \<Rightarrow> bool" where
  "tq_inv n s \<longleftrightarrow> tq_capacity s = n \<and> (\<exists>a. tq_lists n (tq_history s, tq_cache s) a)"

definition tq_tracked :: "TwoQueueState \<Rightarrow> FrameId set" where
  "tq_tracked s = {f. fr_Contains (tq_history s) f \<or> fr_Contains (tq_cache s) f}"

lemma tq_invI:
  "tq_capacity s = n \<Longrightarrow> tq_lists n (tq_history s, tq_cache s) a \<Longrightarrow> tq_inv n s \<and> tq_tracked s = tq_members a"
  using lru_list_Contains [of n "tq_history s" "fst a"] lru_list_Contains [of n "tq_cache s" "snd a"]
  by (auto simp: tq_inv_def tq_tracked_def tq_lists_def tq_members_def)

lemma tq_invE:
  assumes "tq_inv n s"
  obtains a where "tq_capacity s = n" "tq_lists n (tq_history s, tq_cache s) a" "tq_tracked s = tq_members a"
  using assms tq_invI unfolding tq_inv_def by blast

lemma tq_access:
  assumes "tq_inv n s"
  shows "tq_inv n (tq_RecordAccess t f s) \<and> tq_tracked (tq_RecordAccess t f s) = tq_tracked s"
proof -
  obtain a where a: "tq_capacity s = n" "tq_lists n (tq_history s, tq_cache s) a" "tq_tracked s = tq_members a"
    using tq_invE [OF assms] .
  obtain fs where "tq_lists n (snd (ab_Record t f (tq_Touch n) (tq_batcher s) (tq_history s, tq_cache s)))
      (fold tq_touch fs a)"
    using tb.any_Record [OF a(2)] .
  then show ?thesis
    using a(1,3) tq_invI [of "tq_RecordAccess t f s" n "fold tq_touch fs a"]
    by (simp add: tq_RecordAccess_def case_prod_beta)
qed

lemma tq_drained:
  assumes "tq_lists n (tq_history s, tq_cache s) a"
  obtains a' where "tq_lists n (tq_Untrack f (snd (ab_DrainCurrentThread t (tq_Touch n) (tq_batcher s) (tq_history s, tq_cache s)))) a'"
    "tq_members a' = tq_members a - {f}"
proof -
  note d = tq_Untrack_lists [OF tb.any_DrainCurrentThread [OF assms, of t "tq_batcher s"], of f]
  show thesis by (rule that [OF d(1)]) (simp add: d(2))
qed

lemma tq_load:
  assumes "tq_inv n s"
  shows "tq_inv n (tq_RecordLoad t f s) \<and>
    tq_tracked (tq_RecordLoad t f s) = (if unat f < n then insert f (tq_tracked s) else tq_tracked s)"
proof (cases "unat f < n")
  case True
  obtain a where a: "tq_capacity s = n" "tq_lists n (tq_history s, tq_cache s) a" "tq_tracked s = tq_members a"
    using tq_invE [OF assms] .
  let ?d = "tq_Untrack f (snd (ab_DrainCurrentThread t (tq_Touch n) (tq_batcher s) (tq_history s, tq_cache s)))"
  obtain a' where a': "tq_lists n ?d a'" "tq_members a' = tq_members a - {f}" using tq_drained [OF a(2)] .
  have "tq_lists n (fr_PushFront f (fst ?d), snd ?d) (f # fst a', snd a')"
    using tq_push_lists [OF a'(1) True] a'(2) by simp
  moreover have "tq_members (f # fst a', snd a') = insert f (tq_members a)" using a'(2) by (auto simp: tq_members_def)
  ultimately show ?thesis
    using True a(1,3) tq_invI [of "tq_RecordLoad t f s" n "(f # fst a', snd a')"]
    by (simp add: tq_RecordLoad_def case_prod_beta)
next
  case False
  then show ?thesis using assms by (auto simp: tq_RecordLoad_def tq_inv_def)
qed

lemma tq_remove:
  assumes "tq_inv n s"
  shows "tq_inv n (tq_Remove t f s) \<and> tq_tracked (tq_Remove t f s) = tq_tracked s - {f}"
proof -
  obtain a where a: "tq_capacity s = n" "tq_lists n (tq_history s, tq_cache s) a" "tq_tracked s = tq_members a"
    using tq_invE [OF assms] .
  show ?thesis
  proof (cases "unat f < n")
    case True
    let ?d = "tq_Untrack f (snd (ab_DrainCurrentThread t (tq_Touch n) (tq_batcher s) (tq_history s, tq_cache s)))"
    obtain a' where a': "tq_lists n ?d a'" "tq_members a' = tq_members a - {f}" using tq_drained [OF a(2)] .
    then show ?thesis
      using True a(1,3) tq_invI [of "tq_Remove t f s" n a'] by (simp add: tq_Remove_def case_prod_beta)
  next
    case False
    then have "f \<notin> tq_members a" using a(2) lru_list_range by (fastforce simp: tq_lists_def tq_members_def)
    then show ?thesis using False assms a by (simp add: tq_Remove_def)
  qed
qed

definition tq_choose :: "(FrameId \<Rightarrow> bool) \<Rightarrow> FrameId list \<times> FrameId list \<Rightarrow> FrameId option" where
  "tq_choose probe a =
     (case List.find probe (rev (fst a)) of Some f \<Rightarrow> Some f | None \<Rightarrow> List.find probe (rev (snd a)))"

lemma tq_choose_members:
  "case tq_choose probe a of None \<Rightarrow> \<forall>f \<in> tq_members a. \<not> probe f | Some f \<Rightarrow> f \<in> tq_members a \<and> probe f"
  using find_SomeD [of probe "rev (fst a)"] find_SomeD [of probe "rev (snd a)"]
  by (auto simp: tq_choose_def tq_members_def find_None_iff split: option.splits)

lemma tq_Victim_choose:
  assumes "tq_capacity s = n"
    "tq_lists n (snd (ab_DrainAll (tq_Touch n) (tq_batcher s) (tq_history s, tq_cache s))) a"
  shows "\<exists>s'. tq_Victim probe s = Some (tq_choose probe a, s') \<and>
    tq_batcher s' = fst (ab_DrainAll (tq_Touch n) (tq_batcher s) (tq_history s, tq_cache s)) \<and>
    tq_lists n (tq_history s', tq_cache s') a \<and> tq_capacity s' = n"
proof -
  define d where "d = ab_DrainAll (tq_Touch n) (tq_batcher s) (tq_history s, tq_cache s)"
  have "fr_pick probe (fst (snd d)) = Some (List.find probe (rev (fst a)))"
    "fr_pick probe (snd (snd d)) = Some (List.find probe (rev (snd a)))"
    using assms(2) fr_pick_list unfolding d_def [symmetric] tq_lists_def lru_list_def by blast+
  then show ?thesis
    using assms by (simp add: tq_Victim_def case_prod_beta d_def [symmetric] tq_choose_def Let_def split: option.splits)
qed

lemma tq_victim:
  assumes "tq_inv n s"
  obtains r s' where "tq_Victim probe s = Some (r, s')" "tq_inv n s'" "tq_tracked s' = tq_tracked s"
    "case r of None \<Rightarrow> \<forall>f \<in> tq_tracked s. \<not> probe f | Some f \<Rightarrow> f \<in> tq_tracked s \<and> probe f"
proof -
  obtain a where a: "tq_capacity s = n" "tq_lists n (tq_history s, tq_cache s) a" "tq_tracked s = tq_members a"
    using tq_invE [OF assms] .
  define a' where "a' = fold tq_touch (ab_pending (tq_batcher s)) a"
  obtain s' where s': "tq_Victim probe s = Some (tq_choose probe a', s')"
    "tq_lists n (tq_history s', tq_cache s') a'" "tq_capacity s' = n"
    using tq_Victim_choose [OF a(1) tb.any_DrainAll [OF a(2)]] unfolding a'_def by blast
  have m: "tq_members a' = tq_tracked s" using a(3) by (simp add: a'_def)
  show thesis using that [OF s'(1)] tq_invI [OF s'(3,2)] tq_choose_members [of a' probe] unfolding m by blast
qed

interpretation tq: replacer TwoQueueReplacer n "tq_inv n" tq_tracked "\<lambda>_. True" for n
proof
  fix s t f probe
  assume inv: "tq_inv n s"
  show "\<exists>s'. rp_RecordAccess TwoQueueReplacer t f s = Some s' \<and> tq_inv n s' \<and> tq_tracked s' = tq_tracked s"
    using tq_access [OF inv] by (simp add: TwoQueueReplacer_def)
  show "\<exists>s'. rp_RecordLoad TwoQueueReplacer t f s = Some s' \<and> tq_inv n s' \<and>
      tq_tracked s' = (if unat f < n then insert f (tq_tracked s) else tq_tracked s)"
    using tq_load [OF inv] by (simp add: TwoQueueReplacer_def)
  show "\<exists>s'. rp_Remove TwoQueueReplacer t f s = Some s' \<and> tq_inv n s' \<and> tq_tracked s' = tq_tracked s - {f}"
    using tq_remove [OF inv] by (simp add: TwoQueueReplacer_def)
  show "\<exists>r s'. rp_Victim TwoQueueReplacer probe s = Some (r, s') \<and> tq_inv n s' \<and> tq_tracked s' = tq_tracked s \<and>
      (case r of None \<Rightarrow> True \<longrightarrow> (\<forall>f \<in> tq_tracked s. \<not> probe f) | Some f \<Rightarrow> f \<in> tq_tracked s \<and> probe f)"
    by (rule tq_victim [OF inv, of probe]) (simp add: TwoQueueReplacer_def split: option.splits)
qed

section \<open>One thread\<close>

fun rp_by :: "nat \<Rightarrow> rp_call \<Rightarrow> bool" where
  "rp_by t (CallAccess u f) = (u = t)"
| "rp_by t (CallLoad u f) = (u = t)"
| "rp_by t (CallRemove u f) = (u = t)"
| "rp_by t (CallVictim probe) = True"

text \<open>Textbook LRU: the frames in the order of their last use, most recent first.\<close>

fun lru_spec :: "nat \<Rightarrow> rp_call \<Rightarrow> FrameId list \<Rightarrow> FrameId list" where
  "lru_spec n (CallAccess t f) xs = mtf f xs"
| "lru_spec n (CallLoad t f) xs = (if unat f < n then f # remove1 f xs else xs)"
| "lru_spec n (CallRemove t f) xs = remove1 f xs"
| "lru_spec n (CallVictim probe) xs = xs"

text \<open>Textbook 2Q: frames used once since they were loaded, and frames used again.\<close>

fun tq_spec :: "nat \<Rightarrow> rp_call \<Rightarrow> FrameId list \<times> FrameId list \<Rightarrow> FrameId list \<times> FrameId list" where
  "tq_spec n (CallAccess t f) a = tq_touch f a"
| "tq_spec n (CallLoad t f) a =
     (if unat f < n then (f # remove1 f (fst a), remove1 f (snd a)) else a)"
| "tq_spec n (CallRemove t f) a = (remove1 f (fst a), remove1 f (snd a))"
| "tq_spec n (CallVictim probe) a = a"

abbreviation lru_one :: "nat \<Rightarrow> nat \<Rightarrow> LruState \<Rightarrow> FrameId list \<Rightarrow> bool" where
  "lru_one n t s xs \<equiv> lru_capacity s = n \<and>
     batched.one_thread (lru_list n) mtf t (lru_batcher s) (lru_recency s) xs"

lemma lru_list_remove_out: "lru_list n l xs \<Longrightarrow> \<not> unat f < n \<Longrightarrow> remove1 f xs = xs"
  using lru_list_range [of n l xs f] by (auto intro: remove1_idem)

lemma one_thread_set_range:
  assumes "batched.one_thread (lru_list n) mtf t b l xs"
  shows "\<not> unat f < n \<Longrightarrow> remove1 f xs = xs"
  using assms set_fold_mtf unfolding lb.one_thread_def lru_list_def by (auto intro!: remove1_idem)

lemma lru_one_step:
  assumes one: "lru_one n t s xs" and t: "rp_by t c"
  shows "\<exists>s'. rp_step LruReplacer c s = Some s' \<and> lru_one n t s' (lru_spec n c xs)"
proof -
  let ?T = "lru_Touch n" and ?b = "lru_batcher s" and ?l = "lru_recency s"
  have cap: "lru_capacity s = n" and o: "batched.one_thread (lru_list n) mtf t ?b ?l xs" using one by simp_all
  note d = lb.one_thread_DrainCurrentThread [OF o] and da = lb.one_thread_DrainAll [OF o]
  show ?thesis
  proof (cases c)
    case (CallAccess u f)
    then show ?thesis using t cap lb.one_thread_Record [OF o, of f]
      by (simp add: LruReplacer_def lru_RecordAccess_def case_prod_beta)
  next
    case (CallLoad u f)
    then show ?thesis
      using t cap o lru_list_front [OF d(1), of f] lb.one_threadI [OF _ d(2,3)]
      by (simp add: LruReplacer_def lru_RecordLoad_def case_prod_beta)
  next
    case (CallRemove u f)
    then show ?thesis
      using t cap o lru_list_unlink [OF d(1), of f] lb.one_threadI [OF _ d(2,3)] one_thread_set_range [OF o, of f]
      by (simp add: LruReplacer_def lru_Remove_def case_prod_beta)
  next
    case (CallVictim probe)
    have "fr_pick probe (snd (ab_DrainAll ?T ?b ?l)) = Some (List.find probe (rev xs))"
      using da(1) fr_pick_list unfolding lru_list_def by blast
    then show ?thesis
      using CallVictim cap lb.one_threadI [OF da(1,2,3)] by (simp add: LruReplacer_def lru_Victim_def case_prod_beta)
  qed
qed

lemma lru_one_run:
  "lru_one n t s xs \<Longrightarrow> list_all (rp_by t) cs \<Longrightarrow>
   \<exists>s'. rp_run LruReplacer cs s = Some s' \<and> lru_one n t s' (fold (lru_spec n) cs xs)"
proof (induction cs arbitrary: s xs)
  case (Cons c cs)
  obtain s1 where "rp_step LruReplacer c s = Some s1" "lru_one n t s1 (lru_spec n c xs)"
    using lru_one_step [OF Cons.prems(1), of c] Cons.prems(2) by auto
  then show ?case using Cons.IH [of s1 "lru_spec n c xs"] Cons.prems(2) by simp
qed simp

lemma lru_one_create: "n \<le> 4294967295 \<Longrightarrow> lru_one n t (lru_create hc n) []"
  using lb.one_threadI [of n fr_empty "[]" t "ab_create hc"] ab_create_only [of t hc]
  by (simp add: lru_create_def lru_list_def fr_list_empty) (simp add: ab_create_def)

abbreviation tq_one :: "nat \<Rightarrow> nat \<Rightarrow> TwoQueueState \<Rightarrow> FrameId list \<times> FrameId list \<Rightarrow> bool" where
  "tq_one n t s a \<equiv> tq_capacity s = n \<and>
     batched.one_thread (tq_lists n) tq_touch t (tq_batcher s) (tq_history s, tq_cache s) a"

lemma tq_one_remove_out:
  assumes "batched.one_thread (tq_lists n) tq_touch t b l a" "\<not> unat f < n"
  shows "(remove1 f (fst a), remove1 f (snd a)) = a"
proof -
  obtain a0 where a0: "tq_lists n l a0" "tq_members a = tq_members a0"
    using assms(1) tq_fold_members unfolding tb.one_thread_def by blast
  have "f \<notin> tq_members a0" using a0(1) assms(2) lru_list_range by (fastforce simp: tq_lists_def tq_members_def)
  then have "f \<notin> set (fst a)" "f \<notin> set (snd a)" using a0(2) by (auto simp: tq_members_def)
  then show ?thesis by (simp add: remove1_idem)
qed

lemma tq_one_step:
  assumes one: "tq_one n t s a" and t: "rp_by t c"
  shows "\<exists>s'. rp_step TwoQueueReplacer c s = Some s' \<and> tq_one n t s' (tq_spec n c a)"
proof -
  let ?b = "tq_batcher s" and ?l = "(tq_history s, tq_cache s)"
  have cap: "tq_capacity s = n" and o: "batched.one_thread (tq_lists n) tq_touch t ?b ?l a" using one by simp_all
  note d = tb.one_thread_DrainCurrentThread [OF o] and da = tb.one_thread_DrainAll [OF o]
  show ?thesis
  proof (cases c)
    case (CallAccess u f)
    then show ?thesis using t cap tb.one_thread_Record [OF o, of f]
      by (simp add: TwoQueueReplacer_def tq_RecordAccess_def case_prod_beta)
  next
    case (CallLoad u f)
    note un = tq_Untrack_lists [OF d(1), of f]
    have "unat f < n \<Longrightarrow> tq_lists n (fr_PushFront f (fst (tq_Untrack f (snd (ab_DrainCurrentThread t (tq_Touch n) ?b ?l)))),
        snd (tq_Untrack f (snd (ab_DrainCurrentThread t (tq_Touch n) ?b ?l)))) (f # remove1 f (fst a), remove1 f (snd a))"
      using tq_push_lists [OF un(1)] un(2) by (simp add: tq_untrack_def)
    then show ?thesis
      using CallLoad t cap o tb.one_threadI [OF _ d(2,3)]
      by (simp add: TwoQueueReplacer_def tq_RecordLoad_def case_prod_beta)
  next
    case (CallRemove u f)
    then show ?thesis
      using t cap o tb.one_threadI [OF _ d(2,3)] tq_Untrack_lists(1) [OF d(1), of f] tq_one_remove_out [OF o, of f]
      by (simp add: TwoQueueReplacer_def tq_Remove_def tq_untrack_def case_prod_beta)
  next
    case (CallVictim probe)
    obtain s' where "tq_Victim probe s = Some (tq_choose probe a, s')"
      "tq_batcher s' = fst (ab_DrainAll (tq_Touch n) ?b ?l)" "tq_lists n (tq_history s', tq_cache s') a" "tq_capacity s' = n"
      using tq_Victim_choose [OF cap da(1)] by blast
    then show ?thesis using CallVictim tb.one_threadI [OF _ da(2,3)] by (simp add: TwoQueueReplacer_def)
  qed
qed

lemma tq_one_run:
  "tq_one n t s a \<Longrightarrow> list_all (rp_by t) cs \<Longrightarrow>
   \<exists>s'. rp_run TwoQueueReplacer cs s = Some s' \<and> tq_one n t s' (fold (tq_spec n) cs a)"
proof (induction cs arbitrary: s a)
  case (Cons c cs)
  obtain s1 where "rp_step TwoQueueReplacer c s = Some s1" "tq_one n t s1 (tq_spec n c a)"
    using tq_one_step [OF Cons.prems(1), of c] Cons.prems(2) by auto
  then show ?case using Cons.IH [of s1 "tq_spec n c a"] Cons.prems(2) by simp
qed simp

lemma tq_one_create: "n \<le> 4294967295 \<Longrightarrow> tq_one n t (tq_create hc n) ([], [])"
  using tb.one_threadI [of n "(fr_empty, fr_empty)" "([], [])" t "ab_create hc"] ab_create_only [of t hc]
  by (simp add: tq_create_def tq_lists_def lru_list_def fr_list_empty) (simp add: ab_create_def)

section \<open>Properties\<close>

text \<open>
  C11.  For the calls of one thread, the LRU policy with its access batches and linked list
  is textbook LRU: \<open>Victim\<close> nominates the least recently used frame that is evictable, in the
  order of the calls themselves, although accesses reach the list only in batches of 64 or
  when another operation drains them.
\<close>

theorem lru_is_lru:
  assumes "n \<le> 4294967295" "list_all (rp_by t) calls"
  shows "\<exists>s s'. rp_run LruReplacer calls (lru_create hc n) = Some s \<and>
    lru_Victim probe s = Some (List.find probe (rev (fold (lru_spec n) calls [])), s')"
proof -
  let ?xs = "fold (lru_spec n) calls []"
  obtain s where s: "rp_run LruReplacer calls (lru_create hc n) = Some s" "lru_capacity s = n"
    "batched.one_thread (lru_list n) mtf t (lru_batcher s) (lru_recency s) ?xs"
    using lru_one_run [OF lru_one_create [OF assms(1)] assms(2)] by blast
  have "fr_pick probe (snd (ab_DrainAll (lru_Touch n) (lru_batcher s) (lru_recency s))) = Some (List.find probe (rev ?xs))"
    using lb.one_thread_DrainAll(1) [OF s(3)] fr_pick_list unfolding lru_list_def by blast
  then show ?thesis using s(1,2) by (auto simp: lru_Victim_def case_prod_beta)
qed

lemma lru_is_lru_witness:
  "\<exists>s s'. rp_run LruReplacer [CallLoad 0 1, CallLoad 0 2, CallLoad 0 3, CallAccess 0 1] (lru_create 8 4) = Some s \<and>
     lru_Victim (\<lambda>f. f \<noteq> 2) s = Some (Some 3, s')"
  using lru_is_lru [of 4 0 "[CallLoad 0 1, CallLoad 0 2, CallLoad 0 3, CallAccess 0 1]" 8 "\<lambda>f. f \<noteq> 2"]
  by (simp add: mtf_def)

text \<open>
  C12.  For the calls of one thread, the two-queue policy is textbook 2Q: a frame enters the
  history queue when it is loaded, moves to the cache queue at its next access, and \<open>Victim\<close>
  takes the oldest evictable frame of the history queue before any of the cache queue.
\<close>

theorem two_queue_is_2q:
  assumes "n \<le> 4294967295" "list_all (rp_by t) calls"
  shows "\<exists>s s'. rp_run TwoQueueReplacer calls (tq_create hc n) = Some s \<and>
    tq_Victim probe s = Some (tq_choose probe (fold (tq_spec n) calls ([], [])), s')"
proof -
  obtain s where s: "rp_run TwoQueueReplacer calls (tq_create hc n) = Some s" "tq_capacity s = n"
    "batched.one_thread (tq_lists n) tq_touch t (tq_batcher s) (tq_history s, tq_cache s)
       (fold (tq_spec n) calls ([], []))"
    using tq_one_run [OF tq_one_create [OF assms(1)] assms(2)] by blast
  show ?thesis using s(1) tq_Victim_choose [OF s(2) tb.one_thread_DrainAll(1) [OF s(3)]] by blast
qed

lemma two_queue_is_2q_witness:
  "\<exists>s s'. rp_run TwoQueueReplacer [CallLoad 0 1, CallAccess 0 1, CallLoad 0 2, CallLoad 0 3] (tq_create 8 4) = Some s \<and>
     tq_Victim (\<lambda>f. True) s = Some (Some 2, s')"
  using two_queue_is_2q [of 4 0 "[CallLoad 0 1, CallAccess 0 1, CallLoad 0 2, CallLoad 0 3]" 8 "\<lambda>f. True"]
  by (simp add: tq_choose_def tq_touch_def)

end
