(* ===== verification/Geometry.thy ===== *)
theory Geometry
  imports Page_Table Status
begin

unbundle bit_operations_syntax

text \<open>
  Sizes and places: \<^verbatim>\<open>common/block_geometry.h\<close> (the block size and its shifts),
  \<^verbatim>\<open>common/state_layout.h\<close> (arrays placed one after another in one block of memory),
  \<^verbatim>\<open>buffer/frame_memory_pool.h\<close> and \<^verbatim>\<open>buffer/kernel_region.h\<close> (the block that holds the
  metadata of a buffer pool and its frames).  All arithmetic is that of \<^verbatim>\<open>std::size_t\<close>, 64
  bits with wrap-around; the sizes of the C++ types are those of a 64-bit machine.
\<close>

section \<open>Block geometry\<close>

definition kMinBlockSize :: size_t where
  "kMinBlockSize = push_bit 12 1"

definition kMaxBlockSize :: size_t where
  "kMaxBlockSize = push_bit 22 1"

record BlockGeometry =
  bg_block_shift :: u32

text \<open>\<open>std::has_single_bit\<close>, and \<open>std::countr_zero\<close> of a word with a bit set.\<close>

definition has_single_bit :: "size_t \<Rightarrow> bool" where
  "has_single_bit x \<longleftrightarrow> length (filter (bit x) [0..<64]) = 1"

definition countr_zero :: "size_t \<Rightarrow> nat" where
  "countr_zero x = (case List.find (bit x) [0..<64] of Some i \<Rightarrow> i | None \<Rightarrow> 64)"

definition IsValidBlockSize :: "size_t \<Rightarrow> bool" where
  "IsValidBlockSize block_size \<longleftrightarrow>
     has_single_bit block_size \<and> block_size \<ge> kMinBlockSize \<and> block_size \<le> kMaxBlockSize"

definition bg_Create :: "size_t \<Rightarrow> BlockGeometry Result" where
  "bg_Create block_size =
     (if \<not> IsValidBlockSize block_size
      then Inl (InvalidArgument ''block size must be a power of two between 4 KiB and 4 MiB'')
      else Inr \<lparr>bg_block_shift = word_of_nat (countr_zero block_size)\<rparr>)"

definition bg_block_size :: "BlockGeometry \<Rightarrow> size_t" where
  "bg_block_size g = push_bit (unat (bg_block_shift g)) 1"

definition bg_block_mask :: "BlockGeometry \<Rightarrow> u64" where
  "bg_block_mask g = push_bit (unat (bg_block_shift g)) 1 - 1"

definition BlockOffset :: "BlockGeometry \<Rightarrow> BlockId \<Rightarrow> u64" where
  "BlockOffset g block_id = push_bit (unat (bg_block_shift g)) block_id"

definition FrameOffset :: "BlockGeometry \<Rightarrow> FrameId \<Rightarrow> size_t" where
  "FrameOffset g frame_id = push_bit (unat (bg_block_shift g)) (ucast frame_id)"

definition MaxFrameCount :: "BlockGeometry \<Rightarrow> size_t" where
  "MaxFrameCount g = drop_bit (unat (bg_block_shift g)) (- 1)"

section \<open>Layouts\<close>

record StateLayout =
  sl_size :: size_t

definition sl_empty :: StateLayout where
  "sl_empty = \<lparr>sl_size = 0\<rparr>"

definition sl_Align :: "size_t \<Rightarrow> size_t \<Rightarrow> size_t" where
  "sl_Align v alignment = (v + alignment - 1) AND NOT (alignment - 1)"

text \<open>\<^verbatim>\<open>Add<T>(count, alignment)\<close>, with \<^verbatim>\<open>sizeof(T)\<close> as the first argument.\<close>

definition sl_Add :: "size_t \<Rightarrow> size_t \<Rightarrow> size_t \<Rightarrow> StateLayout \<Rightarrow> size_t \<times> StateLayout" where
  "sl_Add size_of count alignment l =
     (let offset = sl_Align (sl_size l) alignment
      in (offset, l\<lparr>sl_size := offset + count * size_of\<rparr>))"

definition sl_bytes :: "StateLayout \<Rightarrow> size_t" where
  "sl_bytes l = sl_Align (if sl_size l = 0 then 1 else sl_size l) (word_of_nat kCacheLineSize)"

definition CheckStateMemory :: "size_t \<Rightarrow> u64 \<Rightarrow> size_t \<Rightarrow> Status" where
  "CheckStateMemory memory_size memory_data bytes =
     (if memory_size < bytes then Inl (InvalidArgument ''replacer state memory is too small'')
      else if memory_data mod word_of_nat kCacheLineSize \<noteq> 0
        then Inl (InvalidArgument ''replacer state memory must be cache-line aligned'')
      else Ok)"

definition fmp_kAlignment :: size_t where
  "fmp_kAlignment = 4096"

definition fmp_Reserve :: "size_t \<Rightarrow> BlockGeometry \<Rightarrow> StateLayout \<Rightarrow> size_t \<times> StateLayout" where
  "fmp_Reserve pool_size g = sl_Add 1 (push_bit (unat (bg_block_shift g)) pool_size) fmp_kAlignment"

definition fmp_Validate :: "size_t \<Rightarrow> BlockGeometry \<Rightarrow> Status" where
  "fmp_Validate pool_size g =
     (if pool_size = 0 then Inl (InvalidArgument ''frame memory pool size must be non-zero'')
      else if pool_size \<ge> ucast kInvalidFrameId
        then Inl (InvalidArgument ''frame memory pool size exceeds the frame id range'')
      else if pool_size > MaxFrameCount g
        then Inl (InvalidArgument ''frame memory pool size overflows the address space'')
      else Ok)"

definition GetFrameData :: "BlockGeometry \<Rightarrow> u64 \<Rightarrow> FrameId \<Rightarrow> u64" where
  "GetFrameData g data frame_id = data + FrameOffset g frame_id"

record PageTableOffsets =
  po_heads :: size_t
  po_next :: size_t
  po_bucket_of :: size_t
  po_key_file_id :: size_t
  po_key_block_id :: size_t
  po_stripes :: size_t

definition pt_Reserve :: "size_t \<Rightarrow> size_t \<Rightarrow> StateLayout \<Rightarrow> PageTableOffsets \<times> StateLayout" where
  "pt_Reserve frame_capacity stripe_count l =
     (let line = word_of_nat kCacheLineSize;
          (heads, l) = sl_Add 4 (word_of_nat (BucketCount (unat frame_capacity))) line l;
          (nx, l) = sl_Add 4 frame_capacity line l;
          (bucket_of, l) = sl_Add 4 frame_capacity line l;
          (key_file_id, l) = sl_Add 4 frame_capacity line l;
          (key_block_id, l) = sl_Add 8 frame_capacity line l;
          (stripes, l) = sl_Add 64 (max stripe_count 1) line l
      in (\<lparr>po_heads = heads, po_next = nx, po_bucket_of = bucket_of, po_key_file_id = key_file_id,
           po_key_block_id = key_block_id, po_stripes = stripes\<rparr>, l))"

record FreeListOffsets =
  fo_head :: size_t
  fo_next :: size_t

definition fl_Reserve :: "size_t \<Rightarrow> StateLayout \<Rightarrow> FreeListOffsets \<times> StateLayout" where
  "fl_Reserve capacity l =
     (let line = word_of_nat kCacheLineSize;
          (head, l) = sl_Add 8 1 line l;
          (nx, l) = sl_Add 4 capacity line l
      in (\<lparr>fo_head = head, fo_next = nx\<rparr>, l))"

record KernelLayout =
  kl_shared :: size_t
  kl_descriptors :: size_t
  kl_page_table :: PageTableOffsets
  kl_free_list :: FreeListOffsets
  kl_frames :: size_t
  kl_bytes :: size_t

definition KernelLayout_For :: "size_t \<Rightarrow> size_t \<Rightarrow> BlockGeometry \<Rightarrow> KernelLayout" where
  "KernelLayout_For pool_size stripe_count g =
     (let line = word_of_nat kCacheLineSize;
          (shared, l) = sl_Add 8 1 line sl_empty;
          (descriptors, l) = sl_Add 64 pool_size line l;
          (page_table, l) = pt_Reserve pool_size stripe_count l;
          (free_list, l) = fl_Reserve pool_size l;
          (frames, l) = fmp_Reserve pool_size g l
      in \<lparr>kl_shared = shared, kl_descriptors = descriptors, kl_page_table = page_table,
          kl_free_list = free_list, kl_frames = frames, kl_bytes = sl_bytes l\<rparr>)"

text \<open>The arrays of a kernel region with the bytes each needs, in memory order.\<close>

definition kl_regions :: "nat \<Rightarrow> nat \<Rightarrow> BlockGeometry \<Rightarrow> KernelLayout \<Rightarrow> (size_t \<times> nat) list" where
  "kl_regions pool stripes g k =
     [(kl_shared k, 8), (kl_descriptors k, 64 * pool),
      (po_heads (kl_page_table k), 4 * BucketCount pool), (po_next (kl_page_table k), 4 * pool),
      (po_bucket_of (kl_page_table k), 4 * pool), (po_key_file_id (kl_page_table k), 4 * pool),
      (po_key_block_id (kl_page_table k), 8 * pool), (po_stripes (kl_page_table k), 64 * max stripes 1),
      (fo_head (kl_free_list k), 8), (fo_next (kl_free_list k), 4 * pool),
      (kl_frames k, unat (bg_block_size g) * pool)]"

text \<open>Regions that follow one another without overlap, from \<open>lo\<close> on and below \<open>hi\<close>.\<close>

fun packed :: "nat \<Rightarrow> (size_t \<times> nat) list \<Rightarrow> nat \<Rightarrow> bool" where
  "packed lo [] hi \<longleftrightarrow> lo \<le> hi"
| "packed lo ((off, n) # rs) hi \<longleftrightarrow> lo \<le> unat off \<and> unat off mod 64 = 0 \<and> packed (unat off + n) rs hi"

section \<open>Geometry lemmas\<close>

lemma has_single_bitD:
  assumes "has_single_bit x"
  shows "\<exists>k < 64. x = 2 ^ k"
proof -
  obtain k where k: "filter (bit x) [0..<64] = [k]"
    using assms unfolding has_single_bit_def by (metis One_nat_def length_0_conv length_Suc_conv)
  then have set: "{i. i < 64 \<and> bit x i} = {k}"
  proof -
    have "{i. i < 64 \<and> bit x i} = set (filter (bit x) [0..<64])" by auto
    then show ?thesis using k by simp
  qed
  then have "k < 64" by blast
  moreover have "x = 2 ^ k"
  proof (rule bit_word_eqI)
    fix n assume "n < LENGTH(64)"
    then show "bit x n = bit (2 ^ k :: 64 word) n" using set by (auto simp: bit_exp_iff)
  qed
  ultimately show ?thesis by blast
qed

lemma power_bits: "k < 64 \<Longrightarrow> bit (2 ^ k :: 64 word) = (\<lambda>i. i = k)"
  by (auto simp: bit_exp_iff fun_eq_iff)

lemma filter_eq_upt: "k < n \<Longrightarrow> filter (\<lambda>i. i = k) [0..<n] = [k]"
  by (induction n) (auto simp: less_Suc_eq filter_empty_conv)

lemma find_eq_upt: "k < n \<Longrightarrow> List.find (\<lambda>i. i = k) [0..<n] = Some k"
  by (simp add: find_Some_iff) (intro exI [of _ k], simp)

lemma has_single_bit_power: "k < 64 \<Longrightarrow> has_single_bit (2 ^ k)"
  by (simp add: has_single_bit_def power_bits filter_eq_upt)

lemma countr_zero_power: "k < 64 \<Longrightarrow> countr_zero (2 ^ k) = k"
  by (simp add: countr_zero_def power_bits find_eq_upt)

lemma unat_power: "k < 64 \<Longrightarrow> unat (2 ^ k :: 64 word) = 2 ^ k"
  using unat_of_nat [of "2 ^ k", where 'a = 64] power_strict_increasing [of k 64 "2 :: nat"] by simp

lemma align:
  fixes v :: "64 word"
  assumes k: "k < 64" and fits: "unat v + 2 ^ k \<le> 2 ^ 64"
  defines "r \<equiv> unat ((v + 2 ^ k - 1) AND NOT (2 ^ k - 1))"
  shows "unat v \<le> r" "r < unat v + 2 ^ k" "2 ^ k dvd r"
proof -
  have m: "(2 ^ k - 1 :: 64 word) = mask k" by (simp add: mask_eq_exp_minus_1)
  define x where "x = v + 2 ^ k - 1"
  have x: "unat x = unat v + 2 ^ k - 1"
  proof -
    have "unat (mask k :: 64 word) = 2 ^ k - 1"
      using k unat_minus_one [of "2 ^ k :: 64 word"] by (simp add: m [symmetric] unat_power)
    moreover have "x = v + mask k" by (simp add: x_def m [symmetric])
    moreover have "(0 :: nat) < 2 ^ k" by simp
    ultimately show ?thesis using fits by (simp add: unat_word_ariths)
  qed
  have xx: "take_bit 64 (unat x) = unat x"
    using unsigned_less [of x, where 'a = nat] by (intro take_bit_nat_eq_self) simp
  have "x AND NOT (mask k) = push_bit k (drop_bit k x)"
    by (rule bit_word_eqI) (auto simp: bit_simps)
  then have "r = take_bit 64 (push_bit k (drop_bit k (unat x)))"
    by (simp add: r_def m x_def [symmetric] unsigned_push_bit_eq unsigned_drop_bit_eq xx)
  also have "\<dots> = (unat x div 2 ^ k) * 2 ^ k mod 2 ^ 64"
    by (simp add: push_bit_eq_mult drop_bit_eq_div take_bit_eq_mod)
  also have "\<dots> = (unat x div 2 ^ k) * 2 ^ k"
    using unsigned_less [of x, where 'a = nat]
    by (intro mod_less le_less_trans [OF div_times_less_eq_dividend]) simp
  finally have r: "r = unat x - unat x mod 2 ^ k" by (simp add: minus_mod_eq_div_mult)
  have "unat x mod 2 ^ k < 2 ^ k" by simp
  then show "unat v \<le> r" "r < unat v + 2 ^ k" using r x by linarith+
  show "2 ^ k dvd r" using r by simp
qed

lemma IsValidBlockSize_iff: "IsValidBlockSize b \<longleftrightarrow> (\<exists>k. 12 \<le> k \<and> k \<le> 22 \<and> b = 2 ^ k)"
proof
  assume v: "IsValidBlockSize b"
  then obtain k where k: "k < 64" "b = 2 ^ k"
    using has_single_bitD unfolding IsValidBlockSize_def by blast
  have "2 ^ 12 \<le> (2 :: nat) ^ k" "(2 :: nat) ^ k \<le> 2 ^ 22"
    using v k unat_power [of k]
    by (simp_all add: IsValidBlockSize_def kMinBlockSize_def kMaxBlockSize_def push_bit_of_1 word_le_nat_alt)
  then show "\<exists>k. 12 \<le> k \<and> k \<le> 22 \<and> b = 2 ^ k"
    using k by (metis one_less_numeral_iff power_le_imp_le_exp semiring_norm(76))
next
  assume "\<exists>k. 12 \<le> k \<and> k \<le> 22 \<and> b = 2 ^ k"
  then obtain k where k: "12 \<le> k" "k \<le> 22" "b = 2 ^ k" by auto
  then have "2 ^ 12 \<le> (2 :: nat) ^ k" "(2 :: nat) ^ k \<le> 2 ^ 22"
    by (simp_all add: power_increasing del: power_numeral)
  then show "IsValidBlockSize b" using k unat_power [of k]
    by (simp add: IsValidBlockSize_def kMinBlockSize_def kMaxBlockSize_def push_bit_of_1 word_le_nat_alt
        has_single_bit_power)
qed

lemma bg_Create_cases:
  assumes "bg_Create bs = Inr g"
  obtains k where "12 \<le> k" "k \<le> 22" "bs = 2 ^ k" "unat (bg_block_shift g) = k"
proof -
  have "IsValidBlockSize bs" and g: "g = \<lparr>bg_block_shift = word_of_nat (countr_zero bs)\<rparr>"
    using assms by (simp_all add: bg_Create_def split: if_splits)
  then obtain k where k: "12 \<le> k" "k \<le> 22" "bs = 2 ^ k" by (auto simp: IsValidBlockSize_iff)
  moreover have "unat (bg_block_shift g) = k"
    using k g unat_frame_id [of k] by (simp add: countr_zero_power)
  ultimately show thesis using that by blast
qed

lemma unat_push_bit_fits:
  fixes x :: "64 word"
  shows "unat x * 2 ^ k < 2 ^ 64 \<Longrightarrow> unat (push_bit k x) = unat x * 2 ^ k"
  using unsigned_push_bit_eq [of k x, where 'a = nat] by (simp add: push_bit_eq_mult take_bit_nat_eq_self)

lemma push_bit_eq_iff:
  fixes x y :: "64 word"
  shows "k \<le> 64 \<Longrightarrow> push_bit k x = push_bit k y \<longleftrightarrow> take_bit (64 - k) x = take_bit (64 - k) y"
proof
  assume k: "k \<le> 64" and eq: "push_bit k x = push_bit k y"
  show "take_bit (64 - k) x = take_bit (64 - k) y"
  proof (rule bit_word_eqI)
    fix n assume "n < LENGTH(64)"
    have "bit (push_bit k x) (n + k) = bit (push_bit k y) (n + k)" using eq by simp
    then show "bit (take_bit (64 - k) x) n = bit (take_bit (64 - k) y) n"
      by (auto simp: bit_simps)
  qed
next
  assume k: "k \<le> 64" and eq: "take_bit (64 - k) x = take_bit (64 - k) y"
  show "push_bit k x = push_bit k y"
  proof (rule bit_word_eqI)
    fix n assume "n < LENGTH(64)"
    have "bit (take_bit (64 - k) x) (n - k) = bit (take_bit (64 - k) y) (n - k)" using eq by simp
    then show "bit (push_bit k x) n = bit (push_bit k y) n"
      using \<open>n < LENGTH(64)\<close> by (auto simp: bit_simps)
  qed
qed

section \<open>Layout lemmas\<close>

fun sl_run :: "(size_t \<times> size_t \<times> size_t) list \<Rightarrow> StateLayout \<Rightarrow> size_t list \<times> StateLayout" where
  "sl_run [] l = ([], l)"
| "sl_run ((size_of, count, alignment) # rs) l =
     (let (off, l') = sl_Add size_of count alignment l; (offs, l'') = sl_run rs l' in (off # offs, l''))"

definition sl_fits :: "size_t \<times> size_t \<times> size_t \<Rightarrow> bool" where
  "sl_fits r \<longleftrightarrow> (case r of (size_of, count, alignment) \<Rightarrow>
     unat count * unat size_of \<le> 2 ^ 54 \<and> (\<exists>k. 6 \<le> k \<and> k \<le> 12 \<and> alignment = 2 ^ k))"

definition sl_need :: "size_t \<times> size_t \<times> size_t \<Rightarrow> nat" where
  "sl_need r = unat (fst (snd r)) * unat (fst r)"

lemma sl_Add_packed:
  assumes "sl_Add size_of count alignment l = (off, l')" "sl_fits (size_of, count, alignment)"
    "unat (sl_size l) + 2 ^ 55 \<le> 2 ^ 63"
  shows "unat (sl_size l) \<le> unat off" "unat alignment dvd unat off"
    "unat (sl_size l') = unat off + unat count * unat size_of"
    "unat (sl_size l') \<le> unat (sl_size l) + 2 ^ 55"
proof -
  obtain k where k: "6 \<le> k" "k \<le> 12" "alignment = 2 ^ k" and n: "unat count * unat size_of \<le> 2 ^ 54"
    using assms(2) by (auto simp: sl_fits_def)
  have "(2 :: nat) ^ k \<le> 2 ^ 12" using k by (intro power_increasing) simp_all
  then have kk: "unat (sl_size l) + 2 ^ k \<le> 2 ^ 64" "(2 :: nat) ^ k \<le> 4096" using assms(3) by simp_all
  have off: "off = (sl_size l + 2 ^ k - 1) AND NOT (2 ^ k - 1)"
    and l': "sl_size l' = off + count * size_of"
    using assms(1) k by (auto simp: sl_Add_def sl_Align_def Let_def)
  note a = align [of k "sl_size l", folded off]
  show "unat (sl_size l) \<le> unat off" using a k kk by simp
  have b: "unat off < unat (sl_size l) + 4096" using a(2) k kk by simp
  show "unat alignment dvd unat off" using a(3) k kk by (simp add: unat_power)
  have "unat (count * size_of) = unat count * unat size_of"
    using n by (simp add: unat_word_ariths)
  then show s: "unat (sl_size l') = unat off + unat count * unat size_of"
    using l' b n assms(3) by (simp add: unat_word_ariths)
  show "unat (sl_size l') \<le> unat (sl_size l) + 2 ^ 55" using s b n by simp
qed

lemma sl_run_packed:
  assumes "\<forall>r \<in> set rs. sl_fits r" "unat (sl_size l) + length rs * 2 ^ 55 \<le> 2 ^ 63" "sl_run rs l = (offs, l')"
  shows "packed (unat (sl_size l)) (zip offs (map sl_need rs)) (unat (sl_size l')) \<and>
    unat (sl_size l') \<le> unat (sl_size l) + length rs * 2 ^ 55"
  using assms
proof (induction rs arbitrary: l offs)
  case Nil
  then show ?case by auto
next
  case (Cons r rs)
  obtain sz c a where r: "r = (sz, c, a)" by (cases r)
  obtain off l1 where l1: "sl_Add sz c a l = (off, l1)" by fastforce
  obtain offs' where rest: "sl_run rs l1 = (offs', l')" and offs: "offs = off # offs'"
    using Cons.prems(3) r l1 by (auto split: prod.splits)
  have fits: "sl_fits (sz, c, a)" using Cons.prems(1) r by simp
  have room: "unat (sl_size l) + 2 ^ 55 + length rs * 2 ^ 55 \<le> 2 ^ 63" using Cons.prems(2) by simp
  note s = sl_Add_packed [OF l1 fits]
  have "unat (sl_size l1) + length rs * 2 ^ 55 \<le> 2 ^ 63" using s(4) room by simp
  note ih = Cons.IH [OF _ this rest]
  obtain k where "6 \<le> k" "unat a = 2 ^ k"
    using fits by (auto simp: sl_fits_def unat_power)
  then have "64 dvd unat a" using le_imp_power_dvd [of 6 k "2 :: nat"] by simp
  then have "unat off mod 64 = 0" using s(2) room dvd_trans by fastforce
  then show ?case using ih s(1,3,4) room Cons.prems(1) r offs by (simp add: sl_need_def)
qed

text \<open>The reservations of a kernel region, in the order the code makes them.\<close>

definition kl_requests :: "size_t \<Rightarrow> size_t \<Rightarrow> BlockGeometry \<Rightarrow> (size_t \<times> size_t \<times> size_t) list" where
  "kl_requests pool stripes g =
     [(8, 1, 64), (64, pool, 64), (4, word_of_nat (BucketCount (unat pool)), 64), (4, pool, 64), (4, pool, 64),
      (4, pool, 64), (8, pool, 64), (64, max stripes 1, 64), (8, 1, 64), (4, pool, 64),
      (1, push_bit (unat (bg_block_shift g)) pool, 4096)]"

lemma fmp_ValidateD:
  assumes "fmp_Validate pool g = Ok"
  shows "0 < unat pool" "unat pool < 4294967295"
proof -
  have "pool \<noteq> 0" "pool < ucast kInvalidFrameId"
    using assms by (auto simp: fmp_Validate_def split: if_splits)
  moreover have "unat (ucast kInvalidFrameId :: size_t) = 4294967295"
    by (simp add: unsigned_ucast_eq unat_kInvalidFrameId take_bit_nat_eq_self)
  ultimately show "0 < unat pool" "unat pool < 4294967295"
    by (simp_all add: word_less_nat_alt unat_gt_0)
qed

lemma BucketCount_bound: "n \<le> 4294967295 \<Longrightarrow> BucketCount n \<le> 4294967296"
proof -
  assume n: "n \<le> 4294967295"
  obtain k where k: "BucketCount n = 2 ^ k" "k = 0 \<or> 2 ^ (k - 1) < max n 1"
    using bit_ceil_from_power [of 0 "max n 1"] unfolding BucketCount_def by auto
  have "k \<le> 32"
  proof (rule ccontr)
    assume "\<not> k \<le> 32"
    then have "(2 :: nat) ^ 32 \<le> 2 ^ (k - 1)" by (intro power_increasing) simp_all
    then show False using k(2) n \<open>\<not> k \<le> 32\<close> by simp
  qed
  then have "(2 :: nat) ^ k \<le> 2 ^ 32" by (intro power_increasing) simp_all
  then show ?thesis using k by simp
qed

lemma kl_requests_fit:
  assumes "bg_Create bs = Inr g" "fmp_Validate pool g = Ok" "unat stripes < 2 ^ 32"
  shows "\<forall>r \<in> set (kl_requests pool stripes g). sl_fits r"
    and "map sl_need (kl_requests pool stripes g) = map snd (kl_regions (unat pool) (unat stripes) g k)"
proof -
  obtain j where j: "12 \<le> j" "j \<le> 22" "bs = 2 ^ j" "unat (bg_block_shift g) = j"
    using assms(1) by (rule bg_Create_cases)
  have p: "unat pool < 4294967295" using fmp_ValidateD [OF assms(2)] by simp
  have bc: "unat (word_of_nat (BucketCount (unat pool)) :: size_t) = BucketCount (unat pool)"
    "BucketCount (unat pool) \<le> 4294967296"
    using BucketCount_bound [of "unat pool"] p by (simp_all add: unat_of_nat take_bit_nat_eq_self)
  have "(2 :: nat) ^ j \<le> 2 ^ 22" using j by (intro power_increasing) simp_all
  then have "unat pool * 2 ^ j \<le> 4294967295 * 4194304" using p by (intro mult_mono) simp_all
  then have fr: "unat (push_bit j pool) = unat pool * 2 ^ j" "unat pool * 2 ^ j \<le> 2 ^ 54"
    by (simp_all add: unat_push_bit_fits)
  have st: "unat (max stripes 1) = max (unat stripes) 1" "max (unat stripes) 1 \<le> 2 ^ 32"
    using assms(3) by (auto simp: max_def word_le_nat_alt)
  have al: "\<exists>k. 6 \<le> k \<and> k \<le> (12 :: nat) \<and> (64 :: size_t) = 2 ^ k"
    "\<exists>k. 6 \<le> k \<and> k \<le> (12 :: nat) \<and> (4096 :: size_t) = 2 ^ k"
    by (rule exI [of _ 6], simp) (rule exI [of _ 12], simp)
  show "\<forall>r \<in> set (kl_requests pool stripes g). sl_fits r"
    using p bc fr st al by (simp add: kl_requests_def sl_fits_def j)
  show "map sl_need (kl_requests pool stripes g) = map snd (kl_regions (unat pool) (unat stripes) g k)"
    using bc fr st j by (simp add: kl_requests_def kl_regions_def sl_need_def bg_block_size_def push_bit_of_1 unat_power)
qed

lemma KernelLayout_For_run:
  assumes "sl_run (kl_requests pool stripes g) sl_empty = (offs, l)"
  shows "map fst (kl_regions n m g (KernelLayout_For pool stripes g)) = offs"
    and "kl_bytes (KernelLayout_For pool stripes g) = sl_bytes l"
  using assms
  by (auto simp: kl_requests_def kl_regions_def KernelLayout_For_def pt_Reserve_def fl_Reserve_def fmp_Reserve_def
      fmp_kAlignment_def kCacheLineSize_def Let_def case_prod_beta)

lemma packed_mono: "packed lo rs hi \<Longrightarrow> hi \<le> hi' \<Longrightarrow> packed lo rs hi'"
  by (induction rs arbitrary: lo) auto

section \<open>Properties\<close>



text \<open>
  C14.  \<^verbatim>\<open>BlockGeometry::Create\<close> accepts exactly the powers of two from 4 KiB to 4 MiB and keeps
  the size; the frames of an accepted pool are as long as a block, disjoint, and inside the
  arena, without wrap-around; two blocks share a file offset exactly when their ids agree in
  the low \<open>64 - shift\<close> bits.
\<close>

theorem geometry_is_exact:
  assumes g: "bg_Create block_size = Inr g" and v: "fmp_Validate pool_size g = Ok"
    and f: "unat f < unat pool_size"
  shows "((\<exists>g. bg_Create other_size = Inr g) \<longleftrightarrow> (\<exists>k. 12 \<le> k \<and> k \<le> 22 \<and> other_size = 2 ^ k)) \<and>
    bg_block_size g = block_size \<and>
    unat (FrameOffset g f) = unat f * unat block_size \<and>
    unat (FrameOffset g f) + unat block_size \<le> unat pool_size * unat block_size \<and>
    (BlockOffset g b1 = BlockOffset g b2 \<longleftrightarrow>
       take_bit (64 - unat (bg_block_shift g)) b1 = take_bit (64 - unat (bg_block_shift g)) b2)"
proof (intro conjI)
  obtain k where k: "12 \<le> k" "k \<le> 22" "block_size = 2 ^ k" "unat (bg_block_shift g) = k"
    using g by (rule bg_Create_cases)
  show "(\<exists>g. bg_Create other_size = Inr g) \<longleftrightarrow> (\<exists>k. 12 \<le> k \<and> k \<le> 22 \<and> other_size = 2 ^ k)"
    by (auto simp: bg_Create_def IsValidBlockSize_iff)
  show "bg_block_size g = block_size" using k by (simp add: bg_block_size_def push_bit_of_1)
  show "BlockOffset g b1 = BlockOffset g b2 \<longleftrightarrow>
     take_bit (64 - unat (bg_block_shift g)) b1 = take_bit (64 - unat (bg_block_shift g)) b2"
    using k push_bit_eq_iff [of k b1 b2] by (simp add: BlockOffset_def)
  have bs: "unat block_size = 2 ^ k" using k by (simp add: unat_power)
  have "(2 :: nat) ^ k \<le> 2 ^ 22" using k by (intro power_increasing) simp_all
  moreover have "unat f < 4294967295" using f fmp_ValidateD [OF v] by simp
  moreover from this have fw: "unat (ucast f :: size_t) = unat f"
    by (simp add: unsigned_ucast_eq take_bit_nat_eq_self)
  ultimately have "unat f * 2 ^ k \<le> 4294967295 * 2 ^ 22" by (intro mult_mono) simp_all
  then have "unat (push_bit k (ucast f :: size_t)) = unat f * 2 ^ k"
    using unat_push_bit_fits [of "ucast f" k] fw by simp
  then show off: "unat (FrameOffset g f) = unat f * unat block_size"
    using k bs by (simp add: FrameOffset_def)
  have "unat f * 2 ^ k + 2 ^ k \<le> unat pool_size * 2 ^ k"
    using mult_le_mono1 [of "Suc (unat f)" "unat pool_size" "2 ^ k"] f by simp
  then show "unat (FrameOffset g f) + unat block_size \<le> unat pool_size * unat block_size"
    using off bs by simp
qed

theorem geometry_is_exact_witness:
  "FrameOffset \<lparr>bg_block_shift = 12\<rparr> 9 = 36864 \<and> bg_block_size \<lparr>bg_block_shift = 12\<rparr> = 4096 \<and>
   BlockOffset \<lparr>bg_block_shift = 12\<rparr> (2 ^ 52) = BlockOffset \<lparr>bg_block_shift = 12\<rparr> 0"
proof -
  have g: "bg_Create 4096 = Inr \<lparr>bg_block_shift = 12\<rparr>" by code_simp
  have v: "fmp_Validate 10 \<lparr>bg_block_shift = 12\<rparr> = Ok" by code_simp
  have "take_bit 52 (2 ^ 52 :: BlockId) = take_bit 52 0" by code_simp
  moreover have "FrameOffset \<lparr>bg_block_shift = 12\<rparr> 9 = 36864" by code_simp
  ultimately show ?thesis
    using geometry_is_exact [OF g v, of 9 0 "2 ^ 52" 0] by simp
qed

end
