(* ===== verification/Options.thy ===== *)
theory Options
  imports Prelude Status
begin

text \<open>
  Configuration: \<^verbatim>\<open>io/disk_backend_options.h\<close>, \<^verbatim>\<open>options/buffer_manager_options.h\<close>, the
  resolution of defaults in \<^verbatim>\<open>buffer_manager_lifecycle.cc\<close>, and the ring of frames of
  \<^verbatim>\<open>buffer/buffer_access_strategy.cc\<close>.  \<^verbatim>\<open>std::thread::hardware_concurrency()\<close> is an
  argument of the functions that ask for it.
\<close>

section \<open>Disk backend options\<close>

datatype DiskBackendKind = kAuto | kPosix | kIoUring

record DiskBackendOptions =
  do_preferred_kind :: DiskBackendKind
  do_allow_fallback :: bool
  do_queue_depth :: size_t
  do_max_open_files :: size_t
  do_sync_on_write :: bool
  do_io_worker_count :: size_t

definition ResolveQueueDepth :: "DiskBackendOptions \<Rightarrow> size_t" where
  "ResolveQueueDepth opts =
     (if do_queue_depth opts \<noteq> 0 then do_queue_depth opts
      else case do_preferred_kind opts of kIoUring \<Rightarrow> 64 | kAuto \<Rightarrow> 32 | kPosix \<Rightarrow> 1)"

definition ResolveMaxOpenFiles :: "DiskBackendOptions \<Rightarrow> size_t" where
  "ResolveMaxOpenFiles opts = (if do_max_open_files opts \<noteq> 0 then do_max_open_files opts else 64)"

definition ResolveIoWorkerCount :: "DiskBackendOptions \<Rightarrow> size_t" where
  "ResolveIoWorkerCount opts = (if do_io_worker_count opts \<noteq> 0 then do_io_worker_count opts else 4)"

record DiskBackendCapabilities =
  cap_kind :: DiskBackendKind
  cap_is_fallback_backend :: bool
  cap_queue_depth :: size_t
  cap_max_request_blocks :: size_t
  cap_block_size :: size_t

section \<open>Buffer manager options\<close>

datatype ForegroundWriteback = kDirect | kQueued

datatype SharedMemoryMode = kCreateOrAttach | kCreate | kAttach

record SharedMemoryOptions =
  sm_name :: string
  sm_mode :: SharedMemoryMode
  sm_remove_when_unused :: bool

record ObservationOptions =
  ob_enabled :: bool
  ob_shared_memory_name :: string
  ob_publish_interval :: int

text \<open>The hook before a writeback is code of the client; it sees the tag and the page.\<close>

type_synonym PreWriteHook = "BufferTag \<Rightarrow> u8 list \<Rightarrow> Status"

record BufferManagerOptions =
  bo_pool_size :: size_t
  bo_page_size :: size_t
  bo_page_table_stripe_count :: size_t
  bo_disk_backend :: DiskBackendOptions
  bo_flush_worker_count :: size_t
  bo_flush_submit_batch_size :: size_t
  bo_flush_foreground_burst_limit :: size_t
  bo_enable_background_cleaner :: bool
  bo_dirty_page_high_watermark :: size_t
  bo_dirty_page_low_watermark :: size_t
  bo_foreground_writeback :: ForegroundWriteback
  bo_pre_write_hook :: "PreWriteHook option"
  bo_shared_memory :: SharedMemoryOptions
  bo_observation :: ObservationOptions

text \<open>The default member initializers, with the two sizes that a client has to give.\<close>

definition do_default :: DiskBackendOptions where
  "do_default = \<lparr>do_preferred_kind = kAuto, do_allow_fallback = True, do_queue_depth = 0, do_max_open_files = 0,
     do_sync_on_write = False, do_io_worker_count = 0\<rparr>"

definition bo_default :: "size_t \<Rightarrow> size_t \<Rightarrow> BufferManagerOptions" where
  "bo_default pool_size page_size =
     \<lparr>bo_pool_size = pool_size, bo_page_size = page_size, bo_page_table_stripe_count = 0,
      bo_disk_backend = do_default, bo_flush_worker_count = 0, bo_flush_submit_batch_size = 0,
      bo_flush_foreground_burst_limit = 0, bo_enable_background_cleaner = False,
      bo_dirty_page_high_watermark = 0, bo_dirty_page_low_watermark = 0,
      bo_foreground_writeback = kDirect, bo_pre_write_hook = None,
      bo_shared_memory = \<lparr>sm_name = '''', sm_mode = kCreateOrAttach, sm_remove_when_unused = True\<rparr>,
      bo_observation = \<lparr>ob_enabled = False, ob_shared_memory_name = '''', ob_publish_interval = 1000\<rparr>\<rparr>"

definition ResolvePageTableStripeCount :: "u32 \<Rightarrow> BufferManagerOptions \<Rightarrow> size_t" where
  "ResolvePageTableStripeCount hardware_concurrency opts =
     (if bo_page_table_stripe_count opts \<noteq> 0 then bo_page_table_stripe_count opts
      else let hardware_threads = max 1 (ucast hardware_concurrency);
               baseline = max 16 (hardware_threads * 4)
           in min baseline (max 1 (bo_pool_size opts)))"

definition ResolveDirtyPageHighWatermark :: "BufferManagerOptions \<Rightarrow> size_t" where
  "ResolveDirtyPageHighWatermark opts =
     (if bo_pool_size opts = 0 then 0
      else if bo_dirty_page_high_watermark opts \<noteq> 0
        then min (bo_dirty_page_high_watermark opts) (bo_pool_size opts)
      else max 1 ((bo_pool_size opts * 3) div 4))"

definition ResolveDirtyPageLowWatermark :: "BufferManagerOptions \<Rightarrow> size_t" where
  "ResolveDirtyPageLowWatermark opts =
     (let high = ResolveDirtyPageHighWatermark opts in
      if high = 0 then 0
      else let max_low = high - 1 in
        if bo_dirty_page_low_watermark opts \<noteq> 0 then min (bo_dirty_page_low_watermark opts) max_low
        else if high = 1 then 0
        else min (high div 2) max_low)"

text \<open>The steps of \<^verbatim>\<open>BufferManager::Initialize\<close> that settle the options.\<close>

definition ResolveCleanerOptions :: "BufferManagerOptions \<Rightarrow> BufferManagerOptions" where
  "ResolveCleanerOptions opts =
     (if \<not> bo_enable_background_cleaner opts then opts
      else let opts = opts\<lparr>bo_dirty_page_high_watermark := ResolveDirtyPageHighWatermark opts\<rparr>;
               opts = opts\<lparr>bo_dirty_page_low_watermark := ResolveDirtyPageLowWatermark opts\<rparr>
           in if bo_dirty_page_high_watermark opts = 0
              then opts\<lparr>bo_enable_background_cleaner := False\<rparr> else opts)"

definition clamp :: "size_t \<Rightarrow> size_t \<Rightarrow> size_t \<Rightarrow> size_t" where
  "clamp v lo hi = (if v < lo then lo else if hi < v then hi else v)"

definition ResolveFlushWorkerCount :: "size_t \<Rightarrow> DiskBackendCapabilities \<Rightarrow> BufferManagerOptions \<Rightarrow> size_t" where
  "ResolveFlushWorkerCount pool_size capabilities opts =
     (let max_worker_count = max 1 pool_size;
          derived = cap_queue_depth capabilities;
          derived = (if derived = 0 then 1 else derived);
          derived = (if derived > 4 then 4 else derived);
          derived = (if derived > max_worker_count then max_worker_count else derived)
      in if bo_flush_worker_count opts = 0 then derived
         else clamp (bo_flush_worker_count opts) 1 max_worker_count)"

definition ResolveFlushSubmitBatchSize ::
  "DiskBackendCapabilities \<Rightarrow> size_t \<Rightarrow> BufferManagerOptions \<Rightarrow> size_t" where
  "ResolveFlushSubmitBatchSize capabilities flush_worker_count opts =
     (let max_submit_batch_size = max 1 (cap_queue_depth capabilities);
          derived = max 1 (cap_queue_depth capabilities div flush_worker_count)
      in if bo_flush_submit_batch_size opts = 0 then derived
         else clamp (bo_flush_submit_batch_size opts) 1 max_submit_batch_size)"

definition ResolveFlushForegroundBurstLimit :: "BufferManagerOptions \<Rightarrow> size_t" where
  "ResolveFlushForegroundBurstLimit opts =
     (let derived = bo_flush_submit_batch_size opts * 4;
          derived = (if derived < 4 then 4 else derived)
      in if bo_flush_foreground_burst_limit opts = 0 then derived
         else max 1 (bo_flush_foreground_burst_limit opts))"

definition ResolveOptions :: "size_t \<Rightarrow> DiskBackendCapabilities \<Rightarrow> BufferManagerOptions \<Rightarrow> BufferManagerOptions" where
  "ResolveOptions pool_size capabilities opts =
     (let opts = ResolveCleanerOptions opts;
          opts = opts\<lparr>bo_flush_worker_count := ResolveFlushWorkerCount pool_size capabilities opts\<rparr>;
          opts = opts\<lparr>bo_flush_submit_batch_size :=
                        ResolveFlushSubmitBatchSize capabilities (bo_flush_worker_count opts) opts\<rparr>
      in opts\<lparr>bo_flush_foreground_burst_limit := ResolveFlushForegroundBurstLimit opts\<rparr>)"

section \<open>Access strategies\<close>

datatype BufferAccessStrategyType = kNormal | kBulkRead

record BufferAccessStrategy =
  as_type :: BufferAccessStrategyType
  as_ring :: "FrameId list"
  as_current :: nat

definition kDefaultBulkReadRingSize :: nat where
  "kDefaultBulkReadRingSize = 32"

definition as_create :: "BufferAccessStrategyType \<Rightarrow> nat \<Rightarrow> BufferAccessStrategy" where
  "as_create type ring_size =
     \<lparr>as_type = type,
      as_ring = (if type = kNormal then []
                 else replicate (if ring_size = 0 then kDefaultBulkReadRingSize else ring_size) kInvalidFrameId),
      as_current = 0\<rparr>"

definition as_RecordsAccesses :: "BufferAccessStrategy \<Rightarrow> bool" where
  "as_RecordsAccesses st \<longleftrightarrow> as_type st = kNormal"

text \<open>The position stays below the length of the ring, so adding one to it never wraps.\<close>

definition NextRingFrame :: "BufferAccessStrategy \<Rightarrow> FrameId \<times> BufferAccessStrategy" where
  "NextRingFrame st =
     (if as_ring st = [] then (kInvalidFrameId, st)
      else let st = st\<lparr>as_current := (as_current st + 1) mod length (as_ring st)\<rparr>
           in (as_ring st ! as_current st, st))"

definition RememberRingFrame :: "FrameId \<Rightarrow> BufferAccessStrategy \<Rightarrow> BufferAccessStrategy" where
  "RememberRingFrame frame_id st =
     (if as_ring st = [] then st
      else st\<lparr>as_ring := (as_ring st)[as_current st := frame_id]\<rparr>)"

text \<open>A scan: for each page the next frame of the ring is asked for and the frame used is stored.\<close>

fun ring_scan :: "FrameId list \<Rightarrow> BufferAccessStrategy \<Rightarrow> FrameId list" where
  "ring_scan [] st = []"
| "ring_scan (f # fs) st =
     (let (r, st) = NextRingFrame st in r # ring_scan fs (RememberRingFrame f st))"

section \<open>Lemmas\<close>

lemma high_watermark_bounds:
  assumes "0 < unat (bo_pool_size opts)" "unat (bo_pool_size opts) < 2 ^ 32"
  shows "0 < unat (ResolveDirtyPageHighWatermark opts)"
    and "unat (ResolveDirtyPageHighWatermark opts) \<le> unat (bo_pool_size opts)"
proof -
  let ?p = "bo_pool_size opts"
  have m: "unat (?p * 3 div 4) = unat ?p * 3 div 4"
    using assms(2) by (simp add: unat_word_ariths unat_div)
  have "unat (max 1 (?p * 3 div 4)) = max 1 (unat ?p * 3 div 4)"
    by (simp add: max_def word_le_nat_alt m)
  moreover have "0 < unat (min w ?p) \<and> unat (min w ?p) \<le> unat ?p" if "w \<noteq> 0" for w
    using that assms(1) by (simp add: min_def word_le_nat_alt unat_gt_0)
  ultimately show "0 < unat (ResolveDirtyPageHighWatermark opts)"
    and "unat (ResolveDirtyPageHighWatermark opts) \<le> unat ?p"
    using assms(1) by (auto simp: ResolveDirtyPageHighWatermark_def)
qed

lemma low_watermark_bounds:
  assumes "0 < unat (ResolveDirtyPageHighWatermark opts)"
  shows "unat (ResolveDirtyPageLowWatermark opts) < unat (ResolveDirtyPageHighWatermark opts)"
proof -
  let ?h = "ResolveDirtyPageHighWatermark opts"
  have nz: "?h \<noteq> 0" using assms by auto
  have "unat (?h - 1) < unat ?h" using assms unat_minus_one [OF nz] by simp
  then have "unat (min w (?h - 1)) < unat ?h" for w by (simp add: min_def word_le_nat_alt)
  then show ?thesis using nz assms by (auto simp: ResolveDirtyPageLowWatermark_def Let_def)
qed

lemma clamp_bounds: "lo \<le> hi \<Longrightarrow> lo \<le> clamp v lo hi \<and> clamp v lo hi \<le> hi"
  by (auto simp: clamp_def)

lemma worker_count_bounds:
  "1 \<le> ResolveFlushWorkerCount pool cap opts" "ResolveFlushWorkerCount pool cap opts \<le> max 1 pool"
  by (auto simp: ResolveFlushWorkerCount_def Let_def clamp_def not_less word_le_nat_alt unat_gt_0 max_def
      Suc_le_eq split: if_splits)

lemma batch_size_bounds:
  assumes "1 \<le> workers"
  shows "1 \<le> ResolveFlushSubmitBatchSize cap workers opts"
    "ResolveFlushSubmitBatchSize cap workers opts \<le> max 1 (cap_queue_depth cap)"
proof -
  have "cap_queue_depth cap div workers \<le> cap_queue_depth cap"
    by (simp add: word_le_nat_alt unat_div div_le_dividend)
  then show "1 \<le> ResolveFlushSubmitBatchSize cap workers opts"
    "ResolveFlushSubmitBatchSize cap workers opts \<le> max 1 (cap_queue_depth cap)"
    using clamp_bounds [of 1 "max 1 (cap_queue_depth cap)" "bo_flush_submit_batch_size opts"]
    by (auto simp: ResolveFlushSubmitBatchSize_def Let_def le_max_iff_disj)
qed

lemma burst_limit_bounds: "1 \<le> ResolveFlushForegroundBurstLimit opts"
  by (auto simp: ResolveFlushForegroundBurstLimit_def Let_def word_le_nat_alt word_less_nat_alt max_def)

lemma resolved_cleaner:
  assumes "0 < unat (bo_pool_size opts)" "unat (bo_pool_size opts) < 2 ^ 32" "bo_enable_background_cleaner opts"
  shows "bo_dirty_page_low_watermark (ResolveCleanerOptions opts) < bo_dirty_page_high_watermark (ResolveCleanerOptions opts)"
    and "bo_dirty_page_high_watermark (ResolveCleanerOptions opts) \<le> bo_pool_size opts"
    and "bo_enable_background_cleaner (ResolveCleanerOptions opts)"
proof -
  let ?h = "ResolveDirtyPageHighWatermark opts"
  let ?o = "opts\<lparr>bo_dirty_page_high_watermark := ?h\<rparr>"
  note h = high_watermark_bounds [OF assms(1,2)]
  have nz: "?h \<noteq> 0" "bo_pool_size opts \<noteq> 0" using h(1) assms(1) by auto
  have same: "ResolveDirtyPageHighWatermark ?o = ?h"
    using nz h(2) by (simp add: ResolveDirtyPageHighWatermark_def [of ?o] min_def word_le_nat_alt)
  have "unat (ResolveDirtyPageLowWatermark ?o) < unat ?h"
    using low_watermark_bounds [of ?o] h(1) unfolding same by simp
  then show "bo_dirty_page_low_watermark (ResolveCleanerOptions opts) < bo_dirty_page_high_watermark (ResolveCleanerOptions opts)"
    and "bo_dirty_page_high_watermark (ResolveCleanerOptions opts) \<le> bo_pool_size opts"
    and "bo_enable_background_cleaner (ResolveCleanerOptions opts)"
    using assms(3) nz h(2) by (simp_all add: ResolveCleanerOptions_def Let_def word_less_nat_alt word_le_nat_alt)
qed

text \<open>
  The slots of a ring in the order in which the next steps of a scan visit them.  Step \<open>k + d\<close>
  finds in its slot the frame that step \<open>k + d - n\<close> stored, if there was one.
\<close>

definition ring_holds :: "(nat \<Rightarrow> FrameId) \<Rightarrow> nat \<Rightarrow> BufferAccessStrategy \<Rightarrow> bool" where
  "ring_holds found k st \<longleftrightarrow>
     as_ring st \<noteq> [] \<and> as_current st = k mod length (as_ring st) \<and>
     (\<forall>d < length (as_ring st). as_ring st ! ((k + 1 + d) mod length (as_ring st)) = found (k + d))"

lemma ring_holds_step:
  assumes "ring_holds found k st" "f = found (k + length (as_ring st))"
  obtains st' where "NextRingFrame st = (found k, st')" "ring_holds found (k + 1) (RememberRingFrame f st')"
    "length (as_ring (RememberRingFrame f st')) = length (as_ring st)"
proof -
  let ?n = "length (as_ring st)"
  have n: "0 < ?n" and cur: "(as_current st + 1) mod ?n = (k + 1) mod ?n"
    and slots: "\<And>d. d < ?n \<Longrightarrow> as_ring st ! ((k + 1 + d) mod ?n) = found (k + d)"
    using assms(1) by (auto simp: ring_holds_def mod_Suc_eq)
  let ?st = "st\<lparr>as_current := (k + 1) mod ?n\<rparr>"
  have nx: "NextRingFrame st = (found k, ?st)"
    using n slots [of 0] cur by (auto simp: NextRingFrame_def Let_def)
  have "(as_ring st)[(k + 1) mod ?n := f] ! ((k + 2 + d) mod ?n) = found (k + 1 + d)" if d: "d < ?n" for d
  proof (cases "Suc d = ?n")
    case True
    then have kd: "k + 2 + d = k + 1 + ?n" by simp
    have "(k + 2 + d) mod ?n = (k + 1) mod ?n" unfolding kd by (rule mod_add_self2)
    then have "(as_ring st)[(k + 1) mod ?n := f] ! ((k + 2 + d) mod ?n) = f" using n by simp
    moreover have "k + 1 + d = k + ?n" using kd by simp
    ultimately show ?thesis using assms(2) by metis
  next
    case False
    have "(k + 1 + 0) mod ?n \<noteq> (k + 1 + Suc d) mod ?n"
    proof
      assume "(k + 1 + 0) mod ?n = (k + 1 + Suc d) mod ?n"
      then have "?n dvd Suc d" using mod_eq_dvd_iff_nat [of "k + 1 + 0" "k + 1 + Suc d" ?n] by simp
      then have "?n \<le> Suc d" by (rule dvd_imp_le) simp
      then show False using d False by simp
    qed
    then show ?thesis using slots [of "Suc d"] d False by simp
  qed
  then have "ring_holds found (k + 1) (RememberRingFrame f ?st)"
    using n by (auto simp: ring_holds_def RememberRingFrame_def)
  then show thesis using nx that by (simp add: RememberRingFrame_def)
qed

lemma ring_scan_found:
  assumes "ring_holds found k st" "\<And>i. i < length fs \<Longrightarrow> fs ! i = found (k + i + length (as_ring st))"
  shows "ring_scan fs st = map (\<lambda>i. found (k + i)) [0..<length fs]"
  using assms
proof (induction fs arbitrary: k st)
  case Nil
  then show ?case by simp
next
  case (Cons f fs)
  have "f = found (k + length (as_ring st))" using Cons.prems(2) [of 0] by simp
  then obtain st' where st': "NextRingFrame st = (found k, st')" "ring_holds found (k + 1) (RememberRingFrame f st')"
    "length (as_ring (RememberRingFrame f st')) = length (as_ring st)"
    using ring_holds_step [OF Cons.prems(1)] by blast
  have "ring_scan fs (RememberRingFrame f st') = map (\<lambda>i. found (k + 1 + i)) [0..<length fs]"
    using Cons.IH [OF st'(2)] Cons.prems(2) st'(3) by (metis Suc_less_eq add.assoc length_Cons nth_Cons_Suc plus_1_eq_Suc)
  then show ?case using st'(1) by (simp add: upt_conv_Cons map_Suc_upt [symmetric] del: upt_Suc)
qed

section \<open>Properties\<close>

text \<open>
  C15.  Whatever a client configures, a pool of fewer than \<open>2\<^sup>3\<^sup>2\<close> frames runs with at
  least one flush worker and at most one per frame, a batch between one request and the queue
  depth of the backend, a burst limit of at least one, and, when the cleaner is enabled, a
  low watermark strictly below a high watermark that the pool can reach.
\<close>

theorem resolved_options_in_range:
  fixes cap :: DiskBackendCapabilities and opts :: BufferManagerOptions
  assumes "0 < unat (bo_pool_size opts)" "unat (bo_pool_size opts) < 2 ^ 32"
  defines "res \<equiv> ResolveOptions (bo_pool_size opts) cap opts"
  shows "1 \<le> bo_flush_worker_count res \<and> bo_flush_worker_count res \<le> bo_pool_size opts \<and>
    1 \<le> bo_flush_submit_batch_size res \<and> bo_flush_submit_batch_size res \<le> max 1 (cap_queue_depth cap) \<and>
    1 \<le> bo_flush_foreground_burst_limit res \<and>
    bo_enable_background_cleaner res = bo_enable_background_cleaner opts \<and>
    (bo_enable_background_cleaner res \<longrightarrow>
       bo_dirty_page_low_watermark res < bo_dirty_page_high_watermark res \<and>
       bo_dirty_page_high_watermark res \<le> bo_pool_size opts)"
proof -
  have "max 1 (bo_pool_size opts) = bo_pool_size opts"
    using assms(1) by (simp add: max_def word_le_nat_alt Suc_le_eq)
  moreover note worker_count_bounds [of "bo_pool_size opts" cap "ResolveCleanerOptions opts"]
  moreover note batch_size_bounds [OF this(1), of cap]
  moreover have "bo_enable_background_cleaner (ResolveCleanerOptions opts) = bo_enable_background_cleaner opts"
    using resolved_cleaner(3) [OF assms(1,2)] by (cases "bo_enable_background_cleaner opts") (auto simp: ResolveCleanerOptions_def)
  moreover note resolved_cleaner(1,2) [OF assms(1,2)] burst_limit_bounds
  ultimately show ?thesis by (simp add: res_def ResolveOptions_def Let_def)
qed

theorem resolved_options_in_range_witness:
  "let opts = (bo_default 8 4096)\<lparr>bo_enable_background_cleaner := True\<rparr>;
       cap = \<lparr>cap_kind = kPosix, cap_is_fallback_backend = False, cap_queue_depth = 4,
              cap_max_request_blocks = 32, cap_block_size = 4096\<rparr>;
       res = ResolveOptions (bo_pool_size opts) cap opts
   in bo_dirty_page_low_watermark res < bo_dirty_page_high_watermark res \<and>
      bo_flush_worker_count res \<le> 8"
proof -
  let ?opts = "(bo_default 8 4096)\<lparr>bo_enable_background_cleaner := True\<rparr>"
  let ?cap = "\<lparr>cap_kind = kPosix, cap_is_fallback_backend = False, cap_queue_depth = 4,
    cap_max_request_blocks = 32, cap_block_size = 4096\<rparr>"
  have "0 < unat (bo_pool_size ?opts)" "unat (bo_pool_size ?opts) < 2 ^ 32" by (simp_all add: bo_default_def)
  then show ?thesis
    using resolved_options_in_range [of ?opts ?cap] by (simp add: Let_def bo_default_def)
qed

text \<open>
  C16.  A bulk-read strategy recycles its ring: the frame offered for page \<open>i\<close> of a scan is the
  one stored for page \<open>i - n\<close>, where \<open>n\<close> is the length of the ring, and the first \<open>n\<close> pages
  are offered none.  A scan therefore occupies at most \<open>n\<close> frames.
\<close>

theorem bulk_read_recycles_ring:
  "ring_scan fs (as_create kBulkRead ring_size) =
     (let n = if ring_size = 0 then kDefaultBulkReadRingSize else ring_size
      in map (\<lambda>i. if i < n then kInvalidFrameId else fs ! (i - n)) [0..<length fs])"
proof -
  define n where "n = (if ring_size = 0 then kDefaultBulkReadRingSize else ring_size)"
  let ?found = "\<lambda>i. if i < n then kInvalidFrameId else fs ! (i - n)"
  have n: "0 < n" by (simp add: n_def kDefaultBulkReadRingSize_def)
  have "ring_holds ?found 0 (as_create kBulkRead ring_size)"
    using n by (auto simp: ring_holds_def as_create_def n_def [symmetric])
  moreover have "fs ! i = ?found (0 + i + length (as_ring (as_create kBulkRead ring_size)))" for i
    by (simp add: as_create_def n_def [symmetric])
  ultimately have "ring_scan fs (as_create kBulkRead ring_size) = map (\<lambda>i. ?found (0 + i)) [0..<length fs]"
    by (rule ring_scan_found)
  then show ?thesis by (simp add: n_def [symmetric] Let_def)
qed

end
