(* ===== verification/Disk_Request.thy ===== *)
theory Disk_Request
  imports Geometry Options
begin

text \<open>
  \<^verbatim>\<open>io/disk_backend.h\<close> and \<^verbatim>\<open>lib/io/disk_request_util.h\<close>: requests to a disk backend, the
  vectors of buffers they transfer, and their validation.  A buffer is named by its address
  and the memory maps an address to the block that starts there; a null pointer is \<open>None\<close>.
  Lengths are natural numbers: a request has at most 32 blocks of at most 4 MiB, so none of
  the products wraps.
\<close>

section \<open>Requests\<close>

datatype DiskOperation = kRead | kWrite | kSync

datatype DiskSubmitMode = kWait | kAsync

definition kMaxDiskRequestBlocks :: nat where
  "kMaxDiskRequestBlocks = 32"

type_synonym addr = nat
type_synonym memory = "addr \<Rightarrow> u8 list"

record DiskRequest =
  dr_token :: u64
  dr_operation :: DiskOperation
  dr_tag :: BufferTag
  dr_block_count :: u32
  dr_buffers :: "addr option list"

record DiskCompletion =
  dc_token :: u64
  dc_status :: Status

text \<open>The addresses of the blocks of a request that has been validated.\<close>

definition dr_addrs :: "DiskRequest \<Rightarrow> addr list" where
  "dr_addrs r = map (\<lambda>i. the (dr_buffers r ! i)) [0..<unat (dr_block_count r)]"

definition ValidateDiskRequest :: "DiskRequest \<Rightarrow> nat \<Rightarrow> Status" where
  "ValidateDiskRequest request max_request_blocks =
     (if dr_operation request = kSync then Ok
      else if dr_block_count request = 0 \<or> unat (dr_block_count request) > max_request_blocks
        then Inl (InvalidArgument ''disk request block count is out of range'')
      else if \<exists>i \<in> set [0..<unat (dr_block_count request)]. dr_buffers request ! i = None
        then Inl (InvalidArgument ''disk request buffer must not be null'')
      else Ok)"

section \<open>Vectors\<close>

text \<open>An element of an \<^verbatim>\<open>iovec\<close> array: the buffer, the bytes to skip in it, the bytes to transfer.\<close>

type_synonym iovec = "addr \<times> nat \<times> nat"

text \<open>The vector for the bytes of a request that are still to be transferred.\<close>

definition iov_from :: "nat \<Rightarrow> addr list \<Rightarrow> nat \<Rightarrow> iovec list" where
  "iov_from block_size buffers transferred =
     map (\<lambda>i. let skip = (if i = transferred div block_size then transferred mod block_size else 0)
              in (buffers ! i, skip, block_size - skip))
         [transferred div block_size ..< length buffers]"

fun iov_scatter :: "iovec list \<Rightarrow> u8 list \<Rightarrow> memory \<Rightarrow> memory" where
  "iov_scatter [] d m = m"
| "iov_scatter ((p, s, l) # v) d m =
     iov_scatter v (drop l d) (m(p := take s (m p) @ take l d @ drop (s + length (take l d)) (m p)))"

fun iov_gather :: "iovec list \<Rightarrow> memory \<Rightarrow> u8 list" where
  "iov_gather [] m = []"
| "iov_gather ((p, s, l) # v) m = take l (drop s (m p)) @ iov_gather v m"

definition ZeroFillBlock :: "nat \<Rightarrow> nat \<Rightarrow> nat \<Rightarrow> u8 list \<Rightarrow> u8 list" where
  "ZeroFillBlock block_size transferred i b =
     (let block_begin = i * block_size in
      if transferred \<ge> block_begin + block_size then b
      else let off = (if transferred > block_begin then transferred - block_begin else 0)
           in take off b @ replicate (block_size - off) 0)"

definition ZeroFillReadTail :: "addr list \<Rightarrow> nat \<Rightarrow> nat \<Rightarrow> memory \<Rightarrow> memory" where
  "ZeroFillReadTail buffers block_size transferred m =
     fold (\<lambda>i m. m(buffers ! i := ZeroFillBlock block_size transferred i (m (buffers ! i))))
       [0..<length buffers] m"

section \<open>Vectors transfer a contiguous range\<close>

text \<open>The bytes of a request's buffers, one after another.\<close>

definition flat :: "memory \<Rightarrow> addr list \<Rightarrow> u8 list" where
  "flat m ps = concat (map m ps)"

definition blocks :: "nat \<Rightarrow> memory \<Rightarrow> addr list \<Rightarrow> bool" where
  "blocks bs m ps \<longleftrightarrow> distinct ps \<and> (\<forall>p \<in> set ps. length (m p) = bs)"

lemma flat_simps [simp]: "flat m [] = []" "flat m (p # ps) = m p @ flat m ps" "flat m (ps @ qs) = flat m ps @ flat m qs"
  by (simp_all add: flat_def)

lemma flat_frame [simp]: "p \<notin> set ps \<Longrightarrow> flat (m(p := b)) ps = flat m ps"
  by (induction ps) auto

lemma length_flat: "blocks bs m ps \<Longrightarrow> length (flat m ps) = length ps * bs"
  by (induction ps) (auto simp: blocks_def)

lemma blocks_Cons: "blocks bs m (p # ps) \<longleftrightarrow> p \<notin> set ps \<and> length (m p) = bs \<and> blocks bs m ps"
  by (auto simp: blocks_def)

lemma iov_scatter_other: "q \<notin> fst ` set v \<Longrightarrow> iov_scatter v d m q = m q"
  by (induction v d m rule: iov_scatter.induct) auto

lemma iov_scatter_whole:
  assumes "blocks bs m ps" "length d \<le> length ps * bs"
  shows "flat (iov_scatter (map (\<lambda>p. (p, 0, bs)) ps) d m) ps = d @ drop (length d) (flat m ps) \<and>
    blocks bs (iov_scatter (map (\<lambda>p. (p, 0, bs)) ps) d m) ps"
  using assms
proof (induction ps arbitrary: m d)
  case Nil
  then show ?case by (simp add: blocks_def)
next
  case (Cons p ps)
  define b where "b = take bs d @ drop (length (take bs d)) (m p)"
  have p: "p \<notin> set ps" "length (m p) = bs" "blocks bs m ps" using Cons.prems(1) by (auto simp: blocks_Cons)
  have b: "length b = bs" using p by (simp add: b_def min_def)
  have "blocks bs (m(p := b)) ps" using p by (auto simp: blocks_def)
  moreover have "length (drop bs d) \<le> length ps * bs" using Cons.prems(2) by simp
  ultimately have ih: "flat (iov_scatter (map (\<lambda>p. (p, 0, bs)) ps) (drop bs d) (m(p := b))) ps =
      drop bs d @ drop (length (drop bs d)) (flat m ps)"
    "blocks bs (iov_scatter (map (\<lambda>p. (p, 0, bs)) ps) (drop bs d) (m(p := b))) ps"
    using Cons.IH [of "m(p := b)" "drop bs d"] p(1) by (simp_all del: fun_upd_apply)
  have hd: "iov_scatter (map (\<lambda>p. (p, 0, bs)) ps) (drop bs d) (m(p := b)) p = b"
    using p(1) by (subst iov_scatter_other) auto
  have sc: "iov_scatter (map (\<lambda>p. (p, 0, bs)) (p # ps)) d m =
      iov_scatter (map (\<lambda>p. (p, 0, bs)) ps) (drop bs d) (m(p := b))"
    by (simp add: b_def)
  have "b @ drop bs d @ drop (length (drop bs d)) (flat m ps) = d @ drop (length d) (m p @ flat m ps)"
    using p(2) by (cases "length d \<le> bs") (simp_all add: b_def min_def)
  then show ?case using ih hd b p(1) unfolding sc by (simp add: blocks_Cons)
qed

lemma iov_from_Cons:
  assumes "t < length ps * bs"
  shows "\<exists>qs p rs. ps = qs @ p # rs \<and> length qs = t div bs \<and>
    iov_from bs ps t = (p, t mod bs, bs - t mod bs) # map (\<lambda>p. (p, 0, bs)) rs"
proof -
  let ?k = "t div bs"
  have bs: "0 < bs" using assms by (cases bs) auto
  then have k: "?k < length ps" using assms by (simp add: div_less_iff_less_mult)
  have "iov_from bs ps t = (ps ! ?k, t mod bs, bs - t mod bs) # map (\<lambda>i. (ps ! i, 0, bs)) [Suc ?k..<length ps]"
    using k by (simp add: iov_from_def upt_conv_Cons Let_def)
  also have "map (\<lambda>i. (ps ! i, 0, bs)) [Suc ?k..<length ps] = map (\<lambda>p. (p, 0, bs)) (drop (Suc ?k) ps)"
    by (rule nth_equalityI) auto
  finally show ?thesis
    using k by (intro exI [of _ "take ?k ps"] exI [of _ "ps ! ?k"] exI [of _ "drop (Suc ?k) ps"])
      (simp add: id_take_nth_drop [symmetric])
qed

text \<open>Transferring bytes into the rest of a request replaces a range of its flat contents.\<close>

lemma iov_scatter_from:
  assumes "blocks bs m ps" "t < length ps * bs" "t + length d \<le> length ps * bs"
  shows "flat (iov_scatter (iov_from bs ps t) d m) ps = take t (flat m ps) @ d @ drop (t + length d) (flat m ps)"
    and "blocks bs (iov_scatter (iov_from bs ps t) d m) ps"
    and "q \<notin> set ps \<Longrightarrow> iov_scatter (iov_from bs ps t) d m q = m q"
proof -
  obtain qs p rs where ps: "ps = qs @ p # rs" "length qs = t div bs"
    and iov: "iov_from bs ps t = (p, t mod bs, bs - t mod bs) # map (\<lambda>p. (p, 0, bs)) rs"
    using iov_from_Cons [OF assms(2)] by blast
  have bs: "0 < bs" using assms(2) by (cases bs) auto
  let ?s = "t mod bs" and ?l = "bs - t mod bs"
  have s: "?s < bs" "t = length qs * bs + ?s" using bs ps(2) by simp_all
  define b where "b = take ?s (m p) @ take ?l d @ drop (?s + length (take ?l d)) (m p)"
  have p: "length (m p) = bs" "p \<notin> set rs" "p \<notin> set qs" "set qs \<inter> set rs = {}"
    "blocks bs m qs" "blocks bs m rs" using assms(1) ps(1) by (auto simp: blocks_def)
  have b: "length b = bs" using p(1) s(1) by (simp add: b_def min_def)
  let ?m = "iov_scatter (map (\<lambda>p. (p, 0, bs)) rs) (drop ?l d) (m(p := b))"
  have m: "iov_scatter (iov_from bs ps t) d m = ?m" by (simp add: iov b_def)
  have other: "?m q = (m(p := b)) q" if "q \<notin> set rs" for q
    using that by (intro iov_scatter_other) auto
  have "t + length d \<le> length qs * bs + bs + length rs * bs" using assms(3) ps(1) by (simp add: algebra_simps)
  then have "length (drop ?l d) \<le> length rs * bs" using s by simp
  moreover have "blocks bs (m(p := b)) rs" using p by (auto simp: blocks_def)
  ultimately have w: "flat ?m rs = drop ?l d @ drop (length (drop ?l d)) (flat m rs)" "blocks bs ?m rs"
    using iov_scatter_whole [of bs "m(p := b)" rs "drop ?l d"] p(2) by (simp_all del: fun_upd_apply)
  have "map ?m qs = map m qs" using other p(3,4) by (intro map_cong refl) (auto simp: disjoint_iff)
  then have qs: "flat ?m qs = flat m qs" by (simp only: flat_def)
  have lq: "length (flat m qs) = length qs * bs" using length_flat [OF p(5)] .
  have "flat ?m ps = flat m qs @ b @ drop ?l d @ drop (length (drop ?l d)) (flat m rs)"
    using qs w(1) other [OF p(2)] by (simp add: ps(1))
  also have "\<dots> = take t (flat m ps) @ d @ drop (t + length d) (flat m ps)"
  proof -
    have e: "t - length qs * bs = ?s" "t + length d - length qs * bs = ?s + length d"
      "t + length d - (length qs * bs + bs) = length d + ?s - bs" "length qs * bs \<le> t" using s(2) by linarith+
    have td: "take ?l d @ drop ?l d @ x = d @ x" for x by (simp add: append_assoc [symmetric] del: append_assoc)
    show ?thesis
      using lq p(1) s(1) e by (cases "length d \<le> ?l") (simp_all add: ps(1) b_def min_def td add.commute)
  qed
  finally show "flat (iov_scatter (iov_from bs ps t) d m) ps = take t (flat m ps) @ d @ drop (t + length d) (flat m ps)"
    unfolding m .
  show "blocks bs (iov_scatter (iov_from bs ps t) d m) ps"
    unfolding m using assms(1) w(2) other p b ps(1) by (fastforce simp: blocks_def)
  show "q \<notin> set ps \<Longrightarrow> iov_scatter (iov_from bs ps t) d m q = m q"
    unfolding m using other ps(1) by simp
qed

lemma iov_gather_from:
  assumes "blocks bs m ps" "t < length ps * bs"
  shows "iov_gather (iov_from bs ps t) m = drop t (flat m ps)"
proof -
  obtain qs p rs where ps: "ps = qs @ p # rs" "length qs = t div bs"
    and iov: "iov_from bs ps t = (p, t mod bs, bs - t mod bs) # map (\<lambda>p. (p, 0, bs)) rs"
    using iov_from_Cons [OF assms(2)] by blast
  have bs: "0 < bs" using assms(2) by (cases bs) auto
  have whole: "iov_gather (map (\<lambda>p. (p, 0, bs)) rs) m = flat m rs"
    using assms(1) unfolding ps(1) by (induction rs) (auto simp: blocks_def)
  have p: "length (m p) = bs" "blocks bs m qs" using assms(1) ps(1) by (auto simp: blocks_def)
  have "t = length qs * bs + t mod bs" "t mod bs < bs" using bs ps(2) by simp_all
  then have "t - length qs * bs = t mod bs" "length qs * bs \<le> t" "t mod bs < bs" by linarith+
  then have "drop t (flat m ps) = drop (t mod bs) (m p) @ flat m rs"
    using length_flat [OF p(2)] p(1) by (simp add: ps(1))
  then show ?thesis using whole p(1) by (simp add: iov)
qed

lemma fold_update:
  assumes "distinct (map f is)"
  shows "fold (\<lambda>i m. m(f i := g i (m (f i)))) is m q =
    (case List.find (\<lambda>i. f i = q) is of None \<Rightarrow> m q | Some i \<Rightarrow> g i (m q))"
  using assms
proof (induction "is" arbitrary: m)
  case Nil
  then show ?case by simp
next
  case (Cons i "is")
  have "List.find (\<lambda>j. f j = f i) is = None" using Cons.prems by (simp add: find_None_iff) (metis image_eqI)
  then show ?case using Cons.IH [of "m(f i := g i (m (f i)))"] Cons.prems
    by (auto split: option.splits)
qed

lemma ZeroFillReadTail_at:
  assumes "distinct ps" "i < length ps"
  shows "ZeroFillReadTail ps bs t m (ps ! i) = ZeroFillBlock bs t i (m (ps ! i))"
proof -
  have d: "distinct (map ((!) ps) [0..<length ps])" using assms(1) by (simp add: map_nth)
  have "List.find (\<lambda>j. ps ! j = ps ! i) [0..<length ps] = Some i"
    using assms by (simp add: find_Some_iff nth_eq_iff_index_eq) (intro exI [of _ i], auto simp: nth_eq_iff_index_eq)
  then show ?thesis
    using fold_update [OF d, of "ZeroFillBlock bs t" m "ps ! i"] by (simp add: ZeroFillReadTail_def)
qed

lemma ZeroFillReadTail_other: "q \<notin> set ps \<Longrightarrow> ZeroFillReadTail ps bs t m q = m q"
proof -
  assume q: "q \<notin> set ps"
  have "fold (\<lambda>i m. m(ps ! i := g i (m (ps ! i)))) is m q = m q" if "\<forall>i \<in> set is. i < length ps" for "is" g m
    using that q by (induction "is" arbitrary: m) (auto simp: in_set_conv_nth)
  from this [of "[0..<length ps]" "ZeroFillBlock bs t" m] show ?thesis by (simp add: ZeroFillReadTail_def)
qed

lemma zero_fill_concat:
  assumes "\<forall>b \<in> set bl. length b = bs"
  shows "concat (map (\<lambda>i. ZeroFillBlock bs t (k + i) (bl ! i)) [0..<length bl]) =
    take (t - k * bs) (concat bl) @ replicate (length bl * bs - (t - k * bs)) 0"
  using assms
proof (induction bl arbitrary: k)
  case Nil
  then show ?case by simp
next
  case (Cons b bl)
  have shift: "map (\<lambda>i. ZeroFillBlock bs t (k + i) ((b # bl) ! i)) [0..<length (b # bl)] =
      ZeroFillBlock bs t k b # map (\<lambda>i. ZeroFillBlock bs t (Suc k + i) (bl ! i)) [0..<length bl]"
    by (simp add: upt_conv_Cons map_Suc_upt [symmetric] del: upt_Suc)
  have ih: "concat (map (\<lambda>i. ZeroFillBlock bs t (Suc k + i) (bl ! i)) [0..<length bl]) =
      take (t - Suc k * bs) (concat bl) @ replicate (length bl * bs - (t - Suc k * bs)) 0"
    using Cons.IH [of "Suc k"] Cons.prems by simp
  have b: "length b = bs" using Cons.prems by simp
  show ?case
  proof (cases "k * bs + bs \<le> t")
    case True
    then have "t - Suc k * bs = t - k * bs - bs" "bs \<le> t - k * bs" by simp_all
    then show ?thesis unfolding shift using ih b True by (simp add: ZeroFillBlock_def Let_def)
  next
    case False
    then have z: "t - Suc k * bs = 0" "t - k * bs \<le> bs" by simp_all
    have "ZeroFillBlock bs t k b = take (t - k * bs) b @ replicate (bs - (t - k * bs)) 0"
      using False by (auto simp: ZeroFillBlock_def Let_def)
    then show ?thesis unfolding shift using ih b z by (simp add: replicate_add [symmetric])
  qed
qed

text \<open>Zero-filling the tail keeps the bytes read and clears the rest.\<close>

lemma flat_ZeroFillReadTail:
  assumes "blocks bs m ps"
  shows "flat (ZeroFillReadTail ps bs t m) ps = take t (flat m ps) @ replicate (length ps * bs - t) 0"
proof -
  have "map (ZeroFillReadTail ps bs t m) ps = map (\<lambda>i. ZeroFillReadTail ps bs t m (ps ! i)) [0..<length ps]"
    by (rule nth_equalityI) simp_all
  also have "\<dots> = map (\<lambda>i. ZeroFillBlock bs t (0 + i) (map m ps ! i)) [0..<length (map m ps)]"
    using assms by (simp add: ZeroFillReadTail_at blocks_def)
  finally show ?thesis
    using zero_fill_concat [of "map m ps" bs t 0] assms by (simp add: flat_def blocks_def)
qed

end
