(* ===== verification/Fd_Cache.thy ===== *)
theory Fd_Cache
  imports Disk_Request
begin

text \<open>
  \<^verbatim>\<open>lib/io/file_descriptor_cache.cc\<close>: the cache of open files.  The operating system is a
  parameter: a record of the system calls used, over a state \<open>'o\<close>; \<open>posix_os\<close> states what
  POSIX documents of them, and \<open>mem_os\<close> is a system in memory with that behaviour.  \<open>Inl\<close> of
  a system call is an \<^verbatim>\<open>errno\<close>.
\<close>

section \<open>System calls\<close>

record 'o Os =
  os_open :: "string \<Rightarrow> 'o \<Rightarrow> (int + int) \<times> 'o"
  os_close :: "int \<Rightarrow> 'o \<Rightarrow> 'o"
  os_preadv :: "int \<Rightarrow> nat \<Rightarrow> int \<Rightarrow> 'o \<Rightarrow> (int + u8 list) \<times> 'o"
  os_pwritev :: "int \<Rightarrow> u8 list \<Rightarrow> int \<Rightarrow> 'o \<Rightarrow> (int + nat) \<times> 'o"
  os_fdatasync :: "int \<Rightarrow> 'o \<Rightarrow> int option \<times> 'o"
  os_fstat_size :: "int \<Rightarrow> 'o \<Rightarrow> (int + u64) \<times> 'o"
  os_ftruncate :: "int \<Rightarrow> u64 \<Rightarrow> 'o \<Rightarrow> int option \<times> 'o"

definition EINTR :: int where
  "EINTR = 4"

text \<open>
  The documented behaviour.  \<open>fdp\<close> gives the file behind an open descriptor, \<open>cont\<close> the bytes
  of a file (zero after its end), and \<open>intr\<close> bounds the interruptions still to come.
\<close>

definition posix_open :: "'o Os \<Rightarrow> ('o \<Rightarrow> int \<Rightarrow> string option) \<Rightarrow> ('o \<Rightarrow> string \<Rightarrow> nat \<Rightarrow> u8) \<Rightarrow> bool" where
  "posix_open os fdp cont \<longleftrightarrow>
     (\<forall>p s r s'. os_open os p s = (r, s') \<longrightarrow> cont s' = cont s \<and>
        (\<forall>e. r = Inl e \<longrightarrow> fdp s' = fdp s) \<and>
        (\<forall>fd. r = Inr fd \<longrightarrow> 0 \<le> fd \<and> fdp s fd = None \<and> fdp s' = (fdp s)(fd := Some p)))"

definition posix_close :: "'o Os \<Rightarrow> ('o \<Rightarrow> int \<Rightarrow> string option) \<Rightarrow> ('o \<Rightarrow> string \<Rightarrow> nat \<Rightarrow> u8) \<Rightarrow> bool" where
  "posix_close os fdp cont \<longleftrightarrow>
     (\<forall>fd s. cont (os_close os fd s) = cont s \<and> fdp (os_close os fd s) = (fdp s)(fd := None))"

definition posix_read ::
  "'o Os \<Rightarrow> ('o \<Rightarrow> int \<Rightarrow> string option) \<Rightarrow> ('o \<Rightarrow> string \<Rightarrow> nat \<Rightarrow> u8) \<Rightarrow> ('o \<Rightarrow> nat) \<Rightarrow> bool" where
  "posix_read os fdp cont intr \<longleftrightarrow>
     (\<forall>fd p len off s r s'. fdp s fd = Some p \<longrightarrow> os_preadv os fd len (int off) s = (r, s') \<longrightarrow>
        cont s' = cont s \<and> fdp s' = fdp s \<and>
        (\<forall>e. r = Inl e \<longrightarrow> e = EINTR \<longrightarrow> intr s' < intr s) \<and>
        (\<forall>d. r = Inr d \<longrightarrow> intr s' \<le> intr s \<and> length d \<le> len \<and>
           (\<forall>i < length d. d ! i = cont s p (off + i)) \<and>
           (d = [] \<longrightarrow> 0 < len \<longrightarrow> (\<forall>i \<ge> off. cont s p i = 0))))"

definition posix_write ::
  "'o Os \<Rightarrow> ('o \<Rightarrow> int \<Rightarrow> string option) \<Rightarrow> ('o \<Rightarrow> string \<Rightarrow> nat \<Rightarrow> u8) \<Rightarrow> ('o \<Rightarrow> nat) \<Rightarrow> bool" where
  "posix_write os fdp cont intr \<longleftrightarrow>
     (\<forall>fd p d off s r s'. fdp s fd = Some p \<longrightarrow> os_pwritev os fd d (int off) s = (r, s') \<longrightarrow>
        fdp s' = fdp s \<and>
        (\<forall>e. r = Inl e \<longrightarrow> cont s' = cont s \<and> (e = EINTR \<longrightarrow> intr s' < intr s)) \<and>
        (\<forall>n. r = Inr n \<longrightarrow> intr s' \<le> intr s \<and> n \<le> length d \<and>
           cont s' = (cont s)(p := \<lambda>i. if off \<le> i \<and> i < off + n then d ! (i - off) else cont s p i)))"

definition posix_sync :: "'o Os \<Rightarrow> ('o \<Rightarrow> int \<Rightarrow> string option) \<Rightarrow> ('o \<Rightarrow> string \<Rightarrow> nat \<Rightarrow> u8) \<Rightarrow> bool" where
  "posix_sync os fdp cont \<longleftrightarrow>
     (\<forall>fd s r s'. os_fdatasync os fd s = (r, s') \<longrightarrow> cont s' = cont s \<and> fdp s' = fdp s)"

definition posix_os ::
  "'o Os \<Rightarrow> ('o \<Rightarrow> int \<Rightarrow> string option) \<Rightarrow> ('o \<Rightarrow> string \<Rightarrow> nat \<Rightarrow> u8) \<Rightarrow> ('o \<Rightarrow> nat) \<Rightarrow> bool" where
  "posix_os os fdp cont intr \<longleftrightarrow>
     posix_open os fdp cont \<and> posix_close os fdp cont \<and> posix_read os fdp cont intr \<and>
     posix_write os fdp cont intr \<and> posix_sync os fdp cont"

section \<open>The descriptor cache\<close>

record FdEntry =
  fe_fd :: int
  fe_last_used :: u64
  fe_pins :: size_t

record FdCache =
  fdc_root_path :: string
  fdc_max_open_files :: size_t
  fdc_clock :: u64
  fdc_entries :: "(FileId \<times> FdEntry) list"

definition fdc_create :: "string \<Rightarrow> size_t \<Rightarrow> FdCache" where
  "fdc_create root_path max_open_files =
     \<lparr>fdc_root_path = root_path, fdc_max_open_files = (if max_open_files = 0 then 64 else max_open_files),
      fdc_clock = 0, fdc_entries = []\<rparr>"

text \<open>\<^verbatim>\<open>std::to_string\<close> of an unsigned number.\<close>

function decimal :: "nat \<Rightarrow> string" where
  "decimal n = (if n < 10 then [char_of (48 + n)] else decimal (n div 10) @ [char_of (48 + n mod 10)])"
  by pat_completeness auto
termination by (relation "measure id") auto

declare decimal.simps [simp del]

definition fdc_path :: "string \<Rightarrow> FileId \<Rightarrow> string" where
  "fdc_path root_path file_id = root_path @ ''/file_'' @ decimal (unat file_id) @ ''.tp''"

text \<open>The scan for the least recently used descriptor without a pin.\<close>

fun fdc_victim :: "(FileId \<times> FdEntry) list \<Rightarrow> (FileId \<times> FdEntry) option \<Rightarrow> (FileId \<times> FdEntry) option" where
  "fdc_victim [] v = v"
| "fdc_victim (x # xs) v =
     (if fe_pins (snd x) \<noteq> 0 then fdc_victim xs v
      else if v = None \<or> fe_last_used (snd x) < fe_last_used (snd (the v)) then fdc_victim xs (Some x)
      else fdc_victim xs v)"

lemma fdc_victim_mem:
  "fdc_victim xs v = Some x \<Longrightarrow> v = Some x \<or> x \<in> set xs \<and> fe_pins (snd x) = 0"
  by (induction xs v rule: fdc_victim.induct) (auto split: if_splits)

lemma fdc_victim_None: "fdc_victim xs v = None \<longleftrightarrow> v = None \<and> (\<forall>x \<in> set xs. fe_pins (snd x) \<noteq> 0)"
  by (induction xs v rule: fdc_victim.induct) auto

function fdc_EvictIdleLocked ::
  "'o Os \<Rightarrow> nat \<Rightarrow> (FileId \<times> FdEntry) list \<Rightarrow> 'o \<Rightarrow> (FileId \<times> FdEntry) list \<times> 'o" where
  "fdc_EvictIdleLocked os target es s =
     (if length es > target then
        (case fdc_victim es None of None \<Rightarrow> (es, s)
         | Some v \<Rightarrow> fdc_EvictIdleLocked os target (remove1 v es)
             (if fe_fd (snd v) \<ge> 0 then os_close os (fe_fd (snd v)) s else s))
      else (es, s))"
  by pat_completeness auto
termination
  by (relation "measure (\<lambda>(os, t, es, s). length es)")
    (auto simp: length_remove1 dest!: fdc_victim_mem split: if_splits intro: length_pos_if_in_set)

declare fdc_EvictIdleLocked.simps [simp del]

definition fdc_update :: "FileId \<Rightarrow> FdEntry \<Rightarrow> (FileId \<times> FdEntry) list \<Rightarrow> (FileId \<times> FdEntry) list" where
  "fdc_update f e es = map (\<lambda>x. if fst x = f then (f, e) else x) es"

definition fdc_Acquire :: "'o Os \<Rightarrow> FileId \<Rightarrow> FdCache \<Rightarrow> 'o \<Rightarrow> int Result \<times> FdCache \<times> 'o" where
  "fdc_Acquire os file_id c s =
     (case map_of (fdc_entries c) file_id of
        Some e \<Rightarrow>
          (Inr (fe_fd e),
           c\<lparr>fdc_clock := fdc_clock c + 1,
             fdc_entries := fdc_update file_id (e\<lparr>fe_pins := fe_pins e + 1, fe_last_used := fdc_clock c + 1\<rparr>)
                              (fdc_entries c)\<rparr>, s)
      | None \<Rightarrow>
          (let (es, s) = fdc_EvictIdleLocked os (unat (fdc_max_open_files c - 1)) (fdc_entries c) s;
               (r, s) = os_open os (fdc_path (fdc_root_path c) file_id) s
           in case r of
                Inl e \<Rightarrow> (Inl (IoError ''open failed'' e), c\<lparr>fdc_entries := es\<rparr>, s)
              | Inr fd \<Rightarrow>
                  (Inr fd,
                   c\<lparr>fdc_clock := fdc_clock c + 1,
                     fdc_entries := es @ [(file_id, \<lparr>fe_fd = fd, fe_last_used = fdc_clock c + 1, fe_pins = 1\<rparr>)]\<rparr>,
                   s)))"

definition fdc_Release :: "'o Os \<Rightarrow> FileId \<Rightarrow> FdCache \<Rightarrow> 'o \<Rightarrow> FdCache \<times> 'o" where
  "fdc_Release os file_id c s =
     (case map_of (fdc_entries c) file_id of
        None \<Rightarrow> (c, s)
      | Some e \<Rightarrow>
          (let e = e\<lparr>fe_pins := (if fe_pins e > 0 then fe_pins e - 1 else fe_pins e),
                     fe_last_used := fdc_clock c + 1\<rparr>;
               (es, s) = fdc_EvictIdleLocked os (unat (fdc_max_open_files c))
                           (fdc_update file_id e (fdc_entries c)) s
           in (c\<lparr>fdc_clock := fdc_clock c + 1, fdc_entries := es\<rparr>, s)))"

definition fdc_CloseIdle :: "'o Os \<Rightarrow> FdCache \<Rightarrow> 'o \<Rightarrow> FdCache \<times> 'o" where
  "fdc_CloseIdle os c s =
     (let (es, s) = fdc_EvictIdleLocked os 0 (fdc_entries c) s in (c\<lparr>fdc_entries := es\<rparr>, s))"

definition fdc_FileSize :: "'o Os \<Rightarrow> FileId \<Rightarrow> FdCache \<Rightarrow> 'o \<Rightarrow> u64 Result \<times> FdCache \<times> 'o" where
  "fdc_FileSize os file_id c s =
     (let (fd, c, s) = fdc_Acquire os file_id c s in
      case fd of Inl e \<Rightarrow> (Inl e, c, s)
      | Inr fd \<Rightarrow>
          (let (result, s) = os_fstat_size os fd s; (c, s) = fdc_Release os file_id c s
           in (case result of Inl e \<Rightarrow> Inl (IoError ''fstat failed'' e) | Inr n \<Rightarrow> Inr n, c, s)))"

definition fdc_SetFileSize :: "'o Os \<Rightarrow> FileId \<Rightarrow> u64 \<Rightarrow> FdCache \<Rightarrow> 'o \<Rightarrow> Status \<times> FdCache \<times> 'o" where
  "fdc_SetFileSize os file_id bytes c s =
     (let (fd, c, s) = fdc_Acquire os file_id c s in
      case fd of Inl e \<Rightarrow> (Inl e, c, s)
      | Inr fd \<Rightarrow>
          (let (result, s) = os_ftruncate os fd bytes s; (c, s) = fdc_Release os file_id c s
           in (case result of Some e \<Rightarrow> Inl (IoError ''ftruncate failed'' e) | None \<Rightarrow> Ok, c, s)))"

section \<open>The cache keeps its descriptors open\<close>

definition es_inv :: "('o \<Rightarrow> int \<Rightarrow> string option) \<Rightarrow> string \<Rightarrow> (FileId \<times> FdEntry) list \<Rightarrow> 'o \<Rightarrow> bool" where
  "es_inv fdp root es s \<longleftrightarrow>
     distinct (map fst es) \<and> distinct (map (fe_fd \<circ> snd) es) \<and>
     (\<forall>x \<in> set es. fdp s (fe_fd (snd x)) = Some (fdc_path root (fst x)))"

lemma posix_closeD:
  "posix_os os fdp cont intr \<Longrightarrow> cont (os_close os fd s) = cont s"
  "posix_os os fdp cont intr \<Longrightarrow> fdp (os_close os fd s) = (fdp s)(fd := None)"
  by (simp_all add: posix_os_def posix_close_def)

lemma posix_openD:
  assumes "posix_os os fdp cont intr" "os_open os p s = (r, s')"
  shows "cont s' = cont s" "r = Inl e \<Longrightarrow> fdp s' = fdp s"
    "r = Inr fd \<Longrightarrow> 0 \<le> fd \<and> fdp s fd = None \<and> fdp s' = (fdp s)(fd := Some p)"
  using assms unfolding posix_os_def posix_open_def by blast+

lemma es_inv_remove1:
  assumes "es_inv fdp root es s" "x \<in> set es" "fdp s' = (fdp s)(fe_fd (snd x) := None) \<or> fdp s' = fdp s"
  shows "es_inv fdp root (remove1 x es) s'"
proof -
  obtain as bs where es: "es = as @ x # bs" "x \<notin> set as" using split_list_first [OF assms(2)] by blast
  then have r: "remove1 x es = as @ bs" by (simp add: remove1_append)
  have "fe_fd (snd x) \<notin> (\<lambda>y. fe_fd (snd y)) ` set (as @ bs)"
    using assms(1) by (simp add: es_inv_def es(1) comp_def image_Un)
  then have "\<forall>y \<in> set (as @ bs). fe_fd (snd y) \<noteq> fe_fd (snd x)" by (metis image_eqI)
  then have "\<forall>y \<in> set (as @ bs). fdp s' (fe_fd (snd y)) = fdp s (fe_fd (snd y))"
    using assms(3) by (metis fun_upd_apply)
  moreover have "\<forall>y \<in> set (as @ bs). fdp s (fe_fd (snd y)) = Some (fdc_path root (fst y))"
    using assms(1) by (simp add: es_inv_def es(1))
  ultimately show ?thesis using assms(1) unfolding r es_inv_def by (simp add: es(1))
qed

lemma EvictIdle_ok:
  assumes os: "posix_os os fdp cont intr"
  shows "es_inv fdp root es s \<Longrightarrow> fdc_EvictIdleLocked os t es s = (es', s') \<Longrightarrow>
    es_inv fdp root es' s' \<and> cont s' = cont s \<and> set es' \<subseteq> set es \<and>
    (\<forall>x \<in> set es. fe_pins (snd x) \<noteq> 0 \<longrightarrow> x \<in> set es') \<and>
    (length es' \<le> t \<or> (\<forall>x \<in> set es'. fe_pins (snd x) \<noteq> 0))"
proof (induction "length es" arbitrary: es s rule: less_induct)
  case less
  show ?case
  proof (cases "length es > t \<and> fdc_victim es None \<noteq> None")
    case False
    then have "fdc_EvictIdleLocked os t es s = (es, s)"
      by (subst fdc_EvictIdleLocked.simps) (auto split: option.split)
    then have same: "es' = es" "s' = s" using less.prems(2) by simp_all
    have "length es \<le> t \<or> (\<forall>x \<in> set es. fe_pins (snd x) \<noteq> 0)"
      using False by (simp add: fdc_victim_None not_less)
    then show ?thesis unfolding same using less.prems(1) by blast
  next
    case True
    then obtain v where v: "fdc_victim es None = Some v" by auto
    then have mem: "v \<in> set es" "fe_pins (snd v) = 0" using fdc_victim_mem by blast+
    let ?s = "if fe_fd (snd v) \<ge> 0 then os_close os (fe_fd (snd v)) s else s"
    have s: "cont ?s = cont s" "fdp ?s = (fdp s)(fe_fd (snd v) := None) \<or> fdp ?s = fdp s"
      using posix_closeD [OF os] by simp_all
    have run: "fdc_EvictIdleLocked os t (remove1 v es) ?s = (es', s')"
      using less.prems(2) True v by (subst (asm) fdc_EvictIdleLocked.simps) simp
    have "length (remove1 v es) < length es"
      using mem(1) length_pos_if_in_set [OF mem(1)] by (simp add: length_remove1)
    note ih = less.hyps [OF this es_inv_remove1 [OF less.prems(1) mem(1) s(2)] run]
    have "\<forall>x \<in> set es. fe_pins (snd x) \<noteq> 0 \<longrightarrow> x \<in> set (remove1 v es)"
      using mem(2) in_set_remove1 by metis
    then show ?thesis using ih s(1) set_remove1_subset [of v es] by fastforce
  qed
qed

text \<open>
  The histories of a cache: descriptors are acquired and released, \<open>held\<close> counts the pins that
  clients hold, and in between the system state moves without closing a descriptor.
\<close>

inductive fdc_reach ::
  "'o Os \<Rightarrow> ('o \<Rightarrow> int \<Rightarrow> string option) \<Rightarrow> string \<Rightarrow> size_t \<Rightarrow> (FileId \<Rightarrow> nat) \<Rightarrow> FdCache \<Rightarrow> 'o \<Rightarrow> bool"
  for os fdp root max_open where
  create: "fdc_reach os fdp root max_open (\<lambda>_. 0) (fdc_create root max_open) s"
| acquire: "fdc_reach os fdp root max_open held c s \<Longrightarrow> fdc_Acquire os f c s = (Inr fd, c', s') \<Longrightarrow>
    held f + 1 < 2 ^ 64 \<Longrightarrow> fdc_reach os fdp root max_open (held(f := held f + 1)) c' s'"
| acquire_fails: "fdc_reach os fdp root max_open held c s \<Longrightarrow> fdc_Acquire os f c s = (Inl e, c', s') \<Longrightarrow>
    fdc_reach os fdp root max_open held c' s'"
| release: "fdc_reach os fdp root max_open held c s \<Longrightarrow> 0 < held f \<Longrightarrow> fdc_Release os f c s = (c', s') \<Longrightarrow>
    fdc_reach os fdp root max_open (held(f := held f - 1)) c' s'"
| close_idle: "fdc_reach os fdp root max_open held c s \<Longrightarrow> fdc_CloseIdle os c s = (c', s') \<Longrightarrow>
    fdc_reach os fdp root max_open held c' s'"
| transfer: "fdc_reach os fdp root max_open held c s \<Longrightarrow> fdp s' = fdp s \<Longrightarrow>
    fdc_reach os fdp root max_open held c s'"

definition fdc_inv ::
  "('o \<Rightarrow> int \<Rightarrow> string option) \<Rightarrow> string \<Rightarrow> size_t \<Rightarrow> (FileId \<Rightarrow> nat) \<Rightarrow> FdCache \<Rightarrow> 'o \<Rightarrow> bool" where
  "fdc_inv fdp root max_open held c s \<longleftrightarrow>
     fdc_root_path c = root \<and> fdc_max_open_files c = max_open \<and> es_inv fdp root (fdc_entries c) s \<and>
     (\<forall>x \<in> set (fdc_entries c). unat (fe_pins (snd x)) = held (fst x)) \<and>
     (\<forall>f. 0 < held f \<longrightarrow> f \<in> fst ` set (fdc_entries c)) \<and>
     (length (fdc_entries c) \<le> unat max_open \<or> (\<forall>x \<in> set (fdc_entries c). fe_pins (snd x) \<noteq> 0))"

lemma fdc_update_set:
  assumes "distinct (map fst es)" "map_of es f = Some e0"
  shows "set (fdc_update f e es) = insert (f, e) (set es - {(f, e0)})"
proof -
  have u: "x = (f, e0)" if "x \<in> set es" "fst x = f" for x
    using map_of_is_SomeI [OF assms(1), of f "snd x"] that assms(2) by (cases x) simp
  have mem: "(f, e0) \<in> set es" using assms(2) by (rule map_of_SomeD)
  show ?thesis
  proof (intro equalityI subsetI)
    fix x assume "x \<in> set (fdc_update f e es)"
    then obtain y where "x = (if fst y = f then (f, e) else y)" "y \<in> set es"
      unfolding fdc_update_def set_map by (rule imageE)
    then show "x \<in> insert (f, e) (set es - {(f, e0)})" by (cases "fst y = f") auto
  next
    fix x assume "x \<in> insert (f, e) (set es - {(f, e0)})"
    then consider "x = (f, e)" | "x \<in> set es" "fst x \<noteq> f" using u by blast
    then show "x \<in> set (fdc_update f e es)"
    proof cases
      case 1
      then show ?thesis using mem by (force simp: fdc_update_def)
    next
      case 2
      then show ?thesis by (auto simp: fdc_update_def intro!: image_eqI [where x = x])
    qed
  qed
qed

lemma fdc_update_same:
  assumes "distinct (map fst es)" "map_of es f = Some e0" "fe_fd e = fe_fd e0"
  shows "map (\<lambda>x. (fst x, fe_fd (snd x))) (fdc_update f e es) = map (\<lambda>x. (fst x, fe_fd (snd x))) es"
proof -
  have "h = e0" if "(f, h) \<in> set es" for h
    using map_of_is_SomeI [OF assms(1) that] assms(2) by simp
  then show ?thesis using assms(3) by (auto simp: fdc_update_def)
qed

lemma es_inv_views:
  "es_inv fdp root es s \<longleftrightarrow>
     (let v = map (\<lambda>x. (fst x, fe_fd (snd x))) es in
      distinct (map fst v) \<and> distinct (map snd v) \<and> (\<forall>(f, fd) \<in> set v. fdp s fd = Some (fdc_path root f)))"
  by (simp add: es_inv_def comp_def Let_def)

lemma es_inv_update:
  "es_inv fdp root es s \<Longrightarrow> map_of es f = Some e0 \<Longrightarrow> fe_fd e = fe_fd e0 \<Longrightarrow> es_inv fdp root (fdc_update f e es) s"
  unfolding es_inv_views by (subst fdc_update_same) (auto simp: es_inv_views Let_def comp_def)

lemma length_fdc_update [simp]: "length (fdc_update f e es) = length es"
  by (simp add: fdc_update_def)

lemma map_fst_fdc_update [simp]: "map fst (fdc_update f e es) = map fst es"
  by (simp add: fdc_update_def)

lemma keys_fdc_update [simp]: "fst ` set (fdc_update f e es) = fst ` set es"
  using arg_cong [OF map_fst_fdc_update, of set] by (simp del: map_fst_fdc_update)

lemma fdc_inv_create: "max_open \<noteq> 0 \<Longrightarrow> fdc_inv fdp root max_open (\<lambda>_. 0) (fdc_create root max_open) s"
  by (simp add: fdc_inv_def fdc_create_def es_inv_def)

lemma fdc_inv_update:
  assumes inv: "fdc_inv fdp root max_open held c s" and e0: "map_of (fdc_entries c) f = Some e0"
    and fd: "fe_fd e = fe_fd e0" and pins: "unat (fe_pins e) = n"
    and bound: "length (fdc_entries c) \<le> unat max_open \<or> 0 < n"
    and c': "fdc_root_path c' = root" "fdc_max_open_files c' = max_open" "fdc_entries c' = fdc_update f e (fdc_entries c)"
  shows "fdc_inv fdp root max_open (held(f := n)) c' s"
proof -
  let ?es = "fdc_entries c"
  have es: "es_inv fdp root ?es s" using inv by (simp add: fdc_inv_def)
  then have dk: "distinct (map fst ?es)" by (simp add: es_inv_def)
  have mem: "(f, e0) \<in> set ?es" using e0 by (rule map_of_SomeD)
  have u: "x = (f, e0)" if "x \<in> set ?es" "fst x = f" for x
    using map_of_is_SomeI [OF dk, of f "snd x"] that e0 by (cases x) simp
  note st = fdc_update_set [OF dk e0, of e]
  have "\<forall>x \<in> set (fdc_update f e ?es). unat (fe_pins (snd x)) = (held(f := n)) (fst x)"
    using inv u pins unfolding fdc_inv_def st by fastforce
  moreover have "\<forall>g. 0 < (held(f := n)) g \<longrightarrow> g \<in> fst ` set ?es"
    using inv mem by (auto simp: fdc_inv_def intro: rev_image_eqI)
  moreover have "length ?es \<le> unat max_open \<or> (\<forall>x \<in> set (fdc_update f e ?es). fe_pins (snd x) \<noteq> 0)"
  proof (cases "length ?es \<le> unat max_open")
    case False
    then have "\<forall>x \<in> set ?es. fe_pins (snd x) \<noteq> 0" "fe_pins e \<noteq> 0" using inv bound pins by (auto simp: fdc_inv_def)
    then show ?thesis by (simp add: st)
  qed simp
  ultimately show ?thesis
    using es_inv_update [OF es e0 fd] c' by (simp add: fdc_inv_def)
qed

lemma fdc_inv_evict:
  assumes os: "posix_os os fdp cont intr" and es: "es_inv fdp root es s"
    and pins: "\<forall>x \<in> set es. unat (fe_pins (snd x)) = held (fst x)" "\<forall>f. 0 < held f \<longrightarrow> f \<in> fst ` set es"
    and run: "fdc_EvictIdleLocked os t es s = (es', s')"
  shows "es_inv fdp root es' s'" "cont s' = cont s"
    "\<forall>x \<in> set es'. unat (fe_pins (snd x)) = held (fst x)" "\<forall>f. 0 < held f \<longrightarrow> f \<in> fst ` set es'"
    "length es' \<le> t \<or> (\<forall>x \<in> set es'. fe_pins (snd x) \<noteq> 0)" "set es' \<subseteq> set es"
proof -
  note ev = EvictIdle_ok [OF os es run]
  show "es_inv fdp root es' s'" "cont s' = cont s" "length es' \<le> t \<or> (\<forall>x \<in> set es'. fe_pins (snd x) \<noteq> 0)"
    "set es' \<subseteq> set es" using ev by blast+
  show "\<forall>x \<in> set es'. unat (fe_pins (snd x)) = held (fst x)" using ev pins(1) by blast
  show "\<forall>f. 0 < held f \<longrightarrow> f \<in> fst ` set es'"
  proof (intro allI impI)
    fix f assume "0 < held f"
    then obtain x where x: "x \<in> set es" "fst x = f" "unat (fe_pins (snd x)) = held f" using pins by (metis imageE)
    then have "fe_pins (snd x) \<noteq> 0" using \<open>0 < held f\<close> by auto
    then show "f \<in> fst ` set es'" using ev x(1,2) by blast
  qed
qed

lemma fdc_inv_acquire:
  assumes os: "posix_os os fdp cont intr" and inv: "fdc_inv fdp root max_open held c s"
    and run: "fdc_Acquire os f c s = (r, c', s')" and mx: "max_open \<noteq> 0"
  shows "cont s' = cont s \<and>
    (case r of Inl e \<Rightarrow> fdc_inv fdp root max_open held c' s'
     | Inr fd \<Rightarrow> fdp s' fd = Some (fdc_path root f) \<and>
         (held f + 1 < 2 ^ 64 \<longrightarrow> fdc_inv fdp root max_open (held(f := held f + 1)) c' s'))"
proof (cases "map_of (fdc_entries c) f")
  case (Some e0)
  let ?e = "e0\<lparr>fe_pins := fe_pins e0 + 1, fe_last_used := fdc_clock c + 1\<rparr>"
  have mem: "(f, e0) \<in> set (fdc_entries c)" using Some by (rule map_of_SomeD)
  have s': "s' = s" "r = Inr (fe_fd e0)" "fdc_entries c' = fdc_update f ?e (fdc_entries c)"
    "fdc_root_path c' = root" "fdc_max_open_files c' = max_open"
    using run inv by (auto simp: fdc_Acquire_def Some fdc_inv_def)
  have "unat (fe_pins e0) = held f" "fdp s (fe_fd e0) = Some (fdc_path root f)"
    using inv mem by (force simp: fdc_inv_def es_inv_def)+
  moreover have "fdc_inv fdp root max_open (held(f := held f + 1)) c' s" if "held f + 1 < 2 ^ 64"
    using fdc_inv_update [OF inv Some, of ?e "held f + 1" c'] s' that calculation(1)
    by (simp add: unat_word_ariths)
  ultimately show ?thesis using s' by simp
next
  case None
  let ?es = "fdc_entries c"
  have i: "fdc_root_path c = root" "fdc_max_open_files c = max_open" "es_inv fdp root ?es s"
    "\<forall>x \<in> set ?es. unat (fe_pins (snd x)) = held (fst x)" "\<forall>f. 0 < held f \<longrightarrow> f \<in> fst ` set ?es"
    using inv by (simp_all add: fdc_inv_def)
  obtain es1 s1 where ev: "fdc_EvictIdleLocked os (unat (max_open - 1)) ?es s = (es1, s1)" by fastforce
  obtain r2 s2 where op: "os_open os (fdc_path root f) s1 = (r2, s2)" by fastforce
  note e = fdc_inv_evict [OF os i(3,4,5) ev]
  note o = posix_openD [OF os op]
  have nf: "f \<notin> fst ` set ?es" "held f = 0" using None i(5) by (auto simp: map_of_eq_None_iff)
  then have nf1: "f \<notin> fst ` set es1" using e(6) by blast
  have mo: "unat (max_open - 1) = unat max_open - 1" "0 < unat max_open"
    using mx unat_minus_one [OF mx] by (simp_all add: unat_gt_0)
  show ?thesis
  proof (cases r2)
    case (Inl x)
    then have c': "r = Inl (IoError ''open failed'' x)" "c' = c\<lparr>fdc_entries := es1\<rparr>" "s' = s2"
      using run i(1,2) ev op by (simp_all add: fdc_Acquire_def None)
    have "es_inv fdp root es1 s2" using e(1) o(2) [OF Inl] by (simp add: es_inv_def)
    then show ?thesis using c' e i(1,2) o(1) mo by (simp add: fdc_inv_def) linarith
  next
    case (Inr fd)
    let ?new = "(f, \<lparr>fe_fd = fd, fe_last_used = fdc_clock c + 1, fe_pins = 1\<rparr>)"
    have c': "r = Inr fd" "fdc_entries c' = es1 @ [?new]" "s' = s2" "fdc_root_path c' = root" "fdc_max_open_files c' = max_open"
      using run i(1,2) ev op Inr by (auto simp: fdc_Acquire_def None)
    note fresh = o(3) [OF Inr]
    have ne: "\<forall>x \<in> set es1. fe_fd (snd x) \<noteq> fd" using e(1) fresh by (auto simp: es_inv_def)
    then have "es_inv fdp root (es1 @ [?new]) s2" using e(1) fresh nf1 by (auto simp: es_inv_def)
    moreover have "\<forall>x \<in> set es1. fst x \<noteq> f" using nf1 by auto
    ultimately have "fdc_inv fdp root max_open (held(f := held f + 1)) c' s2"
      using c' e(3,4,5) nf(2) mo by (auto simp: fdc_inv_def)
    then show ?thesis using c' fresh e(2) o(1) by simp
  qed
qed

lemma fdc_inv_release:
  assumes os: "posix_os os fdp cont intr" and inv: "fdc_inv fdp root max_open held c s"
    and run: "fdc_Release os f c s = (c', s')" and h: "0 < held f"
  shows "cont s' = cont s" "fdc_inv fdp root max_open (held(f := held f - 1)) c' s'"
proof -
  let ?es = "fdc_entries c" and ?n = "held f - 1"
  have "f \<in> fst ` set ?es" using inv h by (simp add: fdc_inv_def)
  then obtain e0 where e0: "map_of ?es f = Some e0" by (cases "map_of ?es f") (auto simp: map_of_eq_None_iff)
  then have p0: "unat (fe_pins e0) = held f" using inv map_of_SomeD [OF e0] by (force simp: fdc_inv_def)
  define e where "e = e0\<lparr>fe_pins := (if fe_pins e0 > 0 then fe_pins e0 - 1 else fe_pins e0), fe_last_used := fdc_clock c + 1\<rparr>"
  have nz: "fe_pins e0 \<noteq> 0" using p0 h by auto
  then have e: "fe_fd e = fe_fd e0" "unat (fe_pins e) = ?n"
    using p0 unat_minus_one [OF nz] by (simp_all add: e_def word_gt_0)
  let ?es1 = "fdc_update f e ?es"
  have i: "es_inv fdp root ?es s" "fdc_root_path c = root" "fdc_max_open_files c = max_open"
    using inv by (simp_all add: fdc_inv_def)
  then have dk: "distinct (map fst ?es)" by (simp add: es_inv_def)
  have mem: "(f, e0) \<in> set ?es" using e0 by (rule map_of_SomeD)
  have u: "x = (f, e0)" if "x \<in> set ?es" "fst x = f" for x
    using map_of_is_SomeI [OF dk, of f "snd x"] that e0 by (cases x) simp
  have pins: "\<forall>x \<in> set ?es1. unat (fe_pins (snd x)) = (held(f := ?n)) (fst x)"
    using inv u e(2) unfolding fdc_inv_def fdc_update_set [OF dk e0] by fastforce
  have keys: "\<forall>g. 0 < (held(f := ?n)) g \<longrightarrow> g \<in> fst ` set ?es1"
    using inv by (auto simp: fdc_inv_def)
  obtain es2 s2 where ev: "fdc_EvictIdleLocked os (unat max_open) ?es1 s = (es2, s2)" by fastforce
  note v = fdc_inv_evict [OF os es_inv_update [OF i(1) e0 e(1)] pins keys ev]
  have c': "c' = c\<lparr>fdc_clock := fdc_clock c + 1, fdc_entries := es2\<rparr>" "s' = s2"
    using run ev i(3) by (simp_all add: fdc_Release_def e0 e_def)
  show "cont s' = cont s" using v(2) c' by simp
  show "fdc_inv fdp root max_open (held(f := ?n)) c' s'" using v i(2,3) c' by (simp add: fdc_inv_def)
qed

lemma fdc_inv_close_idle:
  assumes os: "posix_os os fdp cont intr" and inv: "fdc_inv fdp root max_open held c s"
    and run: "fdc_CloseIdle os c s = (c', s')"
  shows "fdc_inv fdp root max_open held c' s'"
proof -
  have i: "es_inv fdp root (fdc_entries c) s" "fdc_root_path c = root" "fdc_max_open_files c = max_open"
    "\<forall>x \<in> set (fdc_entries c). unat (fe_pins (snd x)) = held (fst x)"
    "\<forall>f. 0 < held f \<longrightarrow> f \<in> fst ` set (fdc_entries c)"
    using inv by (simp_all add: fdc_inv_def)
  obtain es1 s1 where ev: "fdc_EvictIdleLocked os 0 (fdc_entries c) s = (es1, s1)" by fastforce
  have "c' = c\<lparr>fdc_entries := es1\<rparr>" "s' = s1" using run ev by (simp_all add: fdc_CloseIdle_def)
  then show ?thesis using fdc_inv_evict [OF os i(1,4,5) ev] i(2,3)
    by (simp add: fdc_inv_def) (metis le0 list.size(3))
qed

lemma fdc_reach_inv:
  assumes os: "posix_os os fdp cont intr" and mx: "max_open \<noteq> 0"
  shows "fdc_reach os fdp root max_open held c s \<Longrightarrow> fdc_inv fdp root max_open held c s"
proof (induction rule: fdc_reach.induct)
  case (create s)
  then show ?case using fdc_inv_create [OF mx] .
next
  case (acquire held c s f fd c' s')
  then show ?case using fdc_inv_acquire [OF os acquire.IH acquire.hyps(2) mx] by (simp del: fun_upd_apply)
next
  case (acquire_fails held c s f e c' s')
  then show ?case using fdc_inv_acquire [OF os acquire_fails.IH acquire_fails.hyps(2) mx] by simp
next
  case (release held c s f c' s')
  then show ?case using fdc_inv_release [OF os] by blast
next
  case (close_idle held c s c' s')
  then show ?case using fdc_inv_close_idle [OF os] by blast
next
  case (transfer held c s s')
  then show ?case by (simp add: fdc_inv_def es_inv_def)
qed

section \<open>A system in memory\<close>

text \<open>A concrete system with the documented behaviour: a table of descriptors and the files.\<close>

record MemOs =
  mo_fds :: "(int \<times> string) list"
  mo_files :: "string \<Rightarrow> nat \<Rightarrow> u8"

definition mem_fdp :: "MemOs \<Rightarrow> int \<Rightarrow> string option" where
  "mem_fdp s = map_of (mo_fds s)"

definition mem_os :: "MemOs Os" where
  "mem_os =
     \<lparr>os_open = (\<lambda>p s. let fd = foldr max (map fst (mo_fds s)) 2 + 1 in (Inr fd, s\<lparr>mo_fds := (fd, p) # mo_fds s\<rparr>)),
      os_close = (\<lambda>fd s. s\<lparr>mo_fds := filter (\<lambda>x. fst x \<noteq> fd) (mo_fds s)\<rparr>),
      os_preadv = (\<lambda>fd len off s. case mem_fdp s fd of None \<Rightarrow> (Inl 9, s)
         | Some p \<Rightarrow> (Inr (map (\<lambda>i. mo_files s p (nat off + i)) [0..<len]), s)),
      os_pwritev = (\<lambda>fd d off s. case mem_fdp s fd of None \<Rightarrow> (Inl 9, s)
         | Some p \<Rightarrow> (Inr (length d), s\<lparr>mo_files := (mo_files s)(p := \<lambda>i.
              if nat off \<le> i \<and> i < nat off + length d then d ! (i - nat off) else mo_files s p i)\<rparr>)),
      os_fdatasync = (\<lambda>fd s. (None, s)),
      os_fstat_size = (\<lambda>fd s. (Inr 0, s)),
      os_ftruncate = (\<lambda>fd n s. (None, s))\<rparr>"

lemma foldr_max_ge: "x \<in> set xs \<Longrightarrow> (x :: int) \<le> foldr max xs b" "b \<le> foldr max xs b"
  by (induction xs) auto

lemma map_of_filter_other: "map_of (filter (\<lambda>x. fst x \<noteq> k) xs) = (map_of xs)(k := None)"
  by (induction xs) (auto simp: fun_eq_iff)

lemma posix_mem_os: "posix_os mem_os mem_fdp mo_files (\<lambda>_. 0)"
proof -
  have "posix_open mem_os mem_fdp mo_files"
  proof -
    have "map_of (mo_fds s) (foldr max (map fst (mo_fds s)) 2 + 1) = None" for s :: MemOs
      using foldr_max_ge(1) [of _ "map fst (mo_fds s)" 2] by (force simp: map_of_eq_None_iff)
    moreover have "0 \<le> foldr max (map fst (mo_fds s)) 2 + 1" for s :: MemOs
      using foldr_max_ge(2) [of 2 "map fst (mo_fds s)"] by simp
    ultimately show ?thesis by (auto simp: posix_open_def mem_os_def mem_fdp_def Let_def)
  qed
  moreover have "posix_close mem_os mem_fdp mo_files"
    by (simp add: posix_close_def mem_os_def mem_fdp_def map_of_filter_other)
  moreover have "posix_read mem_os mem_fdp mo_files (\<lambda>_. 0)" "posix_write mem_os mem_fdp mo_files (\<lambda>_. 0)"
    by (auto simp: posix_read_def posix_write_def mem_os_def mem_fdp_def cong: if_cong)
  moreover have "posix_sync mem_os mem_fdp mo_files" by (simp add: posix_sync_def mem_os_def)
  ultimately show ?thesis by (simp add: posix_os_def)
qed

section \<open>Properties\<close>

text \<open>
  C17.  Whatever sequence of acquisitions and releases the cache has seen, a file that a
  client holds has an open descriptor of that very file, and the number of descriptors never
  exceeds the limit unless every one of them is held.
\<close>

theorem descriptors_stay_open:
  assumes os: "posix_os os fdp cont intr" and mx: "max_open \<noteq> 0"
    and reach: "fdc_reach os fdp root max_open held c s"
  shows "(0 < held f \<longrightarrow>
      (\<exists>e. map_of (fdc_entries c) f = Some e \<and> fdp s (fe_fd e) = Some (fdc_path root f))) \<and>
    length (fdc_entries c) \<le> max (unat max_open) (card {f. 0 < held f})"
proof
  let ?es = "fdc_entries c"
  have inv: "fdc_inv fdp root max_open held c s" using fdc_reach_inv [OF os mx reach] .
  show "0 < held f \<longrightarrow> (\<exists>e. map_of ?es f = Some e \<and> fdp s (fe_fd e) = Some (fdc_path root f))"
  proof
    assume "0 < held f"
    then have "f \<in> fst ` set ?es" using inv by (simp add: fdc_inv_def)
    then obtain e where e: "map_of ?es f = Some e" by (cases "map_of ?es f") (auto simp: map_of_eq_None_iff)
    then show "\<exists>e. map_of ?es f = Some e \<and> fdp s (fe_fd e) = Some (fdc_path root f)"
      using inv map_of_SomeD [OF e] by (force simp: fdc_inv_def es_inv_def)
  qed
  show "length ?es \<le> max (unat max_open) (card {f. 0 < held f})"
  proof (cases "length ?es \<le> unat max_open")
    case False
    then have "\<forall>x \<in> set ?es. fe_pins (snd x) \<noteq> 0" using inv by (simp add: fdc_inv_def)
    then have pos: "\<forall>x \<in> set ?es. 0 < held (fst x)" using inv by (metis fdc_inv_def unat_gt_0)
    have "{f. 0 < held f} = fst ` set ?es" using pos inv by (auto simp: fdc_inv_def)
    then have "card {f. 0 < held f} = length ?es"
      using inv distinct_card [of "map fst ?es"] by (simp add: fdc_inv_def es_inv_def)
    then show ?thesis by simp
  qed simp
qed

theorem descriptors_stay_open_witness:
  "\<exists>c s. fdc_reach mem_os mem_fdp ''root'' 1 ((\<lambda>_. 0)(7 := 0 + 1)) c s \<and>
     (\<exists>e. map_of (fdc_entries c) 7 = Some e \<and> mem_fdp s (fe_fd e) = Some (fdc_path ''root'' 7))"
proof -
  let ?s = "\<lparr>mo_fds = [], mo_files = (\<lambda>_ _. 0)\<rparr>"
  obtain c s where acq: "fdc_Acquire mem_os 7 (fdc_create ''root'' 1) ?s = (Inr 3, c, s)"
    by (simp add: fdc_Acquire_def fdc_create_def mem_os_def fdc_EvictIdleLocked.simps Let_def)
  have "fdc_reach mem_os mem_fdp ''root'' 1 ((\<lambda>_. 0)(7 := 0 + 1)) c s"
    by (rule fdc_reach.acquire [OF fdc_reach.create acq]) simp
  then show ?thesis using descriptors_stay_open [OF posix_mem_os, of 1 "''root''" "(\<lambda>_. 0)(7 := 0 + 1)" c s 7] by auto
qed

end
