(* ===== verification/Posix_Backend.thy ===== *)
theory Posix_Backend
  imports Fd_Cache "HOL-Library.Multiset"
begin

text \<open>
  \<^verbatim>\<open>lib/io/posix_disk_backend.cc\<close>: the transfer of a request with \<^verbatim>\<open>preadv\<close> and
  \<^verbatim>\<open>pwritev\<close>, and the queue between the threads that submit requests, the workers that execute
  them and the threads that reap completions.  A transfer that never returns, because every
  call is interrupted, is \<open>None\<close>.
\<close>

section \<open>Transfers\<close>

definition iov_length :: "iovec list \<Rightarrow> nat" where
  "iov_length v = sum_list (map (\<lambda>(p, s, l). l) v)"

partial_function (option) ps_read_loop ::
  "'o Os \<Rightarrow> int \<Rightarrow> nat \<Rightarrow> int \<Rightarrow> addr list \<Rightarrow> nat \<Rightarrow> memory \<Rightarrow> 'o \<Rightarrow> ((Error + nat) \<times> memory \<times> 'o) option" where
  "ps_read_loop os fd block_size base buffers t m s =
     (if t < length buffers * block_size then
        (let iov = iov_from block_size buffers t;
             (r, s) = os_preadv os fd (iov_length iov) (base + int t) s
         in if isl r then
              (if projl r = EINTR then ps_read_loop os fd block_size base buffers t m s
               else Some (Inl (IoError ''preadv failed'' (projl r)), m, s))
            else if projr r = [] then Some (Inr t, m, s)
            else ps_read_loop os fd block_size base buffers (t + length (projr r)) (iov_scatter iov (projr r) m) s)
      else Some (Inr t, m, s))"

definition ps_ExecuteRead ::
  "'o Os \<Rightarrow> BlockGeometry \<Rightarrow> int \<Rightarrow> DiskRequest \<Rightarrow> memory \<Rightarrow> 'o \<Rightarrow> (Status \<times> memory \<times> 'o) option" where
  "ps_ExecuteRead os g fd request m s =
     (let block_size = unat (bg_block_size g);
          buffers = dr_addrs request;
          base = sint (BlockOffset g (bt_block_id (dr_tag request)))
      in case ps_read_loop os fd block_size base buffers 0 m s of
           None \<Rightarrow> None
         | Some (Inl e, m, s) \<Rightarrow> Some (Inl e, m, s)
         | Some (Inr t, m, s) \<Rightarrow>
             Some (Ok, if t < length buffers * block_size then ZeroFillReadTail buffers block_size t m else m, s))"

partial_function (option) ps_write_loop ::
  "'o Os \<Rightarrow> int \<Rightarrow> nat \<Rightarrow> int \<Rightarrow> addr list \<Rightarrow> memory \<Rightarrow> nat \<Rightarrow> 'o \<Rightarrow> (Status \<times> 'o) option" where
  "ps_write_loop os fd block_size base buffers m t s =
     (if t < length buffers * block_size then
        (let iov = iov_from block_size buffers t;
             (r, s) = os_pwritev os fd (iov_gather iov m) (base + int t) s
         in if isl r then
              (if projl r = EINTR then ps_write_loop os fd block_size base buffers m t s
               else Some (Inl (IoError ''pwritev failed'' (projl r)), s))
            else if projr r = 0 then Some (Inl (IoError ''partial page write'' 0), s)
            else ps_write_loop os fd block_size base buffers m (t + projr r) s)
      else Some (Ok, s))"

definition ps_ExecuteWrite ::
  "'o Os \<Rightarrow> BlockGeometry \<Rightarrow> bool \<Rightarrow> int \<Rightarrow> DiskRequest \<Rightarrow> memory \<Rightarrow> 'o \<Rightarrow> (Status \<times> 'o) option" where
  "ps_ExecuteWrite os g sync_on_write fd request m s =
     (let base = sint (BlockOffset g (bt_block_id (dr_tag request))) in
      case ps_write_loop os fd (unat (bg_block_size g)) base (dr_addrs request) m 0 s of
        None \<Rightarrow> None
      | Some (Inl e, s) \<Rightarrow> Some (Inl e, s)
      | Some (Inr _, s) \<Rightarrow>
          if sync_on_write
          then (let (r, s) = os_fdatasync os fd s
                in Some (case r of Some e \<Rightarrow> Inl (IoError ''fdatasync failed'' e) | None \<Rightarrow> Ok, s))
          else Some (Ok, s))"

record PosixFiles =
  pf_geometry :: BlockGeometry
  pf_sync_on_write :: bool
  pf_files :: FdCache

definition ps_Execute ::
  "'o Os \<Rightarrow> DiskRequest \<Rightarrow> PosixFiles \<Rightarrow> memory \<Rightarrow> 'o \<Rightarrow> (Status \<times> PosixFiles \<times> memory \<times> 'o) option" where
  "ps_Execute os request b m s =
     (let file_id = bt_file_id (dr_tag request);
          (fd, c, s) = fdc_Acquire os file_id (pf_files b) s
      in case fd of
           Inl e \<Rightarrow> Some (Inl e, b\<lparr>pf_files := c\<rparr>, m, s)
         | Inr fd \<Rightarrow>
             (case (case dr_operation request of
                      kRead \<Rightarrow> ps_ExecuteRead os (pf_geometry b) fd request m s
                    | kWrite \<Rightarrow> map_option (\<lambda>(st, s). (st, m, s))
                                  (ps_ExecuteWrite os (pf_geometry b) (pf_sync_on_write b) fd request m s)
                    | kSync \<Rightarrow> (let (r, s) = os_fdatasync os fd s
                               in Some (case r of Some e \<Rightarrow> Inl (IoError ''fdatasync failed'' e) | None \<Rightarrow> Ok, m, s)))
              of None \<Rightarrow> None
               | Some (status, m, s) \<Rightarrow>
                   (let (c, s) = fdc_Release os file_id c s
                    in Some (status, b\<lparr>pf_files := c\<rparr>, m, s))))"

section \<open>The queue\<close>

record PosixQueue =
  pq_pending :: "DiskRequest list"
  pq_completed :: "DiskCompletion list"
  pq_executing :: nat
  pq_shutdown :: bool

definition pq_empty :: PosixQueue where
  "pq_empty = \<lparr>pq_pending = [], pq_completed = [], pq_executing = 0, pq_shutdown = False\<rparr>"

text \<open>
  \<^verbatim>\<open>Submit\<close> for one request, up to the point where a request of mode \<^verbatim>\<open>kWait\<close> is executed: the
  request is refused, queued, or counted as executing.
\<close>

definition pq_Submit1 :: "string \<Rightarrow> DiskRequest \<Rightarrow> DiskSubmitMode \<Rightarrow> PosixQueue \<Rightarrow> PosixQueue Result" where
  "pq_Submit1 root_path request mode q =
     (case (if root_path = [] then Inl (InvalidArgument ''disk backend root path must not be empty'')
            else ValidateDiskRequest request kMaxDiskRequestBlocks)
      of Inl e \<Rightarrow> Inl e
       | Inr _ \<Rightarrow>
           if pq_shutdown q then Inl (Unavailable ''disk backend is shutting down'' 0)
           else if mode = kAsync then Inr (q\<lparr>pq_pending := pq_pending q @ [request]\<rparr>)
           else Inr (q\<lparr>pq_executing := pq_executing q + 1\<rparr>))"

definition pq_PushCompletion :: "DiskCompletion \<Rightarrow> PosixQueue \<Rightarrow> PosixQueue" where
  "pq_PushCompletion completion q =
     q\<lparr>pq_completed := pq_completed q @ [completion], pq_executing := pq_executing q - 1\<rparr>"

definition pq_IsDrainedLocked :: "PosixQueue \<Rightarrow> bool" where
  "pq_IsDrainedLocked q \<longleftrightarrow> pq_shutdown q \<and> pq_pending q = [] \<and> pq_executing q = 0"

text \<open>A reaper that has to wait is blocked: \<open>None\<close>.\<close>

definition pq_Reap :: "nat \<Rightarrow> bool \<Rightarrow> PosixQueue \<Rightarrow> (DiskCompletion list Result \<times> PosixQueue) option" where
  "pq_Reap out_size wait q =
     (if wait \<and> pq_completed q = [] \<and> \<not> pq_IsDrainedLocked q then None
      else if pq_completed q = []
        then Some (if wait then Inl (Unavailable ''disk backend is shutting down'' 0) else Inr [], q)
      else let count = min out_size (length (pq_completed q))
           in Some (Inr (take count (pq_completed q)), q\<lparr>pq_completed := drop count (pq_completed q)\<rparr>))"

definition pq_Shutdown :: "PosixQueue \<Rightarrow> PosixQueue" where
  "pq_Shutdown q = q\<lparr>pq_shutdown := True\<rparr>"

text \<open>
  What a worker does when it has the latch: \<open>None\<close> when it waits, no request when it ends.
\<close>

definition pq_WorkerTake :: "PosixQueue \<Rightarrow> (DiskRequest option \<times> PosixQueue) option" where
  "pq_WorkerTake q =
     (case pq_pending q of
        [] \<Rightarrow> if pq_shutdown q then Some (None, q) else None
      | r # rs \<Rightarrow> Some (Some r, q\<lparr>pq_pending := rs, pq_executing := pq_executing q + 1\<rparr>))"

text \<open>\<^verbatim>\<open>Submit\<close> as one thread runs it, with the number of requests accepted so far.\<close>

fun ps_Submit ::
  "'o Os \<Rightarrow> DiskRequest list \<Rightarrow> DiskSubmitMode \<Rightarrow> nat \<Rightarrow> PosixFiles \<Rightarrow> PosixQueue \<Rightarrow> memory \<Rightarrow> 'o \<Rightarrow>
     (nat Result \<times> PosixFiles \<times> PosixQueue \<times> memory \<times> 'o) option" where
  "ps_Submit os [] mode accepted b q m s = Some (Inr accepted, b, q, m, s)"
| "ps_Submit os (r # rs) mode accepted b q m s =
     (case pq_Submit1 (fdc_root_path (pf_files b)) r mode q of
        Inl e \<Rightarrow> Some (if accepted = 0 then Inl e else Inr accepted, b, q, m, s)
      | Inr q \<Rightarrow>
          if mode = kAsync then ps_Submit os rs mode (accepted + 1) b q m s
          else (case ps_Execute os r b m s of
                  None \<Rightarrow> None
                | Some (status, b, m, s) \<Rightarrow>
                    ps_Submit os rs mode (accepted + 1) b
                      (pq_PushCompletion \<lparr>dc_token = dr_token r, dc_status = status\<rparr> q) m s))"

text \<open>
  Any number of threads on the queue.  \<open>R\<close> are the requests being executed, \<open>A\<close> the tokens of
  the requests accepted so far and \<open>P\<close> the tokens reaped.
\<close>

inductive pq_reach ::
  "string \<Rightarrow> PosixQueue \<Rightarrow> DiskRequest multiset \<Rightarrow> u64 multiset \<Rightarrow> u64 multiset \<Rightarrow> bool" for root where
  start: "pq_reach root pq_empty {#} {#} {#}"
| submit_async: "pq_reach root q R A P \<Longrightarrow> pq_Submit1 root r kAsync q = Inr q' \<Longrightarrow>
    pq_reach root q' R (add_mset (dr_token r) A) P"
| submit_wait: "pq_reach root q R A P \<Longrightarrow> pq_Submit1 root r kWait q = Inr q' \<Longrightarrow>
    pq_reach root q' (add_mset r R) (add_mset (dr_token r) A) P"
| worker: "pq_reach root q R A P \<Longrightarrow> pq_WorkerTake q = Some (Some r, q') \<Longrightarrow> pq_reach root q' (add_mset r R) A P"
| complete: "pq_reach root q (add_mset r R) A P \<Longrightarrow>
    pq_reach root (pq_PushCompletion \<lparr>dc_token = dr_token r, dc_status = st\<rparr> q) R A P"
| reap: "pq_reach root q R A P \<Longrightarrow> pq_Reap n wait q = Some (Inr cs, q') \<Longrightarrow>
    pq_reach root q' R A (P + mset (map dc_token cs))"
| shutdown: "pq_reach root q R A P \<Longrightarrow> pq_reach root (pq_Shutdown q) R A P"

section \<open>Transfers move exactly the blocks\<close>

lemma iov_length_from:
  assumes "t < length ps * bs"
  shows "iov_length (iov_from bs ps t) = length ps * bs - t"
proof -
  obtain qs p rs where ps: "ps = qs @ p # rs" "length qs = t div bs"
    and iov: "iov_from bs ps t = (p, t mod bs, bs - t mod bs) # map (\<lambda>p. (p, 0, bs)) rs"
    using iov_from_Cons [OF assms] by blast
  have bs: "0 < bs" using assms by (cases bs) auto
  have "iov_length (map (\<lambda>p. (p, 0, bs)) rs) = length rs * bs" for rs
    by (induction rs) (simp_all add: iov_length_def)
  then have "iov_length (iov_from bs ps t) = bs - t mod bs + length rs * bs"
    by (simp add: iov iov_length_def)
  moreover have "t = length qs * bs + t mod bs" "t mod bs < bs" using bs ps(2) by simp_all
  then have "bs - t mod bs + length rs * bs = (length qs * bs + bs + length rs * bs) - t" by linarith
  ultimately show ?thesis using ps(1) by (simp add: algebra_simps)
qed

lemma posix_readD:
  assumes "posix_os os fdp cont intr" "fdp s fd = Some p" "os_preadv os fd len (int off) s = (r, s')"
  shows "cont s' = cont s" "fdp s' = fdp s" "r = Inl EINTR \<Longrightarrow> intr s' < intr s"
    "r = Inr d \<Longrightarrow> intr s' \<le> intr s \<and> length d \<le> len \<and> (\<forall>i < length d. d ! i = cont s p (off + i)) \<and>
       (d = [] \<longrightarrow> 0 < len \<longrightarrow> (\<forall>i \<ge> off. cont s p i = 0))"
  using assms unfolding posix_os_def posix_read_def by blast+

lemma posix_writeD:
  assumes "posix_os os fdp cont intr" "fdp s fd = Some p" "os_pwritev os fd d (int off) s = (r, s')"
  shows "fdp s' = fdp s" "r = Inl e \<Longrightarrow> cont s' = cont s \<and> (e = EINTR \<longrightarrow> intr s' < intr s)"
    "r = Inr n \<Longrightarrow> intr s' \<le> intr s \<and> n \<le> length d \<and>
       cont s' = (cont s)(p := \<lambda>i. if off \<le> i \<and> i < off + n then d ! (i - off) else cont s p i)"
  using assms unfolding posix_os_def posix_write_def by blast+

definition read_done :: "(nat \<Rightarrow> u8) \<Rightarrow> nat \<Rightarrow> nat \<Rightarrow> addr list \<Rightarrow> memory \<Rightarrow> memory \<Rightarrow> nat \<Rightarrow> bool" where
  "read_done file b bs ps m0 m t \<longleftrightarrow>
     blocks bs m ps \<and> t \<le> length ps * bs \<and> (\<forall>q. q \<notin> set ps \<longrightarrow> m q = m0 q) \<and>
     take t (flat m ps) = map (\<lambda>i. file (b + i)) [0..<t]"

lemma read_done_step:
  assumes "read_done file b bs ps m0 m t" "t < length ps * bs" "length d \<le> length ps * bs - t"
    "\<forall>i < length d. d ! i = file (b + t + i)"
  shows "read_done file b bs ps m0 (iov_scatter (iov_from bs ps t) d m) (t + length d)"
proof -
  have m: "blocks bs m ps" "take t (flat m ps) = map (\<lambda>i. file (b + i)) [0..<t]" "\<forall>q. q \<notin> set ps \<longrightarrow> m q = m0 q"
    using assms(1) by (simp_all add: read_done_def)
  have "t + length d \<le> length ps * bs" using assms(2,3) by simp
  note sc = iov_scatter_from [OF m(1) assms(2) this]
  have "length (flat m ps) = length ps * bs" using length_flat [OF m(1)] .
  then have "take (t + length d) (flat (iov_scatter (iov_from bs ps t) d m) ps) = map (\<lambda>i. file (b + i)) [0..<t] @ d"
    using sc(1) m(2) assms(2) by simp
  moreover have "d = map (\<lambda>i. file (b + i)) [t..<t + length d]"
    using assms(4) by (intro nth_equalityI) (simp_all add: add.assoc)
  then have "map (\<lambda>i. file (b + i)) [0..<t] @ d = map (\<lambda>i. file (b + i)) [0..<t + length d]"
    using upt_add_eq_append [of 0 t "length d"] by simp
  ultimately show ?thesis
    using sc(2,3) m(3) \<open>t + length d \<le> length ps * bs\<close> by (simp add: read_done_def)
qed

lemma ps_read_loop_ok:
  assumes os: "posix_os os fdp cont intr"
  shows "fdp s fd = Some p \<Longrightarrow> read_done (cont s p) b bs ps m0 m t \<Longrightarrow>
    \<exists>r m' s'. ps_read_loop os fd bs (int b) ps t m s = Some (r, m', s') \<and> cont s' = cont s \<and> fdp s' = fdp s \<and>
      blocks bs m' ps \<and> (\<forall>q. q \<notin> set ps \<longrightarrow> m' q = m0 q) \<and>
      (\<forall>t'. r = Inr t' \<longrightarrow> read_done (cont s p) b bs ps m0 m' t' \<and>
         (t' < length ps * bs \<longrightarrow> (\<forall>i \<ge> b + t'. cont s p i = 0)))"
proof (induction "length ps * bs - t + intr s" arbitrary: t m s rule: less_induct)
  case less
  note rd = less.prems(2)
  have base: "blocks bs m ps \<and> (\<forall>q. q \<notin> set ps \<longrightarrow> m q = m0 q)" using rd by (simp add: read_done_def)
  show ?case
  proof (cases "t < length ps * bs")
    case False
    then show ?thesis using base rd by (subst ps_read_loop.simps) simp
  next
    case True
    note len = iov_length_from [OF True]
    obtain r s1 where call: "os_preadv os fd (length ps * bs - t) (int (b + t)) s = (r, s1)" by fastforce
    note c = posix_readD [OF os less.prems(1) call]
    have step: "ps_read_loop os fd bs (int b) ps t m s =
        (if isl r then (if projl r = EINTR then ps_read_loop os fd bs (int b) ps t m s1
           else Some (Inl (IoError ''preadv failed'' (projl r)), m, s1))
         else if projr r = [] then Some (Inr t, m, s1)
         else ps_read_loop os fd bs (int b) ps (t + length (projr r)) (iov_scatter (iov_from bs ps t) (projr r) m) s1)"
      using True call len by (subst ps_read_loop.simps) (simp add: Let_def)
    show ?thesis
    proof (cases r)
      case (Inl e)
      show ?thesis
      proof (cases "e = EINTR")
        case True
        then have "length ps * bs - t + intr s1 < length ps * bs - t + intr s" using c(3) Inl by simp
        then show ?thesis using less.hyps [of t s1 m] c(1,2) less.prems Inl True step by simp
      next
        case False
        then show ?thesis using step Inl c(1,2) base by simp
      qed
    next
      case (Inr d)
      note d = c(4) [OF Inr]
      show ?thesis
      proof (cases "d = []")
        case True
        then show ?thesis using step Inr c(1,2) base rd d \<open>t < length ps * bs\<close> by simp
      next
        case False
        have nxt: "read_done (cont s p) b bs ps m0 (iov_scatter (iov_from bs ps t) d m) (t + length d)"
          using read_done_step [OF rd True] d by (simp add: add.assoc)
        have "0 < length d" using False by simp
        then have "length ps * bs - (t + length d) + intr s1 < length ps * bs - t + intr s"
          using d True by linarith
        then show ?thesis using less.hyps [of "t + length d" s1 "iov_scatter (iov_from bs ps t) d m"]
          nxt c(1,2) less.prems(1) Inr False step by simp
      qed
    qed
  qed
qed

definition overwrite :: "nat \<Rightarrow> u8 list \<Rightarrow> (nat \<Rightarrow> u8) \<Rightarrow> nat \<Rightarrow> u8" where
  "overwrite b d file i = (if b \<le> i \<and> i < b + length d then d ! (i - b) else file i)"

lemma ps_write_loop_ok:
  assumes os: "posix_os os fdp cont intr" and bl: "blocks bs m ps"
  defines "F \<equiv> flat m ps"
  shows "fdp s fd = Some p \<Longrightarrow> t \<le> length ps * bs \<Longrightarrow> cont s = c0(p := overwrite b (take t F) (c0 p)) \<Longrightarrow>
    \<exists>r s' n. ps_write_loop os fd bs (int b) ps m t s = Some (r, s') \<and> fdp s' = fdp s \<and>
      cont s' = c0(p := overwrite b (take n F) (c0 p)) \<and> (r = Ok \<longrightarrow> n = length F)"
proof (induction "length ps * bs - t + intr s" arbitrary: t s rule: less_induct)
  case less
  have len: "length F = length ps * bs" using length_flat [OF bl] by (simp add: F_def)
  show ?case
  proof (cases "t < length ps * bs")
    case False
    then show ?thesis using less.prems len by (subst ps_write_loop.simps) auto
  next
    case True
    note g = iov_gather_from [OF bl True, folded F_def]
    obtain r s1 where call: "os_pwritev os fd (drop t F) (int (b + t)) s = (r, s1)" by fastforce
    note c = posix_writeD [OF os less.prems(1) call]
    have step: "ps_write_loop os fd bs (int b) ps m t s =
        (if isl r then (if projl r = EINTR then ps_write_loop os fd bs (int b) ps m t s1
           else Some (Inl (IoError ''pwritev failed'' (projl r)), s1))
         else if projr r = 0 then Some (Inl (IoError ''partial page write'' 0), s1)
         else ps_write_loop os fd bs (int b) ps m (t + projr r) s1)"
      using True call g by (subst ps_write_loop.simps) (simp add: Let_def)
    show ?thesis
    proof (cases r)
      case (Inl e)
      show ?thesis
      proof (cases "e = EINTR")
        case True
        then have "length ps * bs - t + intr s1 < length ps * bs - t + intr s" using c(2) [OF Inl] by simp
        then show ?thesis using less.hyps [of t s1] c(1) c(2) [OF Inl] less.prems Inl True step by simp
      next
        case False
        then show ?thesis using step Inl c(1) c(2) [OF Inl] less.prems(3) by auto
      qed
    next
      case (Inr n)
      note d = c(3) [OF Inr]
      have n: "n \<le> length F - t" using d by simp
      have "cont s1 = c0(p := overwrite b (take (t + n) F) (c0 p))"
      proof -
        have cs: "cont s p = overwrite b (take t F) (c0 p)" using less.prems(3) by simp
        have eq: "(if b + t \<le> i \<and> i < b + t + n then drop t F ! (i - (b + t)) else overwrite b (take t F) (c0 p) i) =
          overwrite b (take (t + n) F) (c0 p) i" for i
          using n True len by (auto simp: overwrite_def)
        have "(\<lambda>i. if b + t \<le> i \<and> i < b + t + n then drop t F ! (i - (b + t)) else cont s p i) =
          overwrite b (take (t + n) F) (c0 p)" unfolding cs by (rule ext) (rule eq)
        then show ?thesis using d less.prems(3) by (simp only: fun_upd_upd)
      qed
      moreover have "t + n \<le> length ps * bs" using n True len by simp
      moreover have "0 < n \<Longrightarrow> length ps * bs - (t + n) + intr s1 < length ps * bs - t + intr s"
        using d True len by linarith
      ultimately show ?thesis
        using step Inr c(1) less.prems(1) less.hyps [of "t + n" s1] by (cases "n = 0") auto
    qed
  qed
qed

lemma sint_below:
  fixes x :: u64
  assumes "unat x < 2 ^ 63"
  shows "sint x = int (unat x)"
proof -
  have "int (unat x) < int (2 ^ 63)" using assms by (simp only: of_nat_less_iff)
  then have "uint x < 2 ^ 63" by simp
  moreover have "- (2 ^ 63) \<le> uint x"
    by (rule order_trans [OF _ unsigned_greater_eq]) simp
  ultimately have "signed_take_bit 63 (uint x) = uint x" by (intro signed_take_bit_int_eq_self)
  then show ?thesis by (simp add: sint_uint)
qed

lemma ps_ExecuteRead_ok:
  assumes os: "posix_os os fdp cont intr" and fd: "fdp s fd = Some p"
    and bl: "blocks (unat (bg_block_size g)) m (dr_addrs r)"
    and off: "unat (BlockOffset g (bt_block_id (dr_tag r))) < 2 ^ 63"
  defines "b \<equiv> unat (BlockOffset g (bt_block_id (dr_tag r)))" and "ps \<equiv> dr_addrs r"
    and "bs \<equiv> unat (bg_block_size g)"
  shows "\<exists>st m' s'. ps_ExecuteRead os g fd r m s = Some (st, m', s') \<and> cont s' = cont s \<and> fdp s' = fdp s \<and>
    (\<forall>q. q \<notin> set ps \<longrightarrow> m' q = m q) \<and>
    (st = Ok \<longrightarrow> flat m' ps = map (\<lambda>i. cont s p (b + i)) [0..<length ps * bs])"
proof -
  have base: "sint (BlockOffset g (bt_block_id (dr_tag r))) = int b"
    using sint_below [OF off] by (simp add: b_def)
  have start: "read_done (cont s p) b bs ps m m 0" using bl by (simp add: read_done_def bs_def ps_def)
  obtain st m1 s1 where run: "ps_read_loop os fd bs (int b) ps 0 m s = Some (st, m1, s1)"
    and e: "cont s1 = cont s" "fdp s1 = fdp s" "\<forall>q. q \<notin> set ps \<longrightarrow> m1 q = m q"
    and ok: "\<And>t'. st = Inr t' \<Longrightarrow> read_done (cont s p) b bs ps m m1 t' \<and>
         (t' < length ps * bs \<longrightarrow> (\<forall>i \<ge> b + t'. cont s p i = 0))"
    using ps_read_loop_ok [OF os fd start] by blast
  note x = ps_ExecuteRead_def [of os g fd r m s, unfolded Let_def, folded bs_def ps_def, unfolded base]
  show ?thesis
  proof (cases st)
    case (Inl err)
    then show ?thesis using x run e by simp
  next
    case (Inr t)
    note d = ok [OF Inr]
    have rd: "blocks bs m1 ps" "t \<le> length ps * bs" "take t (flat m1 ps) = map (\<lambda>i. cont s p (b + i)) [0..<t]"
      using d by (simp_all add: read_done_def)
    have len: "length (flat m1 ps) = length ps * bs" using length_flat [OF rd(1)] .
    show ?thesis
    proof (cases "t < length ps * bs")
      case True
      have "replicate (length ps * bs - t) 0 = map (\<lambda>i. cont s p (b + i)) [t..<length ps * bs]"
        using d True by (intro nth_equalityI) simp_all
      then have "flat (ZeroFillReadTail ps bs t m1) ps = map (\<lambda>i. cont s p (b + i)) [0..<length ps * bs]"
        using flat_ZeroFillReadTail [OF rd(1), of t] rd(3) upt_add_eq_append [of 0 t "length ps * bs - t"] True by simp
      then show ?thesis using x run e Inr True ZeroFillReadTail_other [of _ ps bs t m1] by simp
    next
      case False
      then show ?thesis using x run e Inr rd len by simp
    qed
  qed
qed

lemma ps_ExecuteWrite_ok:
  assumes os: "posix_os os fdp cont intr" and fd: "fdp s fd = Some p"
    and bl: "blocks (unat (bg_block_size g)) m (dr_addrs r)"
    and off: "unat (BlockOffset g (bt_block_id (dr_tag r))) < 2 ^ 63"
  defines "b \<equiv> unat (BlockOffset g (bt_block_id (dr_tag r)))" and "F \<equiv> flat m (dr_addrs r)"
  shows "\<exists>st s' n. ps_ExecuteWrite os g sync fd r m s = Some (st, s') \<and> fdp s' = fdp s \<and>
    cont s' = (cont s)(p := overwrite b (take n F) (cont s p)) \<and> (st = Ok \<longrightarrow> n = length F)"
proof -
  have base: "sint (BlockOffset g (bt_block_id (dr_tag r))) = int b"
    using sint_below [OF off] by (simp add: b_def)
  have "cont s = (cont s)(p := overwrite b (take 0 F) (cont s p))" by (auto simp: overwrite_def fun_eq_iff)
  from ps_write_loop_ok [OF os bl fd, folded F_def, of 0 "cont s" b, OF _ this]
  obtain st s1 n where run: "ps_write_loop os fd (unat (bg_block_size g)) (int b) (dr_addrs r) m 0 s = Some (st, s1)"
    and e: "fdp s1 = fdp s" "cont s1 = (cont s)(p := overwrite b (take n F) (cont s p))" "st = Ok \<longrightarrow> n = length F" by auto
  note x = ps_ExecuteWrite_def [of os g sync fd r m s, unfolded Let_def base run option.case]
  obtain sr s2 where sync: "os_fdatasync os fd s1 = (sr, s2)" by fastforce
  then have "cont s2 = cont s1" "fdp s2 = fdp s1" using os by (simp_all add: posix_os_def posix_sync_def)
  then have "\<exists>st s'. ps_ExecuteWrite os g sync fd r m s = Some (st, s') \<and> fdp s' = fdp s \<and>
    cont s' = (cont s)(p := overwrite b (take n F) (cont s p)) \<and> (st = Ok \<longrightarrow> n = length F)"
    using x e sync by (cases st) (auto split: option.splits)
  then show ?thesis by blast
qed

lemma ps_Execute_ok:
  assumes os: "posix_os os fdp cont intr" and mx: "max_open \<noteq> 0"
    and inv: "fdc_inv fdp root max_open held (pf_files b) s" and room: "held (bt_file_id (dr_tag r)) + 1 < 2 ^ 64"
    and bl: "blocks (unat (bg_block_size (pf_geometry b))) m (dr_addrs r)"
    and off: "unat (BlockOffset (pf_geometry b) (bt_block_id (dr_tag r))) < 2 ^ 63"
  defines "off \<equiv> unat (BlockOffset (pf_geometry b) (bt_block_id (dr_tag r)))" and "ps \<equiv> dr_addrs r"
    and "path \<equiv> fdc_path root (bt_file_id (dr_tag r))"
  shows "\<exists>st b' m' s'. ps_Execute os r b m s = Some (st, b', m', s') \<and>
    fdc_inv fdp root max_open held (pf_files b') s' \<and> pf_geometry b' = pf_geometry b \<and>
    (dr_operation r = kRead \<longrightarrow> cont s' = cont s \<and> (\<forall>q. q \<notin> set ps \<longrightarrow> m' q = m q) \<and>
       (st = Ok \<longrightarrow> flat m' ps = map (\<lambda>i. cont s path (off + i)) [0..<length ps * unat (bg_block_size (pf_geometry b))])) \<and>
    (dr_operation r = kWrite \<longrightarrow> m' = m \<and>
       (\<exists>n. cont s' = (cont s)(path := overwrite off (take n (flat m ps)) (cont s path)) \<and> (st = Ok \<longrightarrow> n = length (flat m ps)))) \<and>
    (dr_operation r = kSync \<longrightarrow> m' = m \<and> cont s' = cont s)"
proof -
  let ?f = "bt_file_id (dr_tag r)"
  obtain a c1 s1 where acq: "fdc_Acquire os ?f (pf_files b) s = (a, c1, s1)" using prod_cases3 by blast
  note A = fdc_inv_acquire [OF os inv acq mx]
  show ?thesis
  proof (cases a)
    case (Inl e)
    have "cont s = (cont s)(path := overwrite off (take 0 (flat m ps)) (cont s path))"
      by (auto simp: overwrite_def fun_eq_iff)
    then show ?thesis using A Inl acq by (auto simp: ps_Execute_def Let_def intro!: exI [of _ 0])
  next
    case (Inr fd)
    have fd: "fdp s1 fd = Some path" "cont s1 = cont s" "fdc_inv fdp root max_open (held(?f := held ?f + 1)) c1 s1"
      using A Inr room by (simp_all add: path_def)
    have fin: "\<exists>c' s'. fdc_Release os ?f c1 s2 = (c', s') \<and> fdc_inv fdp root max_open held c' s' \<and> cont s' = cont s2"
      if "fdp s2 = fdp s1" for s2
    proof -
      have inv2: "fdc_inv fdp root max_open (held(?f := held ?f + 1)) c1 s2"
        using fd(3) that by (simp add: fdc_inv_def es_inv_def)
      obtain c' s' where rel: "fdc_Release os ?f c1 s2 = (c', s')" by fastforce
      have "(held(?f := held ?f + 1))(?f := (held(?f := held ?f + 1)) ?f - 1) = held" by auto
      then show ?thesis using fdc_inv_release [OF os inv2 rel] rel by simp
    qed
    show ?thesis
    proof (cases "dr_operation r")
      case kRead
      obtain st m' s2 where x: "ps_ExecuteRead os (pf_geometry b) fd r m s1 = Some (st, m', s2)"
        and y: "cont s2 = cont s1" "fdp s2 = fdp s1" "\<forall>q. q \<notin> set ps \<longrightarrow> m' q = m q"
          "st = Ok \<longrightarrow> flat m' ps = map (\<lambda>i. cont s1 path (off + i)) [0..<length ps * unat (bg_block_size (pf_geometry b))]"
        using ps_ExecuteRead_ok [OF os fd(1) bl off, folded off_def ps_def] by blast
      obtain c' s' where "fdc_Release os ?f c1 s2 = (c', s')" "fdc_inv fdp root max_open held c' s'" "cont s' = cont s2"
        using fin [OF y(2)] by blast
      then show ?thesis using kRead acq Inr x y fd(2) by (simp add: ps_Execute_def Let_def)
    next
      case kWrite
      obtain st s2 n where x: "ps_ExecuteWrite os (pf_geometry b) (pf_sync_on_write b) fd r m s1 = Some (st, s2)"
        and y: "fdp s2 = fdp s1" "cont s2 = (cont s1)(path := overwrite off (take n (flat m ps)) (cont s1 path))"
          "st = Ok \<longrightarrow> n = length (flat m ps)"
        using ps_ExecuteWrite_ok [OF os fd(1) bl off, folded off_def ps_def] by blast
      obtain c' s' where "fdc_Release os ?f c1 s2 = (c', s')" "fdc_inv fdp root max_open held c' s'" "cont s' = cont s2"
        using fin [OF y(1)] by blast
      then show ?thesis using kWrite acq Inr x y fd(2) by (auto simp: ps_Execute_def Let_def)
    next
      case kSync
      obtain st s2 where x: "os_fdatasync os fd s1 = (st, s2)" by fastforce
      then have y: "cont s2 = cont s1" "fdp s2 = fdp s1" using os by (simp_all add: posix_os_def posix_sync_def)
      obtain c' s' where "fdc_Release os ?f c1 s2 = (c', s')" "fdc_inv fdp root max_open held c' s'" "cont s' = cont s2"
        using fin [OF y(2)] by blast
      then show ?thesis using kSync acq Inr x y fd(2) by (simp add: ps_Execute_def Let_def)
    qed
  qed
qed

section \<open>Properties\<close>



text \<open>
  C19.  What is written is read back: a successful write followed by a successful read of the
  same blocks yields the bytes that were written, whatever buffers the two requests use.
\<close>

theorem posix_write_read:
  assumes os: "posix_os os fdp cont intr" and mx: "max_open \<noteq> 0"
    and reach: "fdc_reach os fdp root max_open held (pf_files b) s"
    and room: "held (bt_file_id (dr_tag w)) + 1 < 2 ^ 64"
    and off: "unat (BlockOffset (pf_geometry b) (bt_block_id (dr_tag w))) < 2 ^ 63"
    and w: "dr_operation w = kWrite" "blocks (unat (bg_block_size (pf_geometry b))) m (dr_addrs w)"
      "ps_Execute os w b m s = Some (Ok, b1, m1, s1)"
    and r: "dr_operation r = kRead" "dr_tag r = dr_tag w" "dr_block_count r = dr_block_count w"
      "blocks (unat (bg_block_size (pf_geometry b))) m1 (dr_addrs r)"
      "ps_Execute os r b1 m1 s1 = Some (Ok, b2, m2, s2)"
  shows "flat m2 (dr_addrs r) = flat m (dr_addrs w)"
proof -
  let ?off = "unat (BlockOffset (pf_geometry b) (bt_block_id (dr_tag w)))" and ?F = "flat m (dr_addrs w)"
  let ?p = "fdc_path root (bt_file_id (dr_tag w))" and ?bs = "unat (bg_block_size (pf_geometry b))"
  have W: "fdc_inv fdp root max_open held (pf_files b1) s1" "pf_geometry b1 = pf_geometry b"
    "cont s1 = (cont s)(?p := overwrite ?off ?F (cont s ?p))"
    using ps_Execute_ok [OF os mx fdc_reach_inv [OF os mx reach] room w(2) off] w(1,3) by auto
  have "flat m2 (dr_addrs r) = map (\<lambda>i. cont s1 ?p (?off + i)) [0..<length (dr_addrs r) * ?bs]"
    using ps_Execute_ok [OF os mx W(1), of r m1] room off r by (simp add: W(2))
  also have "length (dr_addrs r) = length (dr_addrs w)" using r(3) by (simp add: dr_addrs_def)
  also have "map (\<lambda>i. cont s1 ?p (?off + i)) [0..<length (dr_addrs w) * ?bs] = ?F"
    using length_flat [OF w(2)] by (intro nth_equalityI) (simp_all add: W(3) overwrite_def)
  finally show ?thesis .
qed

lemma mem_write_loop:
  assumes "mem_fdp s fd = Some p" "blocks bs m ps"
  shows "\<exists>s'. ps_write_loop mem_os fd bs base ps m 0 s = Some (Ok, s')"
proof (cases "0 < length ps * bs")
  case True
  have len: "length (iov_gather (iov_from bs ps 0) m) = length ps * bs"
    using iov_gather_from [OF assms(2) True] length_flat [OF assms(2)] by simp
  define d where "d = iov_gather (iov_from bs ps 0) m"
  obtain s1 where "os_pwritev mem_os fd d base s = (Inr (length ps * bs), s1)"
    using assms(1) len by (simp add: mem_os_def d_def)
  then have "ps_write_loop mem_os fd bs base ps m 0 s = ps_write_loop mem_os fd bs base ps m (length ps * bs) s1"
    using True by (subst ps_write_loop.simps) (simp add: d_def Let_def)
  then show ?thesis by (simp add: ps_write_loop.simps [of mem_os fd bs base ps m "length ps * bs" s1])
next
  case False
  then show ?thesis by (subst ps_write_loop.simps) auto
qed

lemma mem_read_loop:
  assumes "mem_fdp s fd = Some p"
  shows "\<exists>t m'. ps_read_loop mem_os fd bs base ps 0 m s = Some (Inr t, m', s)"
proof (cases "0 < length ps * bs")
  case True
  define d where "d = map (\<lambda>i. mo_files s p (nat base + i)) [0..<length ps * bs]"
  have ne: "d \<noteq> []" "length d = length ps * bs" using True by (auto simp: d_def)
  have "os_preadv mem_os fd (length ps * bs) base s = (Inr d, s)"
    using assms by (simp add: mem_os_def d_def)
  then have "ps_read_loop mem_os fd bs base ps 0 m s =
      ps_read_loop mem_os fd bs base ps (length ps * bs) (iov_scatter (iov_from bs ps 0) d m) s"
    using True ne by (subst ps_read_loop.simps) (simp add: iov_length_from Let_def)
  then show ?thesis
    by (simp add: ps_read_loop.simps [of mem_os fd bs base ps "length ps * bs"])
next
  case False
  then show ?thesis by (subst ps_read_loop.simps) auto
qed

lemma mem_Execute:
  assumes inv: "fdc_inv mem_fdp root max_open held (pf_files b) s" "max_open \<noteq> 0"
    and bl: "blocks (unat (bg_block_size (pf_geometry b))) m (dr_addrs r)" and ns: "\<not> pf_sync_on_write b"
  shows "\<exists>b' m' s'. ps_Execute mem_os r b m s = Some (Ok, b', m', s') \<and> \<not> pf_sync_on_write b'"
proof -
  let ?f = "bt_file_id (dr_tag r)"
  have op: "\<exists>fd s'. os_open mem_os p s = (Inr fd, s')" for p s by (simp add: mem_os_def Let_def)
  have "\<exists>fd c1 s1. fdc_Acquire mem_os ?f (pf_files b) s = (Inr fd, c1, s1)"
  proof (cases "map_of (fdc_entries (pf_files b)) ?f")
    case None
    obtain es1 s1 where "fdc_EvictIdleLocked mem_os (unat (fdc_max_open_files (pf_files b) - 1)) (fdc_entries (pf_files b)) s = (es1, s1)"
      by fastforce
    then show ?thesis using op [of "fdc_path (fdc_root_path (pf_files b)) ?f" s1] None by (auto simp: fdc_Acquire_def)
  qed (simp add: fdc_Acquire_def)
  then obtain fd c1 s1 where acq: "fdc_Acquire mem_os ?f (pf_files b) s = (Inr fd, c1, s1)" by blast
  then have fd: "mem_fdp s1 fd = Some (fdc_path root ?f)"
    using fdc_inv_acquire [OF posix_mem_os inv(1) acq inv(2)] by simp
  obtain t m' where rd: "ps_read_loop mem_os fd (unat (bg_block_size (pf_geometry b))) base (dr_addrs r) 0 m s1 = Some (Inr t, m', s1)"
    if "base = sint (BlockOffset (pf_geometry b) (bt_block_id (dr_tag r)))" for base
    using mem_read_loop [OF fd] by metis
  obtain s2 where wr: "ps_write_loop mem_os fd (unat (bg_block_size (pf_geometry b))) base (dr_addrs r) m 0 s1 = Some (Ok, s2)"
    if "base = sint (BlockOffset (pf_geometry b) (bt_block_id (dr_tag r)))" for base
    using mem_write_loop [OF fd bl] by metis
  have sync: "os_fdatasync mem_os fd s1 = (None, s1)" by (simp add: mem_os_def)
  show ?thesis
    using acq rd [OF refl] wr [OF refl] sync ns
    by (cases "dr_operation r")
      (auto simp: ps_Execute_def ps_ExecuteRead_def ps_ExecuteWrite_def Let_def case_prod_beta)
qed

theorem posix_write_read_witness:
  "let g = \<lparr>bg_block_shift = 12\<rparr>;
       w = \<lparr>dr_token = 1, dr_operation = kWrite, dr_tag = \<lparr>bt_file_id = 7, bt_block_id = 2\<rparr>, dr_block_count = 1,
            dr_buffers = [Some 0]\<rparr>;
       r = w\<lparr>dr_operation := kRead, dr_buffers := [Some 9]\<rparr>;
       b = \<lparr>pf_geometry = g, pf_sync_on_write = False, pf_files = fdc_create ''root'' 1\<rparr>;
       m = (\<lambda>a. replicate 4096 (if a = 0 then 5 else 0)); s = \<lparr>mo_fds = [], mo_files = (\<lambda>_ _. 0)\<rparr>
   in \<exists>b1 m1 s1 b2 m2 s2. ps_Execute mem_os w b m s = Some (Ok, b1, m1, s1) \<and>
        ps_Execute mem_os r b1 m1 s1 = Some (Ok, b2, m2, s2) \<and> m2 9 = replicate 4096 5"
proof -
  let ?g = "\<lparr>bg_block_shift = 12\<rparr>"
  let ?w = "\<lparr>dr_token = 1, dr_operation = kWrite, dr_tag = \<lparr>bt_file_id = 7, bt_block_id = 2\<rparr>, dr_block_count = 1,
    dr_buffers = [Some 0]\<rparr>"
  let ?r = "?w\<lparr>dr_operation := kRead, dr_buffers := [Some 9]\<rparr>"
  let ?b = "\<lparr>pf_geometry = ?g, pf_sync_on_write = False, pf_files = fdc_create ''root'' 1\<rparr>"
  let ?m = "\<lambda>a :: nat. replicate 4096 (if a = 0 then 5 else 0 :: u8)" and ?s = "\<lparr>mo_fds = [], mo_files = (\<lambda>_ _. 0)\<rparr>"
  have bs: "unat (bg_block_size ?g) = 4096" by (simp add: bg_block_size_def)
  have reach: "fdc_reach mem_os mem_fdp ''root'' 1 (\<lambda>_. 0) (pf_files ?b) ?s"
    using fdc_reach.create [of mem_os mem_fdp "''root''" 1 ?s] by simp
  have off: "unat (BlockOffset (pf_geometry ?b) (bt_block_id (dr_tag ?w))) < 2 ^ 63" by (simp add: BlockOffset_def)
  have bl: "blocks (unat (bg_block_size (pf_geometry ?b))) ?m (dr_addrs ?w)"
    "blocks (unat (bg_block_size (pf_geometry ?b))) ?m (dr_addrs ?r)" by (simp_all add: blocks_def dr_addrs_def bs)
  note inv = fdc_reach_inv [OF posix_mem_os _ reach, OF one_neq_zero]
  obtain b1 m1 s1 where w: "ps_Execute mem_os ?w ?b ?m ?s = Some (Ok, b1, m1, s1)" "\<not> pf_sync_on_write b1"
    using mem_Execute [OF inv one_neq_zero bl(1)] by auto
  have W: "m1 = ?m" "fdc_inv mem_fdp ''root'' 1 (\<lambda>_. 0) (pf_files b1) s1" "pf_geometry b1 = ?g"
    using ps_Execute_ok [OF posix_mem_os one_neq_zero inv _ bl(1) off] w(1) by auto
  have bl1: "blocks (unat (bg_block_size (pf_geometry b1))) m1 (dr_addrs ?r)" using bl(2) W by simp
  obtain b2 m2 s2 where r: "ps_Execute mem_os ?r b1 m1 s1 = Some (Ok, b2, m2, s2)"
    using mem_Execute [OF W(2) one_neq_zero bl1 w(2)] by blast
  have "flat m2 (dr_addrs ?r) = flat ?m (dr_addrs ?w)"
    by (rule posix_write_read [OF posix_mem_os one_neq_zero reach _ off _ bl(1) w(1) _ _ _ _ r])
      (use bl1 W in simp_all)
  then have "m2 9 = replicate 4096 5" by (simp add: dr_addrs_def)
  then show ?thesis using w(1) r unfolding Let_def by blast
qed

text \<open>
  C20.  Every accepted request produces exactly one completion with its token.  However
  submitters, workers and reapers interleave, the tokens accepted are those waiting, being
  executed, completed and reaped, none lost and none doubled; a blocked reaper is turned away
  only when everything accepted has been reaped, and never waits while completions are there.
\<close>

theorem every_request_completes_once:
  assumes "pq_reach root q R A P"
  shows "A = mset (map dr_token (pq_pending q)) + image_mset dr_token R +
      mset (map dc_token (pq_completed q)) + P \<and>
    pq_executing q = size R \<and>
    (\<forall>e q'. pq_Reap n True q = Some (Inl e, q') \<longrightarrow> A = P) \<and>
    (pq_Reap n True q = None \<longrightarrow> pq_completed q = [])"
proof -
  have inv: "A = mset (map dr_token (pq_pending q)) + image_mset dr_token R +
      mset (map dc_token (pq_completed q)) + P \<and> pq_executing q = size R"
    using assms
  proof induction
    case start
    then show ?case by (simp add: pq_empty_def)
  next
    case (submit_async q R A P r q')
    then have "q' = q\<lparr>pq_pending := pq_pending q @ [r]\<rparr>"
      by (simp add: pq_Submit1_def split: sum.splits if_splits)
    then show ?case using submit_async.IH by simp
  next
    case (submit_wait q R A P r q')
    then have "q' = q\<lparr>pq_executing := pq_executing q + 1\<rparr>"
      by (simp add: pq_Submit1_def split: sum.splits if_splits)
    then show ?case using submit_wait.IH by simp
  next
    case (worker q R A P r q')
    then obtain rs where "pq_pending q = r # rs" "q' = q\<lparr>pq_pending := rs, pq_executing := pq_executing q + 1\<rparr>"
      by (auto simp: pq_WorkerTake_def split: list.splits if_splits)
    then show ?case using worker.IH by simp
  next
    case (complete q r R A P st)
    then show ?case by (simp add: pq_PushCompletion_def)
  next
    case (reap q R A P n wait cs q')
    have "mset (map dc_token cs) + mset (map dc_token (pq_completed q')) = mset (map dc_token (pq_completed q))"
    proof -
      have "cs @ pq_completed q' = pq_completed q"
        using reap.hyps(2) by (auto simp: pq_Reap_def Let_def split: if_splits)
      then show ?thesis by (metis map_append mset_append)
    qed
    moreover have "pq_pending q' = pq_pending q" "pq_executing q' = pq_executing q"
      using reap.hyps(2) by (auto simp: pq_Reap_def Let_def split: if_splits)
    ultimately show ?case using reap.IH by (simp add: ac_simps)
  next
    case (shutdown q R A P)
    then show ?case by (simp add: pq_Shutdown_def)
  qed
  have "A = P" if "pq_Reap n True q = Some (Inl e, q')" for e q'
  proof -
    have "pq_completed q = []" "pq_IsDrainedLocked q"
      using that by (auto simp: pq_Reap_def Let_def split: if_splits)
    then show ?thesis using inv by (simp add: pq_IsDrainedLocked_def)
  qed
  moreover have "pq_Reap n True q = None \<longrightarrow> pq_completed q = []" by (simp add: pq_Reap_def Let_def)
  ultimately show ?thesis using inv by blast
qed

theorem every_request_completes_once_witness:
  "let r = \<lparr>dr_token = 5, dr_operation = kSync, dr_tag = emptyTag, dr_block_count = 1, dr_buffers = []\<rparr>;
       q = pq_Shutdown (pq_empty\<lparr>pq_pending := [r]\<rparr>)
   in pq_reach ''root'' q {#} {#5#} {#} \<and> pq_Reap 4 True q = None \<and>
      {#5#} = mset (map dr_token (pq_pending q))"
proof -
  let ?r = "\<lparr>dr_token = 5, dr_operation = kSync, dr_tag = emptyTag, dr_block_count = 1, dr_buffers = []\<rparr>"
  have "pq_Submit1 ''root'' ?r kAsync pq_empty = Inr (pq_empty\<lparr>pq_pending := [?r]\<rparr>)"
    by (simp add: pq_Submit1_def ValidateDiskRequest_def pq_empty_def)
  from pq_reach.shutdown [OF pq_reach.submit_async [OF pq_reach.start this]]
  have "pq_reach ''root'' (pq_Shutdown (pq_empty\<lparr>pq_pending := [?r]\<rparr>)) {#} {#5#} {#}" by simp
  from every_request_completes_once [OF this, of 4] this show ?thesis
    by (simp add: Let_def pq_Reap_def pq_IsDrainedLocked_def pq_Shutdown_def pq_empty_def)
qed

end
