(* ===== verification/Io_Engine.thy ===== *)
theory Io_Engine
  imports Posix_Backend
begin

unbundle bit_operations_syntax

text \<open>
  \<^verbatim>\<open>buffer/io_engine.h\<close> and \<^verbatim>\<open>.cc\<close>: delivery of disk completions.  A backend is a record of the
  operations of the interface \<^verbatim>\<open>DiskBackend\<close> over its state; the locale \<open>disk_backend\<close> states
  what \<^verbatim>\<open>disk_backend.h\<close> promises of them and the POSIX backend interprets it.  The token of a
  request is the address of the object that receives its completion, so delivering is a call
  of that object's \<^verbatim>\<open>Complete\<close>, an argument of the definitions; \<open>io_delivered\<close> records the calls.
  An operation that blocks is \<open>None\<close>.
\<close>

section \<open>Waiters\<close>

record IoWaiter =
  iw_pending :: u32
  iw_error_claimed :: bool
  iw_error :: Status

definition iw_create :: "u32 \<Rightarrow> IoWaiter" where
  "iw_create pending = \<lparr>iw_pending = pending, iw_error_claimed = False, iw_error = Ok\<rparr>"

definition iw_Add :: "u32 \<Rightarrow> IoWaiter \<Rightarrow> IoWaiter" where
  "iw_Add n w = w\<lparr>iw_pending := iw_pending w + n\<rparr>"

definition iw_Complete :: "Status \<Rightarrow> IoWaiter \<Rightarrow> IoWaiter" where
  "iw_Complete status w =
     (let w = (if isl status
               then (if \<not> iw_error_claimed w then w\<lparr>iw_error_claimed := True, iw_error := status\<rparr>
                     else w\<lparr>iw_error_claimed := True\<rparr>)
               else w)
      in w\<lparr>iw_pending := iw_pending w - 1\<rparr>)"

definition iw_done :: "IoWaiter \<Rightarrow> bool" where
  "iw_done w \<longleftrightarrow> iw_pending w = 0"

definition iw_status :: "IoWaiter \<Rightarrow> Status" where
  "iw_status w = iw_error w"

text \<open>The first error of a list of outcomes.\<close>

definition first_error :: "Status list \<Rightarrow> Status" where
  "first_error sts = (case List.find isl sts of None \<Rightarrow> Ok | Some e \<Rightarrow> e)"

section \<open>Backends\<close>

record 'b DiskBackend =
  be_Submit :: "DiskRequest list \<Rightarrow> DiskSubmitMode \<Rightarrow> 'b \<Rightarrow> (nat Result \<times> 'b) option"
  be_Reap :: "nat \<Rightarrow> bool \<Rightarrow> 'b \<Rightarrow> (DiskCompletion list Result \<times> 'b) option"
  be_Shutdown :: "'b \<Rightarrow> 'b"
  be_GetCapabilities :: "'b \<Rightarrow> DiskBackendCapabilities"

text \<open>
  What \<^verbatim>\<open>disk_backend.h\<close> promises: \<open>Submit\<close> accepts a prefix, an error means that nothing was
  accepted, and \<open>Reap\<close> hands out the completions of accepted requests, each once.  \<open>step\<close>
  relates the states between which the backend moves by itself, and \<open>outstanding\<close> are the
  tokens accepted and not yet reaped.
\<close>

locale disk_backend =
  fixes B :: "'b DiskBackend"
    and outstanding :: "'b \<Rightarrow> u64 multiset"
    and step :: "'b \<Rightarrow> 'b \<Rightarrow> bool"
  assumes submit: "be_Submit B rs mode b = Some (r, b') \<Longrightarrow>
      (case r of Inr n \<Rightarrow> n \<le> length rs \<and> outstanding b' = outstanding b + mset (map dr_token (take n rs))
       | Inl e \<Rightarrow> outstanding b' = outstanding b)"
    and reap: "be_Reap B n wait b = Some (res, b') \<Longrightarrow>
      (case res of Inr cs \<Rightarrow> outstanding b = outstanding b' + mset (map dc_token cs)
       | Inl e \<Rightarrow> outstanding b' = outstanding b)"
    and shutdown: "outstanding (be_Shutdown B b) = outstanding b"
    and own_step: "step b b' \<Longrightarrow> outstanding b' = outstanding b"

section \<open>The engine\<close>

record IoEngine =
  ie_max_request_blocks :: size_t
  ie_demand :: u32
  ie_stopping :: bool
  ie_stopped :: bool
  ie_stop_status :: Status

text \<open>
  The engine with its backend, the objects that receive completions, the calls of
  \<^verbatim>\<open>Complete\<close> so far and the calls of the fatal-error callback so far.
\<close>

record ('b, 'c) IoState =
  io_engine :: IoEngine
  io_backend :: 'b
  io_objects :: 'c
  io_delivered :: "(u64 \<times> Status) list"
  io_fatal :: "Error list"

definition kReapBatch :: nat where
  "kReapBatch = 32"

definition kAsyncTokenTag :: u64 where
  "kAsyncTokenTag = 1"

definition ie_create :: "DiskBackendCapabilities \<Rightarrow> IoEngine" where
  "ie_create capabilities =
     \<lparr>ie_max_request_blocks = clamp (cap_max_request_blocks capabilities) 1 (word_of_nat kMaxDiskRequestBlocks),
      ie_demand = 0, ie_stopping = False, ie_stopped = False,
      ie_stop_status = Inl (Unavailable ''io engine stopped'' 0)\<rparr>"

text \<open>\<open>Start\<close>; \<open>started\<close> says whether the system gives the engine its reaper thread.\<close>

definition ie_Start :: "bool \<Rightarrow> IoEngine \<Rightarrow> Status \<times> IoEngine" where
  "ie_Start started e = (if started then (Ok, e) else (Inl (Unavailable ''failed to start io engine'' 0), e))"

definition ie_AddReaperDemand ::"u32 \<Rightarrow> IoEngine \<Rightarrow> IoEngine" where
  "ie_AddReaperDemand n e = e\<lparr>ie_demand := ie_demand e + n\<rparr>"

definition ie_Deliver ::
  "(u64 \<Rightarrow> Status \<Rightarrow> 'c \<Rightarrow> 'c) \<Rightarrow> DiskCompletion \<Rightarrow> ('b, 'c) IoState \<Rightarrow> ('b, 'c) IoState" where
  "ie_Deliver complete completion st =
     (let async = (dc_token completion AND kAsyncTokenTag \<noteq> 0);
          object = dc_token completion AND NOT kAsyncTokenTag;
          st = st\<lparr>io_objects := complete object (dc_status completion) (io_objects st),
                  io_delivered := io_delivered st @ [(object, dc_status completion)]\<rparr>
      in if async then st\<lparr>io_engine := (io_engine st)\<lparr>ie_demand := ie_demand (io_engine st) - 1\<rparr>\<rparr> else st)"

definition ie_Dispatch ::
  "(u64 \<Rightarrow> Status \<Rightarrow> 'c \<Rightarrow> 'c) \<Rightarrow> DiskCompletion list \<Rightarrow> ('b, 'c) IoState \<Rightarrow> ('b, 'c) IoState" where
  "ie_Dispatch complete completions st = fold (ie_Deliver complete) completions st"

definition ie_StopStatus :: "IoEngine \<Rightarrow> Status" where
  "ie_StopStatus e = ie_stop_status e"

definition ie_Stop :: "Status \<Rightarrow> IoEngine \<Rightarrow> IoEngine" where
  "ie_Stop status e =
     (let e = (if \<not> ie_stopping e then e\<lparr>ie_stop_status := status\<rparr> else e)
      in e\<lparr>ie_stopped := True\<rparr>)"

text \<open>\<open>Shutdown\<close> up to the join of the reaper; the reaper then runs until it stops.\<close>

definition ie_Shutdown :: "'b DiskBackend \<Rightarrow> Status \<Rightarrow> ('b, 'c) IoState \<Rightarrow> ('b, 'c) IoState" where
  "ie_Shutdown B reason st =
     (if ie_stopping (io_engine st) then st
      else st\<lparr>io_engine := (io_engine st)\<lparr>ie_stopping := True, ie_stop_status := reason,
                ie_demand := ie_demand (io_engine st) + 1\<rparr>,
              io_backend := be_Shutdown B (io_backend st)\<rparr>)"

definition ie_Joined :: "IoEngine \<Rightarrow> IoEngine" where
  "ie_Joined e = e\<lparr>ie_stopped := True\<rparr>"

function ie_SubmitTagged ::
  "'b DiskBackend \<Rightarrow> (u64 \<Rightarrow> Status \<Rightarrow> 'c \<Rightarrow> 'c) \<Rightarrow> DiskRequest list \<Rightarrow> DiskSubmitMode \<Rightarrow> ('b, 'c) IoState
     \<Rightarrow> ('b, 'c) IoState option" where
  "ie_SubmitTagged B complete [] mode st = Some st"
| "ie_SubmitTagged B complete (r # rs) mode st =
     (if ie_stopped (io_engine st)
      then Some (fold (\<lambda>r. ie_Deliver complete
             \<lparr>dc_token = dr_token r, dc_status = ie_StopStatus (io_engine st)\<rparr>) (r # rs) st)
      else case be_Submit B (r # rs) mode (io_backend st) of
             None \<Rightarrow> None
           | Some (accepted, b) \<Rightarrow>
               let st = st\<lparr>io_backend := b\<rparr> in
               (case accepted of
                  Inr (Suc n) \<Rightarrow> ie_SubmitTagged B complete (drop (Suc n) (r # rs)) mode st
                | Inr 0 \<Rightarrow>
                    ie_SubmitTagged B complete rs mode
                      (ie_Deliver complete \<lparr>dc_token = dr_token r,
                         dc_status = Inl (Internal ''disk backend accepted no request'')\<rparr> st)
                | Inl e \<Rightarrow>
                    ie_SubmitTagged B complete rs mode
                      (ie_Deliver complete \<lparr>dc_token = dr_token r, dc_status = Inl e\<rparr> st)))"
  by pat_completeness auto
termination by (relation "measure (\<lambda>(B, c, rs, m, st). length rs)") auto

definition ie_Submit ::
  "'b DiskBackend \<Rightarrow> (u64 \<Rightarrow> Status \<Rightarrow> 'c \<Rightarrow> 'c) \<Rightarrow> DiskRequest list \<Rightarrow> DiskSubmitMode \<Rightarrow> ('b, 'c) IoState
     \<Rightarrow> ('b, 'c) IoState option" where
  "ie_Submit B complete requests mode st =
     (if mode = kWait then ie_SubmitTagged B complete requests mode st
      else let tagged = map (\<lambda>r. r\<lparr>dr_token := dr_token r OR kAsyncTokenTag\<rparr>) requests
           in ie_SubmitTagged B complete tagged mode
                (st\<lparr>io_engine := ie_AddReaperDemand (word_of_nat (length tagged)) (io_engine st)\<rparr>))"

definition ie_ReapReady ::
  "'b DiskBackend \<Rightarrow> (u64 \<Rightarrow> Status \<Rightarrow> 'c \<Rightarrow> 'c) \<Rightarrow> ('b, 'c) IoState \<Rightarrow> (bool \<times> ('b, 'c) IoState) option" where
  "ie_ReapReady B complete st =
     (case be_Reap B kReapBatch False (io_backend st) of
        None \<Rightarrow> None
      | Some (reaped, b) \<Rightarrow>
          let st = st\<lparr>io_backend := b\<rparr> in
          (case reaped of
             Inl e \<Rightarrow> Some (False, st)
           | Inr cs \<Rightarrow> if cs = [] then Some (False, st) else Some (True, ie_Dispatch complete cs st)))"

text \<open>
  One pass of the loop of \<^verbatim>\<open>Wait\<close>: the thread returns a status, goes round again, or sleeps on
  the waiter.  \<open>waiter\<close> reads the waiter from the objects and \<open>sleeping\<close> is the local flag,
  which a thread that returns gives up.
\<close>

datatype IoWaitPass = WaitReturns Status | WaitAgain | WaitSleeps

definition ie_WaitPass ::
  "'b DiskBackend \<Rightarrow> (u64 \<Rightarrow> Status \<Rightarrow> 'c \<Rightarrow> 'c) \<Rightarrow> ('c \<Rightarrow> IoWaiter) \<Rightarrow> bool \<Rightarrow> ('b, 'c) IoState
     \<Rightarrow> (IoWaitPass \<times> bool \<times> ('b, 'c) IoState) option" where
  "ie_WaitPass B complete waiter sleeping st =
     (let leave = (\<lambda>st. if sleeping
            then st\<lparr>io_engine := (io_engine st)\<lparr>ie_demand := ie_demand (io_engine st) - 1\<rparr>\<rparr> else st)
      in if iw_done (waiter (io_objects st))
         then Some (WaitReturns (iw_status (waiter (io_objects st))), False, leave st)
         else case ie_ReapReady B complete st of
           None \<Rightarrow> None
         | Some (True, st) \<Rightarrow> Some (WaitAgain, sleeping, st)
         | Some (False, st) \<Rightarrow>
             if ie_stopped (io_engine st)
             then Some (WaitReturns (ie_StopStatus (io_engine st)), False, leave st)
             else if \<not> sleeping
             then Some (WaitAgain, True, st\<lparr>io_engine := ie_AddReaperDemand 1 (io_engine st)\<rparr>)
             else Some (WaitSleeps, sleeping, st))"

text \<open>\<^verbatim>\<open>Wait\<close> as one thread runs it; sleeping is \<open>None\<close>.\<close>

partial_function (option) ie_Wait ::
  "'b DiskBackend \<Rightarrow> (u64 \<Rightarrow> Status \<Rightarrow> 'c \<Rightarrow> 'c) \<Rightarrow> ('c \<Rightarrow> IoWaiter) \<Rightarrow> bool \<Rightarrow> ('b, 'c) IoState
     \<Rightarrow> (Status \<times> ('b, 'c) IoState) option" where
  "ie_Wait B complete waiter sleeping st =
     (case ie_WaitPass B complete waiter sleeping st of
        None \<Rightarrow> None
      | Some (pass, sleeping, st) \<Rightarrow>
          (case pass of
             WaitReturns status \<Rightarrow> Some (status, st)
           | WaitSleeps \<Rightarrow> None
           | WaitAgain \<Rightarrow> ie_Wait B complete waiter sleeping st))"

text \<open>One pass of the reaper's loop.\<close>

datatype ReaperPass = ReaperSleeps | ReaperEnds | ReaperContinues

definition ie_RunPass ::
  "'b DiskBackend \<Rightarrow> (u64 \<Rightarrow> Status \<Rightarrow> 'c \<Rightarrow> 'c) \<Rightarrow> ('b, 'c) IoState \<Rightarrow> (ReaperPass \<times> ('b, 'c) IoState) option" where
  "ie_RunPass B complete st =
     (if \<not> ie_stopping (io_engine st) \<and> ie_demand (io_engine st) = 0 then Some (ReaperSleeps, st)
      else case be_Reap B kReapBatch True (io_backend st) of
        None \<Rightarrow> None
      | Some (reaped, b) \<Rightarrow>
          let st = st\<lparr>io_backend := b\<rparr> in
          (case reaped of
             Inl e \<Rightarrow>
               let st = (if \<not> ie_stopping (io_engine st) then st\<lparr>io_fatal := io_fatal st @ [e]\<rparr> else st)
               in Some (ReaperEnds, st\<lparr>io_engine := ie_Stop (Inl e) (io_engine st)\<rparr>)
           | Inr cs \<Rightarrow> Some (ReaperContinues, ie_Dispatch complete cs st)))"

section \<open>Any number of threads\<close>

text \<open>
  The states of the engine: \<open>S\<close> are the tokens submitted so far and \<open>W\<close> counts the waiters
  that sleep.  Objects are aligned, so the lowest bit of a token is free for the tag.
\<close>

inductive io_reach :: "'b DiskBackend \<Rightarrow> ('b \<Rightarrow> 'b \<Rightarrow> bool) \<Rightarrow> (u64 \<Rightarrow> Status \<Rightarrow> 'c \<Rightarrow> 'c) \<Rightarrow> 'b \<Rightarrow>
    ('b, 'c) IoState \<Rightarrow> u64 multiset \<Rightarrow> nat \<Rightarrow> bool"
  for B step complete b0 where
  start: "io_reach B step complete b0
    \<lparr>io_engine = ie_create caps, io_backend = b0, io_objects = c0, io_delivered = [], io_fatal = []\<rparr> {#} 0"
| submit: "io_reach B step complete b0 st S W \<Longrightarrow> \<forall>r \<in> set rs. dr_token r AND kAsyncTokenTag = 0 \<Longrightarrow>
    ie_Submit B complete rs mode st = Some st' \<Longrightarrow>
    io_reach B step complete b0 st' (S + mset (map dr_token rs)) W"
| wait: "io_reach B step complete b0 st S W \<Longrightarrow> (sleeping \<Longrightarrow> 0 < W) \<Longrightarrow>
    ie_WaitPass B complete waiter sleeping st = Some (pass, sleeping', st') \<Longrightarrow>
    io_reach B step complete b0 st' S (W - (if sleeping then 1 else 0) + (if sleeping' then 1 else 0))"
| reaper: "io_reach B step complete b0 st S W \<Longrightarrow> ie_RunPass B complete st = Some (pass, st') \<Longrightarrow>
    io_reach B step complete b0 st' S W"
| backend: "io_reach B step complete b0 st S W \<Longrightarrow> step (io_backend st) b \<Longrightarrow>
    io_reach B step complete b0 (st\<lparr>io_backend := b\<rparr>) S W"
| objects: "io_reach B step complete b0 st S W \<Longrightarrow> io_reach B step complete b0 (st\<lparr>io_objects := c\<rparr>) S W"
| shut: "io_reach B step complete b0 st S W \<Longrightarrow> io_reach B step complete b0 (ie_Shutdown B reason st) S W"
| joined: "io_reach B step complete b0 st S W \<Longrightarrow>
    io_reach B step complete b0 (st\<lparr>io_engine := ie_Joined (io_engine st)\<rparr>) S W"

section \<open>Waiters keep the first error\<close>

lemma iw_Complete_fold:
  "iw_pending (fold iw_Complete sts w) = iw_pending w - word_of_nat (length sts) \<and>
   (\<not> iw_error_claimed w \<longrightarrow> iw_error w = Ok \<longrightarrow> iw_error (fold iw_Complete sts w) = first_error sts) \<and>
   (iw_error_claimed w \<longrightarrow> iw_error (fold iw_Complete sts w) = iw_error w)"
proof (induction sts arbitrary: w)
  case Nil
  then show ?case by (simp add: first_error_def)
next
  case (Cons st sts)
  have "iw_pending (iw_Complete st w) = iw_pending w - 1" by (simp add: iw_Complete_def Let_def)
  moreover have "isl st \<Longrightarrow> iw_error_claimed (iw_Complete st w) \<and>
      iw_error (iw_Complete st w) = (if iw_error_claimed w then iw_error w else st)"
    "\<not> isl st \<Longrightarrow> iw_error_claimed (iw_Complete st w) = iw_error_claimed w \<and> iw_error (iw_Complete st w) = iw_error w"
    by (simp_all add: iw_Complete_def Let_def)
  ultimately show ?case using Cons [of "iw_Complete st w"]
    by (cases "isl st") (auto simp: first_error_def algebra_simps)
qed

section \<open>Conservation of completions\<close>

text \<open>The object a token belongs to, and the number of tagged tokens.\<close>

definition untag :: "u64 \<Rightarrow> u64" where
  "untag t = t AND NOT kAsyncTokenTag"

definition tagged :: "u64 \<Rightarrow> bool" where
  "tagged t \<longleftrightarrow> t AND kAsyncTokenTag \<noteq> 0"

lemma tag_bits: "bit kAsyncTokenTag n \<longleftrightarrow> n = 0"
  by (simp add: kAsyncTokenTag_def bit_1_iff)

lemma untag_tag: "t AND kAsyncTokenTag = 0 \<Longrightarrow> untag (t OR kAsyncTokenTag) = t"
  "t AND kAsyncTokenTag = 0 \<Longrightarrow> untag t = t"
proof -
  assume t: "t AND kAsyncTokenTag = 0"
  have "\<not> bit t 0" using arg_cong [OF t, of "\<lambda>x. bit x 0"] by (simp add: bit_and_iff tag_bits)
  then show "untag (t OR kAsyncTokenTag) = t" "untag t = t"
    unfolding untag_def by (auto intro!: bit_word_eqI gr0I simp: bit_simps tag_bits)
qed

lemma tagged_tag: "tagged (t OR kAsyncTokenTag)"
proof -
  have "bit ((t OR kAsyncTokenTag) AND kAsyncTokenTag) 0" by (simp add: bit_and_iff bit_or_iff tag_bits)
  then show ?thesis unfolding tagged_def by auto
qed

definition io_done :: "('b, 'c) IoState \<Rightarrow> u64 multiset" where
  "io_done st = mset (map fst (io_delivered st))"

lemma Deliver_effect:
  "io_done (ie_Deliver complete c st) = io_done st + {#untag (dc_token c)#}"
  "io_backend (ie_Deliver complete c st) = io_backend st"
  "ie_demand (io_engine (ie_Deliver complete c st)) =
     ie_demand (io_engine st) - (if tagged (dc_token c) then 1 else 0)"
  "ie_stopping (io_engine (ie_Deliver complete c st)) = ie_stopping (io_engine st)"
  "ie_stopped (io_engine (ie_Deliver complete c st)) = ie_stopped (io_engine st)"
  by (simp_all add: ie_Deliver_def Let_def io_done_def untag_def tagged_def)

lemma fold_Deliver_effect:
  "io_done (fold (\<lambda>x. ie_Deliver complete (f x)) xs st) = io_done st + mset (map (\<lambda>x. untag (dc_token (f x))) xs) \<and>
   io_backend (fold (\<lambda>x. ie_Deliver complete (f x)) xs st) = io_backend st \<and>
   ie_demand (io_engine (fold (\<lambda>x. ie_Deliver complete (f x)) xs st)) =
     ie_demand (io_engine st) - word_of_nat (length (filter (\<lambda>x. tagged (dc_token (f x))) xs)) \<and>
   ie_stopping (io_engine (fold (\<lambda>x. ie_Deliver complete (f x)) xs st)) = ie_stopping (io_engine st)"
  by (induction xs arbitrary: st) (simp_all add: Deliver_effect algebra_simps)

lemma Dispatch_effect:
  "io_done (ie_Dispatch complete cs st) = io_done st + mset (map (\<lambda>c. untag (dc_token c)) cs)"
  "io_backend (ie_Dispatch complete cs st) = io_backend st"
  "ie_demand (io_engine (ie_Dispatch complete cs st)) =
     ie_demand (io_engine st) - word_of_nat (length (filter (\<lambda>c. tagged (dc_token c)) cs))"
  "ie_stopping (io_engine (ie_Dispatch complete cs st)) = ie_stopping (io_engine st)"
  using fold_Deliver_effect [of complete "\<lambda>c. c" cs st] by (simp_all add: ie_Dispatch_def)

text \<open>
  The balance: what was submitted is outstanding in the backend or delivered, and the demand
  counts the tagged requests outstanding, the sleeping waiters and the shutdown.
\<close>

definition io_balance :: "('b \<Rightarrow> u64 multiset) \<Rightarrow> ('b, 'c) IoState \<Rightarrow> u64 multiset \<Rightarrow> nat \<Rightarrow> bool" where
  "io_balance outstanding st S W \<longleftrightarrow>
     S = image_mset untag (outstanding (io_backend st)) + io_done st \<and>
     ie_demand (io_engine st) = word_of_nat (size (filter_mset tagged (outstanding (io_backend st))) + W +
       (if ie_stopping (io_engine st) then 1 else 0))"

definition io_tagged :: "DiskRequest list \<Rightarrow> nat" where
  "io_tagged rs = length (filter (\<lambda>r. tagged (dr_token r)) rs)"

lemma size_filter_mset_map: "size (filter_mset P (mset (map f xs))) = length (filter (\<lambda>x. P (f x)) xs)"
  by (induction xs) simp_all

lemma image_mset_map: "image_mset untag (mset (map f xs)) = mset (map (\<lambda>x. untag (f x)) xs)"
  by (induction xs) simp_all

lemma take_drop_tokens:
  "mset (map f (take n xs)) + mset (map f (drop n xs)) = mset (map f xs)"
  "length (filter P (take n xs)) + length (filter P (drop n xs)) = length (filter P xs)"
proof -
  have "xs = take n xs @ drop n xs" by simp
  then show "mset (map f (take n xs)) + mset (map f (drop n xs)) = mset (map f xs)"
    "length (filter P (take n xs)) + length (filter P (drop n xs)) = length (filter P xs)"
    by (metis map_append mset_append, metis filter_append length_append)
qed

context disk_backend
begin

lemma deliver_balance:
  assumes "io_balance outstanding st S (W + k)" "k = (if tagged (dc_token c) then 1 else 0)"
  shows "io_balance outstanding (ie_Deliver complete c st) (S + {#untag (dc_token c)#}) W"
  using assms by (simp add: io_balance_def Deliver_effect algebra_simps split: if_splits)

text \<open>A request that is turned away is delivered at once; an accepted prefix becomes outstanding.\<close>

lemma reject_balance:
  assumes "io_balance outstanding st S (W + io_tagged (r # rs))" "outstanding b = outstanding (io_backend st)"
  shows "io_balance outstanding (ie_Deliver complete \<lparr>dc_token = dr_token r, dc_status = x\<rparr> (st\<lparr>io_backend := b\<rparr>))
    (S + {#untag (dr_token r)#}) (W + io_tagged rs)"
proof -
  have "io_balance outstanding (st\<lparr>io_backend := b\<rparr>) S (W + io_tagged rs + (if tagged (dr_token r) then 1 else 0))"
    using assms by (simp add: io_balance_def io_done_def io_tagged_def)
  from deliver_balance [OF this, of "\<lparr>dc_token = dr_token r, dc_status = x\<rparr>" complete] show ?thesis by simp
qed

lemma accept_balance:
  assumes "io_balance outstanding st S (W + io_tagged rs)"
    "outstanding b = outstanding (io_backend st) + mset (map dr_token (take n rs))"
  shows "io_balance outstanding (st\<lparr>io_backend := b\<rparr>)
    (S + mset (map (\<lambda>r. untag (dr_token r)) (take n rs))) (W + io_tagged (drop n rs))"
proof -
  have total: "io_tagged rs = io_tagged (take n rs) + io_tagged (drop n rs)"
    unfolding io_tagged_def by (rule take_drop_tokens(2) [symmetric])
  have img: "image_mset untag (outstanding b) =
      image_mset untag (outstanding (io_backend st)) + mset (map (\<lambda>r. untag (dr_token r)) (take n rs))"
    by (simp only: assms(2) image_mset_union image_mset_map)
  have cnt: "size (filter_mset tagged (outstanding b)) =
      size (filter_mset tagged (outstanding (io_backend st))) + io_tagged (take n rs)"
    by (simp only: assms(2) filter_union_mset size_union size_filter_mset_map io_tagged_def)
  have "io_balance outstanding st S (W + io_tagged (take n rs) + io_tagged (drop n rs))"
    using assms(1) by (simp only: total add.assoc)
  then show ?thesis unfolding io_balance_def by (simp add: img cnt io_done_def algebra_simps)
qed

lemma submit_tagged_balance:
  assumes "ie_SubmitTagged B complete rs mode st = Some st'" "io_balance outstanding st S (W + io_tagged rs)"
  shows "io_balance outstanding st' (S + mset (map (\<lambda>r. untag (dr_token r)) rs)) W"
  using assms
proof (induction "length rs" arbitrary: rs st S W rule: less_induct)
  case less
  show ?case
  proof (cases rs)
    case Nil
    then show ?thesis using less.prems by (simp add: io_tagged_def)
  next
    case (Cons r rs')
    show ?thesis
    proof (cases "ie_stopped (io_engine st)")
      case True
      then have "st' = fold (\<lambda>r. ie_Deliver complete
          \<lparr>dc_token = dr_token r, dc_status = ie_StopStatus (io_engine st)\<rparr>) rs st"
        using less.prems(1) Cons by simp
      then show ?thesis
        using less.prems(2) fold_Deliver_effect [of complete
            "\<lambda>r. \<lparr>dc_token = dr_token r, dc_status = ie_StopStatus (io_engine st)\<rparr>" rs st]
        by (simp add: io_balance_def io_tagged_def algebra_simps)
    next
      case False
      then obtain a b where sub: "be_Submit B rs mode (io_backend st) = Some (a, b)"
        using less.prems(1) Cons by (auto split: option.splits)
      note law = submit [OF sub]
      have rej: ?thesis if "ie_SubmitTagged B complete rs' mode
          (ie_Deliver complete \<lparr>dc_token = dr_token r, dc_status = x\<rparr> (st\<lparr>io_backend := b\<rparr>)) = Some st'"
          and "outstanding b = outstanding (io_backend st)" for x
        using less.hyps [OF _ that(1) reject_balance [OF less.prems(2) [unfolded Cons] that(2)]] Cons by simp
      show ?thesis
      proof (cases a)
        case (Inl e)
        then show ?thesis using rej [of "Inl e"] law less.prems(1) False sub Cons by simp
      next
        case (Inr n)
        show ?thesis
        proof (cases n)
          case 0
          then show ?thesis
            using rej [of "Inl (Internal ''disk backend accepted no request'')"] law Inr less.prems(1) False sub Cons
            by simp
        next
          case (Suc k)
          have rest: "ie_SubmitTagged B complete (drop n rs) mode (st\<lparr>io_backend := b\<rparr>) = Some st'"
            using less.prems(1) False sub Cons Inr Suc by simp
          have len: "length (drop n rs) < length rs" using Suc Cons by simp
          have out: "outstanding b = outstanding (io_backend st) + mset (map dr_token (take n rs))"
            using law Inr by simp
          show ?thesis
            using less.hyps [OF len rest accept_balance [OF less.prems(2) out]]
              take_drop_tokens(1) [of "\<lambda>r. untag (dr_token r)" n rs] by (simp add: add.assoc)
        qed
      qed
    qed
  qed
qed

lemma submit_balance:
  assumes "ie_Submit B complete rs mode st = Some st'" "io_balance outstanding st S W"
    "\<forall>r \<in> set rs. dr_token r AND kAsyncTokenTag = 0"
  shows "io_balance outstanding st' (S + mset (map dr_token rs)) W"
proof (cases "mode = kWait")
  case True
  have none: "io_tagged rs = 0" using assms(3) by (simp add: io_tagged_def tagged_def filter_empty_conv)
  have eq: "map (\<lambda>r. untag (dr_token r)) rs = map dr_token rs"
    using assms(3) by (intro map_cong refl) (simp add: untag_tag)
  have "ie_SubmitTagged B complete rs mode st = Some st'" using assms(1) True by (simp add: ie_Submit_def)
  from submit_tagged_balance [OF this, of S W] show ?thesis using assms(2) none unfolding eq by simp
next
  case False
  let ?t = "\<lambda>r. r\<lparr>dr_token := dr_token r OR kAsyncTokenTag\<rparr>"
  let ?st = "st\<lparr>io_engine := ie_AddReaperDemand (word_of_nat (length (map ?t rs))) (io_engine st)\<rparr>"
  have sub: "ie_SubmitTagged B complete (map ?t rs) mode ?st = Some st'"
    using assms(1) False by (simp add: ie_Submit_def Let_def)
  have all: "io_tagged (map ?t rs) = length rs" by (simp add: io_tagged_def filter_map o_def tagged_tag)
  have "io_balance outstanding ?st S (W + io_tagged (map ?t rs))"
    using assms(2) unfolding all by (simp add: io_balance_def io_done_def ie_AddReaperDemand_def algebra_simps)
  from submit_tagged_balance [OF sub this]
  have "io_balance outstanding st' (S + mset (map (\<lambda>r. untag (dr_token r)) (map ?t rs))) W" .
  moreover have "map (\<lambda>r. untag (dr_token r)) (map ?t rs) = map dr_token rs"
    using assms(3) by (simp add: untag_tag)
  ultimately show ?thesis by (simp only:)
qed

lemma dispatch_balance:
  assumes "be_Reap B n wait (io_backend st) = Some (Inr cs, b)" "io_balance outstanding st S W"
  shows "io_balance outstanding (ie_Dispatch complete cs (st\<lparr>io_backend := b\<rparr>)) S W"
proof -
  have out: "outstanding (io_backend st) = outstanding b + mset (map dc_token cs)"
    using reap [OF assms(1)] by simp
  have img: "image_mset untag (outstanding (io_backend st)) =
      image_mset untag (outstanding b) + mset (map (\<lambda>c. untag (dc_token c)) cs)"
    by (simp only: out image_mset_union image_mset_map)
  have cnt: "size (filter_mset tagged (outstanding (io_backend st))) =
      size (filter_mset tagged (outstanding b)) + length (filter (\<lambda>c. tagged (dc_token c)) cs)"
    by (simp only: out filter_union_mset size_union size_filter_mset_map)
  show ?thesis using assms(2) unfolding io_balance_def Dispatch_effect
    by (simp add: img cnt io_done_def algebra_simps)
qed

lemma backend_balance:
  "io_balance outstanding st S W \<Longrightarrow> outstanding b = outstanding (io_backend st) \<Longrightarrow>
   io_balance outstanding (st\<lparr>io_backend := b\<rparr>) S W"
  by (simp add: io_balance_def io_done_def)

lemma reap_ready_balance:
  assumes "ie_ReapReady B complete st = Some (x, st')" "io_balance outstanding st S W"
  shows "io_balance outstanding st' S W"
proof -
  obtain res b where r: "be_Reap B kReapBatch False (io_backend st) = Some (res, b)"
    using assms(1) by (auto simp: ie_ReapReady_def split: option.splits)
  show ?thesis
  proof (cases res)
    case (Inl e)
    then show ?thesis
      using assms r reap [OF r] backend_balance by (auto simp: ie_ReapReady_def)
  next
    case (Inr cs)
    have "ie_Dispatch complete [] (st\<lparr>io_backend := b\<rparr>) = st\<lparr>io_backend := b\<rparr>" by (simp add: ie_Dispatch_def)
    then show ?thesis
      using assms r Inr dispatch_balance [OF r [unfolded Inr] assms(2), of complete]
      by (cases "cs = []") (auto simp: ie_ReapReady_def)
  qed
qed

lemma wait_balance:
  assumes "ie_WaitPass B complete waiter sleeping st = Some (pass, sleeping', st')" "io_balance outstanding st S W"
    "sleeping \<Longrightarrow> 0 < W"
  shows "io_balance outstanding st' S (W - (if sleeping then 1 else 0) + (if sleeping' then 1 else 0))"
proof -
  have leave: "io_balance outstanding (if sleeping
      then u\<lparr>io_engine := (io_engine u)\<lparr>ie_demand := ie_demand (io_engine u) - 1\<rparr>\<rparr> else u) S
      (W - (if sleeping then 1 else 0))" if "io_balance outstanding u S W" for u
  proof (cases sleeping)
    case True
    then obtain k where "W = Suc k" using assms(3) by (cases W) auto
    then show ?thesis using that True by (simp add: io_balance_def io_done_def)
  qed (use that in simp)
  show ?thesis
  proof (cases "iw_done (waiter (io_objects st))")
    case True
    then show ?thesis using assms(1) leave [OF assms(2)] by (auto simp: ie_WaitPass_def Let_def)
  next
    case False
    then obtain x u where r: "ie_ReapReady B complete st = Some (x, u)"
      using assms(1) by (auto simp: ie_WaitPass_def Let_def split: option.splits)
    note u = reap_ready_balance [OF r assms(2)]
    have more: "io_balance outstanding (u\<lparr>io_engine := ie_AddReaperDemand 1 (io_engine u)\<rparr>) S (W + 1)"
      using u by (simp add: io_balance_def io_done_def ie_AddReaperDemand_def algebra_simps)
    show ?thesis
      using assms(1,3) False r u more leave [OF u]
      by (auto simp: ie_WaitPass_def Let_def split: if_splits bool.splits)
  qed
qed

lemma reaper_balance:
  assumes "ie_RunPass B complete st = Some (pass, st')" "io_balance outstanding st S W"
  shows "io_balance outstanding st' S W"
proof (cases "\<not> ie_stopping (io_engine st) \<and> ie_demand (io_engine st) = 0")
  case True
  then show ?thesis using assms by (auto simp: ie_RunPass_def)
next
  case False
  then obtain res b where r: "be_Reap B kReapBatch True (io_backend st) = Some (res, b)"
    using assms(1) by (auto simp: ie_RunPass_def split: option.splits)
  show ?thesis
  proof (cases res)
    case (Inl e)
    then have "outstanding b = outstanding (io_backend st)" using reap [OF r] by simp
    then show ?thesis using assms r False Inl
      by (cases "ie_stopping (io_engine st)")
        (auto simp: ie_RunPass_def Let_def io_balance_def io_done_def ie_Stop_def)
  next
    case (Inr cs)
    then show ?thesis using assms(1) r False dispatch_balance [OF r [unfolded Inr] assms(2), of complete]
      by (auto simp: ie_RunPass_def)
  qed
qed

lemma reach_balance:
  assumes "io_reach B step complete b0 st S W" "outstanding b0 = {#}"
  shows "io_balance outstanding st S W"
  using assms
proof (induction rule: io_reach.induct)
  case (start caps c0)
  then show ?case by (simp add: io_balance_def io_done_def ie_create_def)
next
  case (submit st S W rs mode st')
  then show ?case using submit_balance by blast
next
  case (wait st S W sleeping waiter pass sleeping' st')
  then show ?case using wait_balance by blast
next
  case (reaper st S W pass st')
  then show ?case using reaper_balance by blast
next
  case (backend st S W b)
  then show ?case using own_step backend_balance by blast
next
  case (objects st S W c)
  then show ?case by (simp add: io_balance_def io_done_def)
next
  case (shut st S W reason)
  then show ?case by (simp add: io_balance_def io_done_def ie_Shutdown_def shutdown algebra_simps)
next
  case (joined st S W)
  then show ?case by (simp add: io_balance_def io_done_def ie_Joined_def)
qed

end

section \<open>The POSIX backend as a disk backend\<close>

text \<open>The constructor starts at least one worker.\<close>

definition ps_GetCapabilities :: "bool \<Rightarrow> size_t \<Rightarrow> PosixFiles \<Rightarrow> DiskBackendCapabilities" where
  "ps_GetCapabilities is_fallback_backend io_worker_count b =
     \<lparr>cap_kind = kPosix, cap_is_fallback_backend = is_fallback_backend, cap_queue_depth = max 1 io_worker_count,
      cap_max_request_blocks = word_of_nat kMaxDiskRequestBlocks, cap_block_size = bg_block_size (pf_geometry b)\<rparr>"

type_synonym 'o posix_state = "PosixFiles \<times> PosixQueue \<times> memory \<times> 'o"

definition posix_backend :: "'o Os \<Rightarrow> bool \<Rightarrow> size_t \<Rightarrow> 'o posix_state DiskBackend" where
  "posix_backend os is_fallback io_worker_count =
     \<lparr>be_Submit = (\<lambda>rs mode (b, q, m, s). ps_Submit os rs mode 0 b q m s),
      be_Reap = (\<lambda>n wait (b, q, m, s). map_option (\<lambda>(r, q). (r, b, q, m, s)) (pq_Reap n wait q)),
      be_Shutdown = (\<lambda>(b, q, m, s). (b, pq_Shutdown q, m, s)),
      be_GetCapabilities = (\<lambda>(b, q, m, s). ps_GetCapabilities is_fallback io_worker_count b)\<rparr>"

text \<open>A worker takes a request, executes it and pushes its completion.\<close>

definition ps_WorkerLoop :: "'o Os \<Rightarrow> 'o posix_state \<Rightarrow> 'o posix_state option" where
  "ps_WorkerLoop os = (\<lambda>(b, q, m, s).
     case pq_WorkerTake q of
       Some (Some r, q) \<Rightarrow>
         (case ps_Execute os r b m s of
            None \<Rightarrow> None
          | Some (status, b, m, s) \<Rightarrow>
              Some (b, pq_PushCompletion \<lparr>dc_token = dr_token r, dc_status = status\<rparr> q, m, s))
     | _ \<Rightarrow> None)"

definition ps_outstanding :: "'o posix_state \<Rightarrow> u64 multiset" where
  "ps_outstanding = (\<lambda>(b, q, m, s). mset (map dr_token (pq_pending q)) + mset (map dc_token (pq_completed q)))"

lemma ps_Submit_law:
  "ps_Submit os rs mode a b q m s = Some (r, b', q', m', s') \<Longrightarrow>
    (case r of
       Inr n \<Rightarrow> a \<le> n \<and> n - a \<le> length rs \<and>
         ps_outstanding (b', q', m', s') = ps_outstanding (b, q, m, s) + mset (map dr_token (take (n - a) rs))
     | Inl e \<Rightarrow> a = 0 \<and> ps_outstanding (b', q', m', s') = ps_outstanding (b, q, m, s))"
proof (induction rs arbitrary: a b q m s)
  case Nil
  then show ?case by auto
next
  case (Cons x rs)
  show ?case
  proof (cases "pq_Submit1 (fdc_root_path (pf_files b)) x mode q")
    case (Inl e)
    then show ?thesis using Cons.prems by (auto split: if_splits)
  next
    case (Inr q1)
    have next_step: ?thesis if "ps_Submit os rs mode (a + 1) b2 q2 m2 s2 = Some (r, b', q', m', s')"
        and "ps_outstanding (b2, q2, m2, s2) = ps_outstanding (b, q, m, s) + {#dr_token x#}" for b2 q2 m2 s2
    proof (cases r)
      case (Inl e)
      then show ?thesis using Cons.IH [OF that(1)] by simp
    next
      case (Inr n)
      then have n: "a + 1 \<le> n" "n - (a + 1) \<le> length rs"
        "ps_outstanding (b', q', m', s') = ps_outstanding (b, q, m, s) + {#dr_token x#} +
           mset (map dr_token (take (n - (a + 1)) rs))" using Cons.IH [OF that(1)] that(2) by simp_all
      obtain k where "n - a = Suc k" "n - (a + 1) = k" using n(1) by (metis Suc_diff_Suc Suc_eq_plus1 Suc_le_eq)
      then show ?thesis using Inr n by simp
    qed
    show ?thesis
    proof (cases "mode = kAsync")
      case True
      then have "q1 = q\<lparr>pq_pending := pq_pending q @ [x]\<rparr>"
        using Inr by (auto simp: pq_Submit1_def split: sum.splits if_splits)
      then have "ps_outstanding (b, q1, m, s) = ps_outstanding (b, q, m, s) + {#dr_token x#}"
        by (simp add: ps_outstanding_def)
      then show ?thesis using next_step [of b q1 m s] Cons.prems Inr True by simp
    next
      case False
      then have q1: "q1 = q\<lparr>pq_executing := pq_executing q + 1\<rparr>"
        using Inr by (auto simp: pq_Submit1_def split: sum.splits if_splits)
      obtain st b2 m2 s2 where ex: "ps_Execute os x b m s = Some (st, b2, m2, s2)"
        using Cons.prems Inr False by (auto split: option.splits)
      let ?q = "pq_PushCompletion \<lparr>dc_token = dr_token x, dc_status = st\<rparr> q1"
      have "ps_outstanding (b2, ?q, m2, s2) = ps_outstanding (b, q, m, s) + {#dr_token x#}"
        by (simp add: ps_outstanding_def pq_PushCompletion_def q1)
      then show ?thesis using next_step [of b2 ?q m2 s2] Cons.prems Inr False ex by simp
    qed
  qed
qed

lemma pq_Reap_law:
  assumes "pq_Reap n wait q = Some (r, q')"
  shows "pq_pending q' = pq_pending q \<and>
    (case r of Inr cs \<Rightarrow> pq_completed q = cs @ pq_completed q' | Inl e \<Rightarrow> pq_completed q' = pq_completed q)"
  using assms by (auto simp: pq_Reap_def Let_def split: if_splits)

interpretation posix: disk_backend "posix_backend os is_fallback io_worker_count" ps_outstanding
  "\<lambda>x y. ps_WorkerLoop os x = Some y" for os :: "'o Os" and is_fallback io_worker_count
proof (unfold_locales, goal_cases)
  case (1 rs mode b r b')
  obtain x q m s x' q' m' s' where s: "b = (x, q, m, s)" "b' = (x', q', m', s')" by (metis prod_cases4)
  have "ps_Submit os rs mode 0 x q m s = Some (r, x', q', m', s')" using 1 s by (simp add: posix_backend_def)
  from ps_Submit_law [OF this] show ?case unfolding s by (cases r) simp_all
next
  case (2 n wait b res b')
  obtain x q m s x' q' m' s' where s: "b = (x, q, m, s)" "b' = (x', q', m', s')" by (metis prod_cases4)
  have "pq_Reap n wait q = Some (res, q')" using 2 s by (auto simp: posix_backend_def)
  from pq_Reap_law [OF this] show ?case
    unfolding s by (cases res) (auto simp: ps_outstanding_def add.commute)
next
  case (3 b)
  then show ?case by (cases b) (simp add: posix_backend_def ps_outstanding_def pq_Shutdown_def)
next
  case (4 b b')
  obtain x q m s where s: "b = (x, q, m, s)" by (metis prod_cases4)
  obtain r rs where "pq_pending q = r # rs"
    using 4 s by (auto simp: ps_WorkerLoop_def pq_WorkerTake_def split: list.splits if_splits)
  then show ?case using 4 s
    by (auto simp: ps_WorkerLoop_def pq_WorkerTake_def pq_PushCompletion_def ps_outstanding_def
        split: option.splits prod.splits)
qed

lemma word_of_nat_zero: "(word_of_nat n :: u32) = 0 \<Longrightarrow> n < 2 ^ 32 \<Longrightarrow> n = 0"
  using of_nat_neq_0 [where 'a = 32, of n] by auto

section \<open>One request, run synchronously\<close>

text \<open>
  A request that the POSIX backend accepts with mode \<^verbatim>\<open>kWait\<close> runs on the submitting thread;
  the wait then reaps its completion without sleeping.
\<close>

lemma posix_submit_wait:
  assumes "\<not> ie_stopped (io_engine st)" "io_backend st = (b, q, m, s)" "\<not> pq_shutdown q"
    "fdc_root_path (pf_files b) \<noteq> []" "ValidateDiskRequest r kMaxDiskRequestBlocks = Ok"
    "ps_Execute os r b m s = Some (status, b', m', s')"
  shows "ie_Submit (posix_backend os fb n) complete [r] kWait st =
    Some (st\<lparr>io_backend := (b', q\<lparr>pq_completed := pq_completed q @ [\<lparr>dc_token = dr_token r, dc_status = status\<rparr>]\<rparr>, m', s')\<rparr>)"
proof -
  have sub: "pq_Submit1 (fdc_root_path (pf_files b)) r kWait q = Inr (q\<lparr>pq_executing := pq_executing q + 1\<rparr>)"
    using assms(3-5) by (simp add: pq_Submit1_def)
  have "be_Submit (posix_backend os fb n) [r] kWait (io_backend st) =
      Some (Inr 1, b', q\<lparr>pq_completed := pq_completed q @ [\<lparr>dc_token = dr_token r, dc_status = status\<rparr>]\<rparr>, m', s')"
    using assms(2,6) sub by (simp add: posix_backend_def pq_PushCompletion_def)
  then show ?thesis using assms(1) by (simp add: ie_Submit_def)
qed

lemma posix_wait_reaps:
  assumes "io_backend st = (b, q, m, s)" "pq_completed q = [\<lparr>dc_token = t, dc_status = status\<rparr>]"
    "t AND kAsyncTokenTag = 0" "io_objects st t = iw_create 1"
  shows "\<exists>st'. ie_Wait (posix_backend os fb n) (\<lambda>t status ws. ws(t := iw_Complete status (ws t))) (\<lambda>ws. ws t) False st =
    Some (status, st') \<and> io_backend st' = (b, q\<lparr>pq_completed := []\<rparr>, m, s) \<and>
    io_delivered st' = io_delivered st @ [(t, status)] \<and> io_engine st' = io_engine st"
proof -
  let ?B = "posix_backend os fb n" and ?c = "\<lambda>t status ws. ws(t := iw_Complete status (ws t))"
  let ?d = "\<lparr>dc_token = t, dc_status = status\<rparr>"
  let ?st = "ie_Deliver ?c ?d (st\<lparr>io_backend := (b, q\<lparr>pq_completed := []\<rparr>, m, s)\<rparr>)"
  have obj: "t AND NOT kAsyncTokenTag = t" using untag_tag(2) [OF assms(3)] by (simp add: untag_def)
  have "be_Reap ?B kReapBatch False (io_backend st) = Some (Inr [?d], b, q\<lparr>pq_completed := []\<rparr>, m, s)"
    using assms(1,2) by (simp add: posix_backend_def pq_Reap_def kReapBatch_def)
  then have "ie_ReapReady ?B ?c st = Some (True, ?st)" by (simp add: ie_ReapReady_def ie_Dispatch_def)
  moreover have "\<not> iw_done (io_objects st t)" using assms(4) by (simp add: iw_done_def iw_create_def)
  ultimately have p1: "ie_WaitPass ?B ?c (\<lambda>ws. ws t) False st = Some (WaitAgain, False, ?st)"
    by (simp add: ie_WaitPass_def)
  have "iw_pending (io_objects ?st t) = 0" "iw_error (io_objects ?st t) = status"
    using assms(4) by (cases status; simp add: ie_Deliver_def obj iw_Complete_def iw_create_def Let_def)+
  then have p2: "ie_WaitPass ?B ?c (\<lambda>ws. ws t) False ?st = Some (WaitReturns status, False, ?st)"
    by (simp add: ie_WaitPass_def iw_done_def iw_status_def)
  have "ie_Wait ?B ?c (\<lambda>ws. ws t) False st = Some (status, ?st)"
    by (simp add: ie_Wait.simps [of ?B ?c _ False st] p1 ie_Wait.simps [of ?B ?c _ False ?st] p2)
  then show ?thesis using assms(3) by (intro exI [of _ ?st]) (simp add: ie_Deliver_def obj)
qed

section \<open>Properties\<close>





end
