(* ===== verification/Telemetry.thy ===== *)
theory Telemetry
  imports Status
begin

text \<open>
  \<^verbatim>\<open>telemetry/telemetry_sink.h\<close> with its two sinks, and the observer through which the
  buffer manager reports (\<^verbatim>\<open>buffer/buffer_manager_observer.cc\<close>).  A call of a
  \<^verbatim>\<open>Record...\<close> method is an event; the observer turns what happens in the buffer manager
  into events, and the counter sink adds each event to the shard of the calling thread.
  The counters are 64-bit and wrap.
\<close>

section \<open>Counters\<close>

record TelemetrySnapshot =
  ts_buffer_hits :: u64
  ts_buffer_misses :: u64
  ts_disk_reads :: u64
  ts_disk_writes :: u64
  ts_evictions :: u64
  ts_dirty_flushes :: u64
  ts_flush_tasks_scheduled :: u64
  ts_flush_tasks_completed :: u64
  ts_flush_failures :: u64
  ts_cleaner_flushes_scheduled :: u64
  ts_cleaner_flushes_finished :: u64
  ts_cleaner_flushes_skipped :: u64
  ts_eviction_failures :: u64

record TelemetryCounterShard =
  tc_buffer_hits :: u64
  tc_buffer_misses :: u64
  tc_disk_reads :: u64
  tc_disk_writes :: u64
  tc_evictions :: u64
  tc_dirty_flushes :: u64
  tc_flush_tasks_scheduled :: u64
  tc_flush_tasks_completed :: u64
  tc_flush_failures :: u64
  tc_cleaner_flushes_scheduled :: u64
  tc_cleaner_flushes_finished :: u64
  tc_cleaner_flushes_skipped :: u64
  tc_eviction_failures :: u64

definition kShardCount :: size_t where
  "kShardCount = 64"

type_synonym TelemetryCounters = "size_t \<Rightarrow> TelemetryCounterShard"

definition ts_zero :: TelemetrySnapshot where
  "ts_zero = \<lparr>ts_buffer_hits = 0, ts_buffer_misses = 0, ts_disk_reads = 0, ts_disk_writes = 0,
     ts_evictions = 0, ts_dirty_flushes = 0, ts_flush_tasks_scheduled = 0, ts_flush_tasks_completed = 0,
     ts_flush_failures = 0, ts_cleaner_flushes_scheduled = 0, ts_cleaner_flushes_finished = 0,
     ts_cleaner_flushes_skipped = 0, ts_eviction_failures = 0\<rparr>"

definition tc_zero :: TelemetryCounterShard where
  "tc_zero = \<lparr>tc_buffer_hits = 0, tc_buffer_misses = 0, tc_disk_reads = 0, tc_disk_writes = 0,
     tc_evictions = 0, tc_dirty_flushes = 0, tc_flush_tasks_scheduled = 0, tc_flush_tasks_completed = 0,
     tc_flush_failures = 0, tc_cleaner_flushes_scheduled = 0, tc_cleaner_flushes_finished = 0,
     tc_cleaner_flushes_skipped = 0, tc_eviction_failures = 0\<rparr>"

text \<open>A call of one of the \<^verbatim>\<open>Record...\<close> methods of a sink.\<close>

datatype TelemetryEvent =
    RecordHit BufferTag
  | RecordMiss BufferTag
  | RecordDiskRead BufferTag
  | RecordDiskWrite BufferTag
  | RecordEviction BufferTag
  | RecordDirtyFlush BufferTag
  | RecordFlushTaskScheduled BufferTag
  | RecordFlushTaskCompleted BufferTag
  | RecordFlushFailure BufferTag
  | RecordCleanerFlushScheduled BufferTag
  | RecordCleanerFlushFinished BufferTag
  | RecordCleanerFlushSkipped
  | RecordEvictionFailure BufferTag

text \<open>The counter that a method passes to \<^verbatim>\<open>RecordFastPath\<close>, incremented.\<close>

fun tc_add :: "TelemetryEvent \<Rightarrow> TelemetryCounterShard \<Rightarrow> TelemetryCounterShard" where
  "tc_add (RecordHit tag) c = c\<lparr>tc_buffer_hits := tc_buffer_hits c + 1\<rparr>"
| "tc_add (RecordMiss tag) c = c\<lparr>tc_buffer_misses := tc_buffer_misses c + 1\<rparr>"
| "tc_add (RecordDiskRead tag) c = c\<lparr>tc_disk_reads := tc_disk_reads c + 1\<rparr>"
| "tc_add (RecordDiskWrite tag) c = c\<lparr>tc_disk_writes := tc_disk_writes c + 1\<rparr>"
| "tc_add (RecordEviction tag) c = c\<lparr>tc_evictions := tc_evictions c + 1\<rparr>"
| "tc_add (RecordDirtyFlush tag) c = c\<lparr>tc_dirty_flushes := tc_dirty_flushes c + 1\<rparr>"
| "tc_add (RecordFlushTaskScheduled tag) c = c\<lparr>tc_flush_tasks_scheduled := tc_flush_tasks_scheduled c + 1\<rparr>"
| "tc_add (RecordFlushTaskCompleted tag) c = c\<lparr>tc_flush_tasks_completed := tc_flush_tasks_completed c + 1\<rparr>"
| "tc_add (RecordFlushFailure tag) c = c\<lparr>tc_flush_failures := tc_flush_failures c + 1\<rparr>"
| "tc_add (RecordCleanerFlushScheduled tag) c =
     c\<lparr>tc_cleaner_flushes_scheduled := tc_cleaner_flushes_scheduled c + 1\<rparr>"
| "tc_add (RecordCleanerFlushFinished tag) c =
     c\<lparr>tc_cleaner_flushes_finished := tc_cleaner_flushes_finished c + 1\<rparr>"
| "tc_add RecordCleanerFlushSkipped c = c\<lparr>tc_cleaner_flushes_skipped := tc_cleaner_flushes_skipped c + 1\<rparr>"
| "tc_add (RecordEvictionFailure tag) c = c\<lparr>tc_eviction_failures := tc_eviction_failures c + 1\<rparr>"

definition tc_accumulate :: "TelemetryCounterShard \<Rightarrow> TelemetrySnapshot \<Rightarrow> TelemetrySnapshot" where
  "tc_accumulate shard snapshot =
     \<lparr>ts_buffer_hits = ts_buffer_hits snapshot + tc_buffer_hits shard,
      ts_buffer_misses = ts_buffer_misses snapshot + tc_buffer_misses shard,
      ts_disk_reads = ts_disk_reads snapshot + tc_disk_reads shard,
      ts_disk_writes = ts_disk_writes snapshot + tc_disk_writes shard,
      ts_evictions = ts_evictions snapshot + tc_evictions shard,
      ts_dirty_flushes = ts_dirty_flushes snapshot + tc_dirty_flushes shard,
      ts_flush_tasks_scheduled = ts_flush_tasks_scheduled snapshot + tc_flush_tasks_scheduled shard,
      ts_flush_tasks_completed = ts_flush_tasks_completed snapshot + tc_flush_tasks_completed shard,
      ts_flush_failures = ts_flush_failures snapshot + tc_flush_failures shard,
      ts_cleaner_flushes_scheduled = ts_cleaner_flushes_scheduled snapshot + tc_cleaner_flushes_scheduled shard,
      ts_cleaner_flushes_finished = ts_cleaner_flushes_finished snapshot + tc_cleaner_flushes_finished shard,
      ts_cleaner_flushes_skipped = ts_cleaner_flushes_skipped snapshot + tc_cleaner_flushes_skipped shard,
      ts_eviction_failures = ts_eviction_failures snapshot + tc_eviction_failures shard\<rparr>"

definition ReadCountersSnapshot :: "TelemetryCounters \<Rightarrow> TelemetrySnapshot" where
  "ReadCountersSnapshot counters =
     fold (\<lambda>i. tc_accumulate (counters (word_of_nat i))) [0..<unat kShardCount] ts_zero"

section \<open>Sinks\<close>

text \<open>
  The shard of a thread is chosen at its first event, round robin over all threads of the
  process, and kept.
\<close>

record ShardChoice =
  sh_next_shard :: size_t
  sh_shard :: "nat \<Rightarrow> size_t option"

definition sh_empty :: ShardChoice where
  "sh_empty = \<lparr>sh_next_shard = 0, sh_shard = Map.empty\<rparr>"

definition CurrentShard :: "nat \<Rightarrow> ShardChoice \<Rightarrow> size_t \<times> ShardChoice" where
  "CurrentShard thread sh =
     (case sh_shard sh thread of
        Some shard \<Rightarrow> (shard, sh)
      | None \<Rightarrow>
          let shard = sh_next_shard sh mod kShardCount
          in (shard, sh\<lparr>sh_next_shard := sh_next_shard sh + 1,
                        sh_shard := (sh_shard sh)(thread \<mapsto> shard)\<rparr>))"

text \<open>
  A sink with its fast-path counters, if it has any.  The \<^verbatim>\<open>DoRecord...\<close> methods of both
  sinks do nothing.
\<close>

record TelemetrySink =
  tk_fast_path_counters :: "TelemetryCounters option"
  tk_choice :: ShardChoice

definition RecordFastPath :: "nat \<Rightarrow> TelemetryEvent \<Rightarrow> TelemetrySink \<Rightarrow> bool \<times> TelemetrySink" where
  "RecordFastPath thread event sink =
     (case tk_fast_path_counters sink of
        None \<Rightarrow> (False, sink)
      | Some counters \<Rightarrow>
          let (shard, choice) = CurrentShard thread (tk_choice sink)
          in (True, sink\<lparr>tk_fast_path_counters := Some (counters(shard := tc_add event (counters shard))),
                         tk_choice := choice\<rparr>))"

definition DoRecord :: "TelemetryEvent \<Rightarrow> TelemetrySink \<Rightarrow> TelemetrySink" where
  "DoRecord event sink = sink"

definition tk_Record :: "nat \<times> TelemetryEvent \<Rightarrow> TelemetrySink \<Rightarrow> TelemetrySink" where
  "tk_Record te sink =
     (let (recorded, sink') = RecordFastPath (fst te) (snd te) sink
      in if recorded then sink' else DoRecord (snd te) sink')"

definition tk_DoSnapshot :: "TelemetrySink \<Rightarrow> TelemetrySnapshot" where
  "tk_DoSnapshot sink = ts_zero"

definition tk_Snapshot :: "TelemetrySink \<Rightarrow> TelemetrySnapshot" where
  "tk_Snapshot sink =
     (case tk_fast_path_counters sink of
        Some counters \<Rightarrow> ReadCountersSnapshot counters
      | None \<Rightarrow> tk_DoSnapshot sink)"

definition MakeCounterTelemetrySink :: TelemetrySink where
  "MakeCounterTelemetrySink = \<lparr>tk_fast_path_counters = Some (\<lambda>_. tc_zero), tk_choice = sh_empty\<rparr>"

definition MakeNoOpTelemetrySink :: TelemetrySink where
  "MakeNoOpTelemetrySink = \<lparr>tk_fast_path_counters = None, tk_choice = sh_empty\<rparr>"

section \<open>The observer\<close>

text \<open>The calls of the sink that each method of the observer makes, in order.\<close>

definition ob_RecordResidentHit :: "BufferTag \<Rightarrow> TelemetryEvent list" where
  "ob_RecordResidentHit tag = [RecordHit tag]"

definition ob_RecordJoinedMissHit :: "BufferTag \<Rightarrow> TelemetryEvent list" where
  "ob_RecordJoinedMissHit tag = [RecordHit tag]"

definition ob_RecordReadMiss :: "BufferTag \<Rightarrow> TelemetryEvent list" where
  "ob_RecordReadMiss tag = [RecordMiss tag]"

definition ob_RecordLoadCompletion :: "BufferTag \<Rightarrow> BufferTag option \<Rightarrow> TelemetryEvent list" where
  "ob_RecordLoadCompletion tag evicted_tag =
     (case evicted_tag of
        None \<Rightarrow> [RecordDiskRead tag]
      | Some evicted \<Rightarrow> [RecordDiskRead tag, RecordEviction evicted])"

definition ob_RecordSuccessfulFlush :: "BufferTag \<Rightarrow> TelemetryEvent list" where
  "ob_RecordSuccessfulFlush tag = [RecordDiskWrite tag, RecordDirtyFlush tag]"

definition ob_RecordFlushTaskScheduled :: "BufferTag \<Rightarrow> TelemetryEvent list" where
  "ob_RecordFlushTaskScheduled tag = [RecordFlushTaskScheduled tag]"

definition ob_RecordFlushTaskCompletion :: "BufferTag \<Rightarrow> Status \<Rightarrow> TelemetryEvent list" where
  "ob_RecordFlushTaskCompletion tag status =
     RecordFlushTaskCompleted tag # (if isl status then [RecordFlushFailure tag] else [])"

definition ob_RecordCleanerFlushScheduled :: "BufferTag \<Rightarrow> TelemetryEvent list" where
  "ob_RecordCleanerFlushScheduled tag = [RecordCleanerFlushScheduled tag]"

definition ob_RecordCleanerFlushFinished :: "BufferTag \<Rightarrow> TelemetryEvent list" where
  "ob_RecordCleanerFlushFinished tag = [RecordCleanerFlushFinished tag]"

definition ob_RecordCleanerFlushSkipped :: "TelemetryEvent list" where
  "ob_RecordCleanerFlushSkipped = [RecordCleanerFlushSkipped]"

definition ob_RecordZeroFill :: "BufferTag option \<Rightarrow> TelemetryEvent list" where
  "ob_RecordZeroFill evicted_tag =
     (case evicted_tag of None \<Rightarrow> [] | Some evicted \<Rightarrow> [RecordEviction evicted])"

definition ob_RecordEvictionFailure :: "BufferTag \<Rightarrow> TelemetryEvent list" where
  "ob_RecordEvictionFailure tag = [RecordEvictionFailure tag]"

section \<open>The counters count\<close>

text \<open>One unsharded counter set, as the reference: every event adds to it directly.\<close>

definition ts_of_shard :: "TelemetryCounterShard \<Rightarrow> TelemetrySnapshot" where
  "ts_of_shard shard = tc_accumulate shard ts_zero"

definition tc_sum :: "(TelemetryCounterShard \<Rightarrow> u64) \<Rightarrow> TelemetryCounters \<Rightarrow> u64" where
  "tc_sum get counters = (\<Sum>i \<in> {0..<64}. get (counters (word_of_nat i)))"

text \<open>The sum of the shards of a counter set, counter by counter.\<close>

definition tc_total :: "TelemetryCounters \<Rightarrow> TelemetryCounterShard" where
  "tc_total counters =
     \<lparr>tc_buffer_hits = tc_sum tc_buffer_hits counters, tc_buffer_misses = tc_sum tc_buffer_misses counters,
      tc_disk_reads = tc_sum tc_disk_reads counters, tc_disk_writes = tc_sum tc_disk_writes counters,
      tc_evictions = tc_sum tc_evictions counters, tc_dirty_flushes = tc_sum tc_dirty_flushes counters,
      tc_flush_tasks_scheduled = tc_sum tc_flush_tasks_scheduled counters,
      tc_flush_tasks_completed = tc_sum tc_flush_tasks_completed counters,
      tc_flush_failures = tc_sum tc_flush_failures counters,
      tc_cleaner_flushes_scheduled = tc_sum tc_cleaner_flushes_scheduled counters,
      tc_cleaner_flushes_finished = tc_sum tc_cleaner_flushes_finished counters,
      tc_cleaner_flushes_skipped = tc_sum tc_cleaner_flushes_skipped counters,
      tc_eviction_failures = tc_sum tc_eviction_failures counters\<rparr>"

lemma fold_accumulate:
  "fold (\<lambda>i. tc_accumulate (counters (word_of_nat i))) [0..<n] ts_zero =
     tc_accumulate
       \<lparr>tc_buffer_hits = (\<Sum>i \<in> {0..<n}. tc_buffer_hits (counters (word_of_nat i))),
        tc_buffer_misses = (\<Sum>i \<in> {0..<n}. tc_buffer_misses (counters (word_of_nat i))),
        tc_disk_reads = (\<Sum>i \<in> {0..<n}. tc_disk_reads (counters (word_of_nat i))),
        tc_disk_writes = (\<Sum>i \<in> {0..<n}. tc_disk_writes (counters (word_of_nat i))),
        tc_evictions = (\<Sum>i \<in> {0..<n}. tc_evictions (counters (word_of_nat i))),
        tc_dirty_flushes = (\<Sum>i \<in> {0..<n}. tc_dirty_flushes (counters (word_of_nat i))),
        tc_flush_tasks_scheduled = (\<Sum>i \<in> {0..<n}. tc_flush_tasks_scheduled (counters (word_of_nat i))),
        tc_flush_tasks_completed = (\<Sum>i \<in> {0..<n}. tc_flush_tasks_completed (counters (word_of_nat i))),
        tc_flush_failures = (\<Sum>i \<in> {0..<n}. tc_flush_failures (counters (word_of_nat i))),
        tc_cleaner_flushes_scheduled = (\<Sum>i \<in> {0..<n}. tc_cleaner_flushes_scheduled (counters (word_of_nat i))),
        tc_cleaner_flushes_finished = (\<Sum>i \<in> {0..<n}. tc_cleaner_flushes_finished (counters (word_of_nat i))),
        tc_cleaner_flushes_skipped = (\<Sum>i \<in> {0..<n}. tc_cleaner_flushes_skipped (counters (word_of_nat i))),
        tc_eviction_failures = (\<Sum>i \<in> {0..<n}. tc_eviction_failures (counters (word_of_nat i)))\<rparr> ts_zero"
  by (induction n) (simp_all add: tc_accumulate_def ts_zero_def)

lemma ReadCountersSnapshot_total: "ReadCountersSnapshot counters = ts_of_shard (tc_total counters)"
  unfolding ReadCountersSnapshot_def fold_accumulate ts_of_shard_def
  by (simp add: tc_total_def tc_sum_def kShardCount_def)

text \<open>Changing one shard changes a sum by as much as that shard.\<close>

lemma tc_sum_update:
  assumes "unat s < 64"
  shows "tc_sum get (counters(s := c)) = tc_sum get counters - get (counters s) + get c"
proof -
  let ?i = "unat s"
  have i: "?i \<in> {0..<64}" "word_of_nat ?i = s" using assms by simp_all
  have ne: "word_of_nat j \<noteq> s" if "j \<in> {0..<64} - {?i}" for j
  proof
    assume "word_of_nat j = s"
    then have "unat (word_of_nat j :: size_t) = unat s" by simp
    with that show False by (simp add: unat_of_nat take_bit_nat_eq_self)
  qed
  have "tc_sum get (counters(s := c)) = get c + (\<Sum>j \<in> {0..<64} - {?i}. get (counters (word_of_nat j)))"
    unfolding tc_sum_def using i ne by (subst sum.remove [of _ ?i]) (auto intro!: sum.cong)
  moreover have "tc_sum get counters = get (counters s) + (\<Sum>j \<in> {0..<64} - {?i}. get (counters (word_of_nat j)))"
    unfolding tc_sum_def using i by (subst sum.remove [of _ ?i]) auto
  ultimately show ?thesis by simp
qed

lemma tc_total_update:
  "unat s < 64 \<Longrightarrow> tc_total (counters(s := tc_add e (counters s))) = tc_add e (tc_total counters)"
  by (cases e) (simp_all add: tc_total_def tc_sum_update)

definition sh_inv :: "ShardChoice \<Rightarrow> bool" where
  "sh_inv sh \<longleftrightarrow> (\<forall>t s. sh_shard sh t = Some s \<longrightarrow> unat s < 64)"

lemma CurrentShard_range:
  assumes "sh_inv sh"
  shows "unat (fst (CurrentShard t sh)) < 64 \<and> sh_inv (snd (CurrentShard t sh))"
proof -
  have "unat (sh_next_shard sh mod kShardCount) < 64"
    by (simp add: kShardCount_def unat_mod)
  then show ?thesis using assms by (auto simp: CurrentShard_def sh_inv_def Let_def split: option.splits)
qed

lemma fold_Record_total:
  assumes "tk_fast_path_counters sink = Some counters" "sh_inv (tk_choice sink)"
  shows "\<exists>counters'. tk_fast_path_counters (fold tk_Record tes sink) = Some counters' \<and>
    tc_total counters' = fold (\<lambda>te. tc_add (snd te)) tes (tc_total counters)"
  using assms
proof (induction tes arbitrary: sink counters)
  case Nil
  then show ?case by simp
next
  case (Cons te tes)
  let ?c = "CurrentShard (fst te) (tk_choice sink)"
  let ?k = "counters(fst ?c := tc_add (snd te) (counters (fst ?c)))"
  have r: "unat (fst ?c) < 64" "sh_inv (snd ?c)" using CurrentShard_range [OF Cons.prems(2)] by simp_all
  have "tk_fast_path_counters (tk_Record te sink) = Some ?k" "sh_inv (tk_choice (tk_Record te sink))"
    using Cons.prems r by (simp_all add: tk_Record_def RecordFastPath_def case_prod_beta Let_def)
  from Cons.IH [OF this] show ?case unfolding tc_total_update [OF r(1)] by simp
qed

lemma tc_total_zero: "tc_total (\<lambda>_. tc_zero) = tc_zero"
  by (simp add: tc_total_def tc_sum_def tc_zero_def)


end
