(* ===== verification/Flush_Scheduler.thy ===== *)
theory Flush_Scheduler
  imports Status
begin

text \<open>
  \<^verbatim>\<open>buffer/flush_scheduler.h\<close> and \<^verbatim>\<open>.cc\<close>: the two queues of writeback tasks and the batches
  that the worker threads take from them.  A task is shared between the queue, a worker and
  the thread that waits for it, so tasks live in a store (\<open>sch_tasks\<close>) and a \<^verbatim>\<open>TaskPtr\<close>
  is a key of it, a null pointer \<open>None\<close>.  The latch of the scheduler makes each operation
  one step; \<open>None\<close> as the result of an operation stands for a thread that waits.  The loop
  of a worker, which also calls the buffer manager and the disk, is part of the theory
  \<^verbatim>\<open>Buffer_Manager\<close>.
\<close>

section \<open>Tasks and queues\<close>

record BufferManagerFlushTask =
  ft_frame_id :: FrameId
  ft_tag :: BufferTag
  ft_clear_dirty_on_success :: bool
  ft_cleaner_owned :: bool
  ft_snapshot :: "u8 list"
  ft_completed :: bool
  ft_status :: Status

record FlushScheduler =
  sch_worker_count :: size_t
  sch_submit_batch_size :: size_t
  sch_foreground_burst_limit :: size_t
  sch_foreground_queue :: "nat list"
  sch_background_queue :: "nat list"
  sch_workers :: nat
  sch_shutdown :: bool
  sch_started :: bool
  sch_consecutive :: "nat \<Rightarrow> size_t"
  sch_tasks :: "nat \<Rightarrow> BufferManagerFlushTask"

record FlushBatch =
  fb_tasks :: "nat list"
  fb_should_stop :: bool

definition ft_default :: BufferManagerFlushTask where
  "ft_default = \<lparr>ft_frame_id = kInvalidFrameId, ft_tag = emptyTag, ft_clear_dirty_on_success = False,
     ft_cleaner_owned = False, ft_snapshot = [], ft_completed = False, ft_status = Ok\<rparr>"

text \<open>\<^verbatim>\<open>BufferManagerFlushTask::Wait\<close>: the status once the task is completed.\<close>

definition ft_Wait :: "BufferManagerFlushTask \<Rightarrow> Status option" where
  "ft_Wait task = (if ft_completed task then Some (ft_status task) else None)"

definition ft_Complete :: "Status \<Rightarrow> BufferManagerFlushTask \<Rightarrow> BufferManagerFlushTask" where
  "ft_Complete flush_status task = task\<lparr>ft_completed := True, ft_status := flush_status\<rparr>"

definition sch_create :: "size_t \<Rightarrow> size_t \<Rightarrow> size_t \<Rightarrow> FlushScheduler" where
  "sch_create worker_count submit_batch_size foreground_burst_limit =
     \<lparr>sch_worker_count = worker_count, sch_submit_batch_size = submit_batch_size,
      sch_foreground_burst_limit = foreground_burst_limit, sch_foreground_queue = [],
      sch_background_queue = [], sch_workers = 0, sch_shutdown = False, sch_started = False,
      sch_consecutive = (\<lambda>_. 0), sch_tasks = (\<lambda>_. ft_default)\<rparr>"

text \<open>
  \<^verbatim>\<open>Start\<close>; whether the system can create the threads is an argument.  After a failure the
  workers created so far have been joined and the scheduler stays shut down.
\<close>

definition sch_Start :: "bool \<Rightarrow> FlushScheduler \<Rightarrow> Status \<times> FlushScheduler" where
  "sch_Start threads_start s =
     (if sch_started s then (Ok, s)
      else if \<not> threads_start
        then (Inl (Unavailable ''failed to start flush scheduler'' 0), s\<lparr>sch_shutdown := True, sch_workers := 0\<rparr>)
      else (Ok, s\<lparr>sch_workers := unat (sch_worker_count s), sch_started := True\<rparr>))"

text \<open>
  \<^verbatim>\<open>Shutdown\<close> announces the end and then joins the workers, which \<open>sch_Joined\<close> completes
  once each of them has left its loop.
\<close>

definition sch_Shutdown :: "FlushScheduler \<Rightarrow> FlushScheduler" where
  "sch_Shutdown s = (if \<not> sch_started s then s else s\<lparr>sch_shutdown := True\<rparr>)"

definition sch_Joined :: "FlushScheduler \<Rightarrow> FlushScheduler" where
  "sch_Joined s = (if \<not> sch_started s then s else s\<lparr>sch_workers := 0, sch_started := False\<rparr>)"

definition sch_Enqueue :: "nat option \<Rightarrow> FlushScheduler \<Rightarrow> Status \<times> FlushScheduler" where
  "sch_Enqueue task s =
     (case task of
        None \<Rightarrow> (Inl (InvalidArgument ''flush task must not be null''), s)
      | Some t \<Rightarrow>
          if sch_shutdown s then (Inl (Unavailable ''flush scheduler is shutting down'' 0), s)
          else if ft_cleaner_owned (sch_tasks s t)
            then (Ok, s\<lparr>sch_background_queue := sch_background_queue s @ [t]\<rparr>)
          else (Ok, s\<lparr>sch_foreground_queue := sch_foreground_queue s @ [t]\<rparr>))"

definition sch_Wait :: "nat option \<Rightarrow> FlushScheduler \<Rightarrow> Status option" where
  "sch_Wait task s =
     (case task of
        None \<Rightarrow> Some (Inl (InvalidArgument ''flush task must not be null''))
      | Some t \<Rightarrow> ft_Wait (sch_tasks s t))"

definition ShouldServeBackground :: "nat list \<Rightarrow> size_t \<Rightarrow> size_t \<Rightarrow> bool" where
  "ShouldServeBackground background_queue foreground_burst_limit consecutive \<longleftrightarrow>
     background_queue \<noteq> [] \<and> consecutive \<ge> foreground_burst_limit"

text \<open>
  The loop that fills a batch: the batch so far, the worker's count of consecutive
  foreground tasks, and the two queues.
\<close>

function sch_fill ::
  "nat \<Rightarrow> size_t \<Rightarrow> nat list \<Rightarrow> size_t \<Rightarrow> nat list \<Rightarrow> nat list \<Rightarrow> nat list \<times> size_t \<times> nat list \<times> nat list" where
  "sch_fill submit_batch_size limit batch k fg bg =
     (if length batch < submit_batch_size then
        (if ShouldServeBackground bg limit k
         then sch_fill submit_batch_size limit (batch @ [hd bg]) 0 fg (tl bg)
         else if fg \<noteq> []
         then sch_fill submit_batch_size limit (batch @ [hd fg]) (k + 1) (tl fg) bg
         else if bg = [] then (batch, k, fg, bg)
         else sch_fill submit_batch_size limit (batch @ [hd bg]) 0 fg (tl bg))
      else (batch, k, fg, bg))"
  by auto
termination by (relation "measure (\<lambda>(n, l, batch, k, fg, bg). n - length batch)") auto

declare sch_fill.simps [simp del]

definition sch_TakeNextBatch :: "nat \<Rightarrow> FlushScheduler \<Rightarrow> (FlushBatch \<times> FlushScheduler) option" where
  "sch_TakeNextBatch worker s =
     (if \<not> (sch_shutdown s \<or> sch_foreground_queue s \<noteq> [] \<or> sch_background_queue s \<noteq> []) then None
      else if sch_foreground_queue s = [] \<and> sch_background_queue s = []
        then Some (\<lparr>fb_tasks = [], fb_should_stop = sch_shutdown s\<rparr>, s)
      else let (batch, k, fg, bg) = sch_fill (unat (sch_submit_batch_size s)) (sch_foreground_burst_limit s) []
                 (sch_consecutive s worker) (sch_foreground_queue s) (sch_background_queue s)
           in Some (\<lparr>fb_tasks = batch, fb_should_stop = False\<rparr>,
                    s\<lparr>sch_foreground_queue := fg, sch_background_queue := bg,
                      sch_consecutive := (sch_consecutive s)(worker := k)\<rparr>))"

text \<open>The part of \<^verbatim>\<open>CompleteTask\<close> that follows the callback.\<close>

definition sch_CompleteTask :: "nat \<Rightarrow> Status \<Rightarrow> FlushScheduler \<Rightarrow> FlushScheduler" where
  "sch_CompleteTask t status s = s\<lparr>sch_tasks := (sch_tasks s)(t := ft_Complete status (sch_tasks s t))\<rparr>"

section \<open>What a batch contains\<close>

lemma sch_fill_extends:
  "\<exists>ts k' fg' bg'. sch_fill n l batch k fg bg = (batch @ ts, k', fg', bg')"
proof (induction "n - length batch" arbitrary: batch k fg bg rule: less_induct)
  case less
  have step: "\<exists>ts k' fg' bg'. sch_fill n l (batch @ [t]) j f b = (batch @ ts, k', fg', bg')"
    if "length batch < n" for t j f b
  proof -
    have "n - length (batch @ [t]) < n - length batch" using that by simp
    from less [OF this, of j f b] show ?thesis by auto
  qed
  show ?case by (subst sch_fill.simps) (auto intro: step)
qed

text \<open>The batch takes a prefix of each queue, and as much as it may.\<close>

lemma sch_fill_prefix:
  assumes "sch_fill n l batch k fg bg = (batch', k', fg', bg')"
    "\<forall>t \<in> set fg. \<not> owned t" "\<forall>t \<in> set bg. owned t"
  shows "\<exists>ts. batch' = batch @ ts \<and> filter (\<lambda>t. \<not> owned t) ts @ fg' = fg \<and> filter owned ts @ bg' = bg \<and>
    length ts = min (n - length batch) (length fg + length bg)"
  using assms
proof (induction n l batch k fg bg rule: sch_fill.induct)
  case (1 n l batch k fg bg)
  show ?case
  proof (cases "length batch < n")
    case False
    then show ?thesis using "1.prems"(1) by (simp add: sch_fill.simps)
  next
    case n: True
    consider (background) t bg2 where "bg = t # bg2" "ShouldServeBackground bg l k \<or> fg = []"
      | (foreground) t fg2 where "fg = t # fg2" "\<not> ShouldServeBackground bg l k"
      | (stop) "fg = []" "bg = []"
      by (cases fg; cases bg) (auto simp: ShouldServeBackground_def)
    then show ?thesis
    proof cases
      case (background t bg2)
      have eq: "sch_fill n l batch k fg bg = sch_fill n l (batch @ [t]) 0 fg bg2"
        using n background by (subst sch_fill.simps) auto
      have "\<exists>ts. batch' = (batch @ [t]) @ ts \<and> filter (\<lambda>t. \<not> owned t) ts @ fg' = fg \<and>
          filter owned ts @ bg' = bg2 \<and> length ts = min (n - length (batch @ [t])) (length fg + length bg2)"
        using "1.IH"(1,3) n background "1.prems" unfolding eq by (cases "ShouldServeBackground bg l k") auto
      then obtain ts where "batch' = batch @ t # ts" "filter (\<lambda>t. \<not> owned t) ts @ fg' = fg"
        "filter owned ts @ bg' = bg2" "length ts = min (n - Suc (length batch)) (length fg + length bg2)" by auto
      then show ?thesis using background "1.prems"(3) n by (intro exI [of _ "t # ts"]) auto
    next
      case (foreground t fg2)
      have eq: "sch_fill n l batch k fg bg = sch_fill n l (batch @ [t]) (k + 1) fg2 bg"
        using n foreground by (subst sch_fill.simps) auto
      have "\<exists>ts. batch' = (batch @ [t]) @ ts \<and> filter (\<lambda>t. \<not> owned t) ts @ fg' = fg2 \<and>
          filter owned ts @ bg' = bg \<and> length ts = min (n - length (batch @ [t])) (length fg2 + length bg)"
        using "1.IH"(2) n foreground "1.prems" unfolding eq by auto
      then obtain ts where "batch' = batch @ t # ts" "filter (\<lambda>t. \<not> owned t) ts @ fg' = fg2"
        "filter owned ts @ bg' = bg" "length ts = min (n - Suc (length batch)) (length fg2 + length bg)" by auto
      then show ?thesis using foreground "1.prems"(2) n by (intro exI [of _ "t # ts"]) auto
    next
      case stop
      then have "sch_fill n l batch k fg bg = (batch, k, fg, bg)"
        by (subst sch_fill.simps) (simp add: ShouldServeBackground_def)
      then show ?thesis using "1.prems"(1) stop by simp
    qed
  qed
qed

text \<open>The first task of the background queue is taken within the burst limit, or the batch ends before.\<close>

lemma sch_fill_serves:
  assumes "sch_fill n l batch k fg (t # bg) = (batch', k', fg', bg')" "t \<notin> set fg"
  shows "(\<exists>as cs. batch' = batch @ as @ t # cs \<and> length as \<le> unat l - unat k) \<or>
    (\<exists>as. batch' = batch @ as \<and> bg' = t # bg \<and> t \<notin> set as \<and> unat k' = unat k + length as \<and>
       length as \<le> unat l - unat k)"
  using assms
proof (induction "n - length batch" arbitrary: batch k fg rule: less_induct)
  case less
  show ?case
  proof (cases "length batch < n \<and> fg \<noteq> [] \<and> \<not> l \<le> k")
    case True
    then obtain f fg2 where fg: "fg = f # fg2" by (cases fg) auto
    have lk: "unat k < unat l" using True by (simp add: word_le_nat_alt)
    then have k1: "unat (k + 1) = unat k + 1"
      using unsigned_less [of l, where 'a = nat] by (simp add: unat_word_ariths)
    have step: "sch_fill n l batch k fg (t # bg) = sch_fill n l (batch @ [f]) (k + 1) fg2 (t # bg)"
      using True fg by (subst sch_fill.simps) (simp add: ShouldServeBackground_def)
    have "(\<exists>as cs. batch' = (batch @ [f]) @ as @ t # cs \<and> length as \<le> unat l - unat (k + 1)) \<or>
      (\<exists>as. batch' = (batch @ [f]) @ as \<and> bg' = t # bg \<and> t \<notin> set as \<and> unat k' = unat (k + 1) + length as \<and>
         length as \<le> unat l - unat (k + 1))"
      by (rule less.hyps [of "batch @ [f]" "k + 1" fg2]) (use less.prems True fg step in auto)
    then show ?thesis
    proof (elim disjE exE conjE)
      fix as cs assume "batch' = (batch @ [f]) @ as @ t # cs" "length as \<le> unat l - unat (k + 1)"
      then have "batch' = batch @ (f # as) @ t # cs \<and> length (f # as) \<le> unat l - unat k"
        using lk k1 by simp
      then show ?thesis by blast
    next
      fix as assume "batch' = (batch @ [f]) @ as" "bg' = t # bg" "t \<notin> set as"
        "unat k' = unat (k + 1) + length as" "length as \<le> unat l - unat (k + 1)"
      then have "batch' = batch @ (f # as) \<and> bg' = t # bg \<and> t \<notin> set (f # as) \<and>
          unat k' = unat k + length (f # as) \<and> length (f # as) \<le> unat l - unat k"
        using lk k1 fg less.prems(2) by auto
      then show ?thesis by blast
    qed
  next
    case False
    show ?thesis
    proof (cases "length batch < n")
      case True
      then have "sch_fill n l batch k fg (t # bg) = sch_fill n l (batch @ [t]) 0 fg bg"
        using False by (subst sch_fill.simps) (auto simp: ShouldServeBackground_def)
      moreover obtain ts where "batch' = (batch @ [t]) @ ts"
        using sch_fill_extends [of n l "batch @ [t]" 0 fg bg] less.prems(1) calculation by auto
      ultimately have "batch' = batch @ [] @ t # ts \<and> length [] \<le> unat l - unat k" by simp
      then show ?thesis by blast
    next
      case False
      then show ?thesis using less.prems(1) by (simp add: sch_fill.simps)
    qed
  qed
qed

section \<open>Any number of workers\<close>

text \<open>
  The scheduler with the tasks accepted so far, those taken by workers and those completed,
  each in order.  A task is enqueued once and a worker completes only tasks it has taken.
\<close>

inductive sch_reach :: "FlushScheduler \<Rightarrow> nat list \<Rightarrow> nat list \<Rightarrow> nat list \<Rightarrow> bool" where
  start: "\<forall>t. \<not> ft_completed (tasks t) \<Longrightarrow>
    sch_reach ((sch_create workers batch limit)\<lparr>sch_tasks := tasks\<rparr>) [] [] []"
| started: "sch_reach s A T C \<Longrightarrow> sch_Start ok s = (r, s') \<Longrightarrow> sch_reach s' A T C"
| enqueue: "sch_reach s A T C \<Longrightarrow> t \<notin> set A \<Longrightarrow> sch_Enqueue (Some t) s = (Ok, s') \<Longrightarrow>
    sch_reach s' (A @ [t]) T C"
| take: "sch_reach s A T C \<Longrightarrow> sch_TakeNextBatch w s = Some (b, s') \<Longrightarrow>
    sch_reach s' A (T @ fb_tasks b) C"
| complete: "sch_reach s A T C \<Longrightarrow> t \<in> set T \<Longrightarrow> t \<notin> set C \<Longrightarrow>
    sch_reach (sch_CompleteTask t st s) A T (C @ [t])"
| shut: "sch_reach s A T C \<Longrightarrow> sch_reach (sch_Shutdown s) A T C"
| joined: "sch_reach s A T C \<Longrightarrow> sch_reach (sch_Joined s) A T C"

abbreviation sch_owned :: "FlushScheduler \<Rightarrow> nat \<Rightarrow> bool" where
  "sch_owned s \<equiv> \<lambda>t. ft_cleaner_owned (sch_tasks s t)"

definition sch_inv :: "FlushScheduler \<Rightarrow> nat list \<Rightarrow> nat list \<Rightarrow> nat list \<Rightarrow> bool" where
  "sch_inv s A T C \<longleftrightarrow>
     distinct A \<and> filter (\<lambda>t. \<not> sch_owned s t) T @ sch_foreground_queue s = filter (\<lambda>t. \<not> sch_owned s t) A \<and>
     filter (sch_owned s) T @ sch_background_queue s = filter (sch_owned s) A \<and>
     distinct C \<and> set C \<subseteq> set T \<and> (\<forall>t. ft_completed (sch_tasks s t) \<longleftrightarrow> t \<in> set C)"

lemma sch_inv_members:
  assumes "sch_inv s A T C"
  shows "set T \<subseteq> set A"
    and "\<forall>t \<in> set (sch_foreground_queue s). \<not> sch_owned s t"
    and "\<forall>t \<in> set (sch_background_queue s). sch_owned s t"
proof -
  let ?O = "sch_owned s"
  have f: "set (filter (\<lambda>t. \<not> ?O t) T) \<union> set (sch_foreground_queue s) = set (filter (\<lambda>t. \<not> ?O t) A)"
    and b: "set (filter ?O T) \<union> set (sch_background_queue s) = set (filter ?O A)"
    using assms unfolding sch_inv_def by (metis set_append)+
  show "set T \<subseteq> set A" using f b by auto
  show "\<forall>t \<in> set (sch_foreground_queue s). \<not> ?O t" using f by auto
  show "\<forall>t \<in> set (sch_background_queue s). ?O t" using b by auto
qed

lemma sch_inv_take:
  assumes "sch_inv s A T C" "sch_TakeNextBatch w s = Some (b, s')"
  shows "sch_inv s' A (T @ fb_tasks b) C"
proof (cases "sch_foreground_queue s = [] \<and> sch_background_queue s = []")
  case True
  then have "s' = s" "fb_tasks b = []" using assms(2) by (auto simp: sch_TakeNextBatch_def split: if_splits)
  then show ?thesis using assms(1) by simp
next
  case False
  obtain ts k fg bg where fill: "sch_fill (unat (sch_submit_batch_size s)) (sch_foreground_burst_limit s) []
      (sch_consecutive s w) (sch_foreground_queue s) (sch_background_queue s) = (ts, k, fg, bg)"
    by (metis prod_cases4)
  have s': "fb_tasks b = ts" "s' = s\<lparr>sch_foreground_queue := fg, sch_background_queue := bg,
      sch_consecutive := (sch_consecutive s)(w := k)\<rparr>"
    using assms(2) False fill by (auto simp: sch_TakeNextBatch_def split: if_splits)
  have "filter (\<lambda>t. \<not> sch_owned s t) ts @ fg = sch_foreground_queue s"
    "filter (sch_owned s) ts @ bg = sch_background_queue s"
    using sch_fill_prefix [OF fill sch_inv_members(2,3) [OF assms(1)]] by auto
  then show ?thesis using assms(1) unfolding sch_inv_def s' by auto
qed

lemma sch_reach_inv: "sch_reach s A T C \<Longrightarrow> sch_inv s A T C"
proof (induction rule: sch_reach.induct)
  case (start tasks workers batch limit)
  then show ?case by (simp add: sch_inv_def sch_create_def)
next
  case (started s A T C ok r s')
  then show ?case by (auto simp: sch_inv_def sch_Start_def split: if_splits)
next
  case (enqueue s A T C t s')
  then show ?case by (auto simp: sch_inv_def sch_Enqueue_def split: if_splits)
next
  case (take s A T C w b s')
  then show ?case by (simp add: sch_inv_take)
next
  case (complete s A T C t st)
  have "sch_owned (sch_CompleteTask t st s) u = sch_owned s u"
    "ft_completed (sch_tasks (sch_CompleteTask t st s) u) \<longleftrightarrow> u = t \<or> ft_completed (sch_tasks s u)" for u
    by (simp_all add: sch_CompleteTask_def ft_Complete_def)
  moreover have "sch_foreground_queue (sch_CompleteTask t st s) = sch_foreground_queue s"
    "sch_background_queue (sch_CompleteTask t st s) = sch_background_queue s"
    by (simp_all add: sch_CompleteTask_def)
  ultimately show ?case using complete unfolding sch_inv_def by auto
next
  case (shut s A T C)
  then show ?case by (simp add: sch_inv_def sch_Shutdown_def)
next
  case (joined s A T C)
  then show ?case by (simp add: sch_inv_def sch_Joined_def)
qed

section \<open>Draining\<close>

text \<open>A worker that takes batches until it is told to stop, with the batches it took.\<close>

fun sch_drain :: "nat \<Rightarrow> nat \<Rightarrow> FlushScheduler \<Rightarrow> (nat list \<times> FlushScheduler) option" where
  "sch_drain 0 w s = None"
| "sch_drain (Suc n) w s =
     (case sch_TakeNextBatch w s of
        None \<Rightarrow> None
      | Some (b, s') \<Rightarrow>
          if fb_tasks b = [] \<and> fb_should_stop b then Some ([], s')
          else map_option (\<lambda>(ts, s''). (fb_tasks b @ ts, s'')) (sch_drain n w s'))"

definition sch_waiting :: "FlushScheduler \<Rightarrow> nat" where
  "sch_waiting s = length (sch_foreground_queue s) + length (sch_background_queue s)"

lemma sch_take_progress:
  assumes inv: "sch_inv s A T C" and batch: "0 < unat (sch_submit_batch_size s)" and some: "0 < sch_waiting s"
  obtains b s' where "sch_TakeNextBatch w s = Some (b, s')" "fb_tasks b \<noteq> []"
    "length (fb_tasks b) = min (unat (sch_submit_batch_size s)) (sch_waiting s)"
    "sch_waiting s' + length (fb_tasks b) = sch_waiting s"
    "sch_shutdown s' = sch_shutdown s" "sch_submit_batch_size s' = sch_submit_batch_size s"
proof -
  obtain ts k fg bg where fill: "sch_fill (unat (sch_submit_batch_size s)) (sch_foreground_burst_limit s) []
      (sch_consecutive s w) (sch_foreground_queue s) (sch_background_queue s) = (ts, k, fg, bg)"
    by (metis prod_cases4)
  let ?s = "s\<lparr>sch_foreground_queue := fg, sch_background_queue := bg,
      sch_consecutive := (sch_consecutive s)(w := k)\<rparr>"
  have ts: "filter (\<lambda>t. \<not> sch_owned s t) ts @ fg = sch_foreground_queue s"
    "filter (sch_owned s) ts @ bg = sch_background_queue s"
    "length ts = min (unat (sch_submit_batch_size s)) (sch_waiting s)"
    using sch_fill_prefix [OF fill sch_inv_members(2,3) [OF inv]] by (auto simp: sch_waiting_def)
  have take: "sch_TakeNextBatch w s = Some (\<lparr>fb_tasks = ts, fb_should_stop = False\<rparr>, ?s)"
    using some fill by (auto simp: sch_TakeNextBatch_def sch_waiting_def)
  have "length ts = length (filter (\<lambda>t. \<not> sch_owned s t) ts) + length (filter (sch_owned s) ts)"
    using sum_length_filter_compl [of "sch_owned s" ts] by simp
  then have "sch_waiting ?s + length ts = sch_waiting s"
    using arg_cong [OF ts(1), of length] arg_cong [OF ts(2), of length] by (simp add: sch_waiting_def)
  moreover have "ts \<noteq> []" using ts(3) batch some by auto
  ultimately show thesis using that [OF take] ts(3) by simp
qed

lemma sch_drain_all:
  assumes "sch_reach s A T C" "sch_shutdown s" "0 < unat (sch_submit_batch_size s)" "sch_waiting s < n"
  shows "\<exists>ts s'. sch_drain n w s = Some (ts, s') \<and> sch_reach s' A (T @ ts) C \<and> sch_waiting s' = 0"
  using assms
proof (induction n arbitrary: s T)
  case 0
  then show ?case by simp
next
  case (Suc n)
  note inv = sch_reach_inv [OF Suc.prems(1)]
  show ?case
  proof (cases "sch_waiting s = 0")
    case True
    then have "sch_TakeNextBatch w s = Some (\<lparr>fb_tasks = [], fb_should_stop = True\<rparr>, s)"
      using Suc.prems(2) by (simp add: sch_TakeNextBatch_def sch_waiting_def)
    then show ?thesis using Suc.prems(1) True by simp
  next
    case False
    obtain b s1 where b: "sch_TakeNextBatch w s = Some (b, s1)" "fb_tasks b \<noteq> []"
      "sch_waiting s1 + length (fb_tasks b) = sch_waiting s" "sch_shutdown s1 = sch_shutdown s"
      "sch_submit_batch_size s1 = sch_submit_batch_size s"
      using sch_take_progress [OF inv Suc.prems(3)] False by (metis neq0_conv)
    have "sch_waiting s1 < n" using b(2,3) Suc.prems(4) by (cases "fb_tasks b") auto
    then obtain ts s' where "sch_drain n w s1 = Some (ts, s')" "sch_reach s' A ((T @ fb_tasks b) @ ts) C"
      "sch_waiting s' = 0"
      using Suc.IH [of s1 "T @ fb_tasks b"] sch_reach.take [OF Suc.prems(1) b(1)] Suc.prems b by auto
    then show ?thesis using b by simp
  qed
qed

section \<open>Properties\<close>





text \<open>
  C24.  Shutting down loses no task: after \<open>Shutdown\<close> a worker that keeps taking batches of
  at least one task reaches the end of its loop, within as many rounds as tasks wait and
  one more, and by then every task ever accepted has been taken.
\<close>

theorem shutdown_drains:
  assumes "sch_reach s A T C" "sch_shutdown s" "0 < unat (sch_submit_batch_size s)"
  shows "\<exists>ts s'. sch_drain (Suc (sch_waiting s)) w s = Some (ts, s') \<and> sch_reach s' A (T @ ts) C \<and>
    set (T @ ts) = set A \<and> sch_foreground_queue s' = [] \<and> sch_background_queue s' = []"
proof -
  obtain ts s' where d: "sch_drain (Suc (sch_waiting s)) w s = Some (ts, s')" "sch_reach s' A (T @ ts) C"
    "sch_waiting s' = 0" using sch_drain_all [OF assms, of "Suc (sch_waiting s)" w] by auto
  have q: "sch_foreground_queue s' = []" "sch_background_queue s' = []"
    using d(3) by (auto simp: sch_waiting_def)
  have "set A \<subseteq> set (T @ ts)"
  proof
    fix t assume t: "t \<in> set A"
    have eq: "filter (\<lambda>t. \<not> sch_owned s' t) A = filter (\<lambda>t. \<not> sch_owned s' t) (T @ ts)"
      "filter (sch_owned s') A = filter (sch_owned s') (T @ ts)"
      using sch_reach_inv [OF d(2)] q by (simp_all add: sch_inv_def)
    have "t \<in> set (filter (\<lambda>t. \<not> sch_owned s' t) A) \<or> t \<in> set (filter (sch_owned s') A)"
      using t by auto
    then show "t \<in> set (T @ ts)" unfolding eq by auto
  qed
  then show ?thesis using d q sch_inv_members(1) [OF sch_reach_inv [OF d(2)]] by blast
qed

lemma shutdown_drains_witness:
  "\<exists>s ts s'. sch_reach s [7] [] [] \<and> sch_drain 2 0 s = Some (ts, s') \<and> set ts = {7}"
proof -
  let ?s = "(sch_create 1 2 3)\<lparr>sch_workers := 1, sch_started := True\<rparr>"
  let ?q = "?s\<lparr>sch_foreground_queue := [7]\<rparr>"
  let ?r = "?q\<lparr>sch_shutdown := True\<rparr>"
  have "sch_reach (sch_create 1 2 3) [] [] []"
    using sch_reach.start [of "\<lambda>_. ft_default" 1 2 3] by (simp add: sch_create_def ft_default_def)
  then have "sch_reach ?s [] [] []"
    using sch_reach.started [of "sch_create 1 2 3" "[]" "[]" "[]" True Ok ?s] by (simp add: sch_Start_def sch_create_def)
  then have "sch_reach ?q [7] [] []"
    using sch_reach.enqueue [of ?s "[]" "[]" "[]" 7 ?q] by (simp add: sch_Enqueue_def sch_create_def ft_default_def)
  then have r: "sch_reach ?r [7] [] []"
    using sch_reach.shut [of ?q "[7]" "[]" "[]"] by (simp add: sch_Shutdown_def)
  have w: "Suc (sch_waiting ?r) = 2" by (simp add: sch_waiting_def sch_create_def)
  show ?thesis using shutdown_drains [OF r, of 0] r unfolding w by (auto simp: sch_create_def)
qed

end
