(* ===== verification/Cleaner_Controller.thy ===== *)
theory Cleaner_Controller
  imports Status
begin

text \<open>
  \<^verbatim>\<open>buffer/cleaner_controller.h\<close> and \<^verbatim>\<open>.cc\<close>: the queue of frames that the background cleaner
  may write back, with a generation per frame that makes entries of the past stale, and the
  loop of the cleaner thread.  The queue refines a queue of distinct frames from which any
  frame can be withdrawn.
\<close>

section \<open>The controller\<close>

record CleanerController =
  cl_pool_size :: nat
  cl_dirty_page_high_watermark :: size_t
  cl_dirty_page_low_watermark :: size_t
  cl_inflight_flushes :: size_t
  cl_candidate_queue :: "(FrameId \<times> u64) list"
  cl_candidate_enqueued :: "FrameId \<Rightarrow> bool"
  cl_candidate_generations :: "FrameId \<Rightarrow> u64"
  cl_shutdown :: bool
  cl_started :: bool

definition cl_create :: "nat \<Rightarrow> size_t \<Rightarrow> size_t \<Rightarrow> CleanerController" where
  "cl_create pool_size high low =
     \<lparr>cl_pool_size = pool_size, cl_dirty_page_high_watermark = high, cl_dirty_page_low_watermark = low,
      cl_inflight_flushes = 0, cl_candidate_queue = [], cl_candidate_enqueued = (\<lambda>_. False),
      cl_candidate_generations = (\<lambda>_. 0), cl_shutdown = False, cl_started = False\<rparr>"

text \<open>\<^verbatim>\<open>Start\<close>; whether the system can create the thread is an argument.\<close>

definition cl_Start :: "bool \<Rightarrow> CleanerController \<Rightarrow> Status \<times> CleanerController" where
  "cl_Start thread_starts s =
     (if cl_started s then (Ok, s)
      else if \<not> thread_starts then (Inl (Unavailable ''failed to start background cleaner'' 0), s)
      else (Ok, s\<lparr>cl_started := True\<rparr>))"

text \<open>\<^verbatim>\<open>Shutdown\<close> with the join of the thread, which leaves its loop as soon as it sees the flag.\<close>

definition cl_Shutdown :: "CleanerController \<Rightarrow> CleanerController" where
  "cl_Shutdown s = (if \<not> cl_started s then s else s\<lparr>cl_shutdown := True, cl_started := False\<rparr>)"

definition cl_ResetCandidate :: "FrameId \<Rightarrow> CleanerController \<Rightarrow> CleanerController" where
  "cl_ResetCandidate frame_id s =
     (if unat frame_id \<ge> cl_pool_size s then s
      else s\<lparr>cl_candidate_enqueued := (cl_candidate_enqueued s)(frame_id := False),
             cl_candidate_generations :=
               (cl_candidate_generations s)(frame_id := cl_candidate_generations s frame_id + 1)\<rparr>)"

definition cl_EnqueueCandidate :: "FrameId \<Rightarrow> CleanerController \<Rightarrow> CleanerController" where
  "cl_EnqueueCandidate frame_id s =
     (if unat frame_id \<ge> cl_pool_size s then s
      else if cl_candidate_enqueued s frame_id then s
      else s\<lparr>cl_candidate_enqueued := (cl_candidate_enqueued s)(frame_id := True),
             cl_candidate_queue :=
               cl_candidate_queue s @ [(frame_id, cl_candidate_generations s frame_id)]\<rparr>)"

definition cl_OnFlushScheduled :: "CleanerController \<Rightarrow> CleanerController" where
  "cl_OnFlushScheduled s = s\<lparr>cl_inflight_flushes := cl_inflight_flushes s + 1\<rparr>"

definition cl_OnFlushFinished :: "CleanerController \<Rightarrow> CleanerController" where
  "cl_OnFlushFinished s =
     (if cl_inflight_flushes s > 0 then s\<lparr>cl_inflight_flushes := cl_inflight_flushes s - 1\<rparr> else s)"

text \<open>The counter is shared with the buffer manager; a null pointer counts as zero.\<close>

definition cl_DirtyPageCount :: "size_t option \<Rightarrow> size_t" where
  "cl_DirtyPageCount dirty_page_count = (case dirty_page_count of None \<Rightarrow> 0 | Some n \<Rightarrow> n)"

definition cl_valid :: "CleanerController \<Rightarrow> FrameId \<times> u64 \<Rightarrow> bool" where
  "cl_valid s c \<longleftrightarrow> unat (fst c) < cl_pool_size s \<and> cl_candidate_enqueued s (fst c) \<and>
     cl_candidate_generations s (fst c) = snd c"

text \<open>The loop pops entries until one is valid.\<close>

fun cl_take :: "(FrameId \<times> u64 \<Rightarrow> bool) \<Rightarrow> (FrameId \<times> u64) list \<Rightarrow> FrameId option \<times> (FrameId \<times> u64) list" where
  "cl_take valid [] = (None, [])"
| "cl_take valid (c # cs) = (if \<not> valid c then cl_take valid cs else (Some (fst c), cs))"

definition cl_TakeCandidate :: "CleanerController \<Rightarrow> FrameId option \<times> CleanerController" where
  "cl_TakeCandidate s =
     (let (r, queue) = cl_take (cl_valid s) (cl_candidate_queue s);
          s = s\<lparr>cl_candidate_queue := queue\<rparr>
      in case r of
           None \<Rightarrow> (None, s)
         | Some f \<Rightarrow> (Some f, s\<lparr>cl_candidate_enqueued := (cl_candidate_enqueued s)(f := False)\<rparr>))"

section \<open>The loop of the cleaner thread\<close>

text \<open>
  How a pass of the loop ends: the thread returns, sleeps on the condition variable, goes
  round again without sleeping, or has a frame to schedule.
\<close>

datatype CleanerPass = CleanerStops | CleanerSleeps | CleanerRetries | CleanerSchedules FrameId

definition cl_flush_budget :: "size_t \<Rightarrow> CleanerController \<Rightarrow> size_t" where
  "cl_flush_budget dirty_snapshot s =
     (if dirty_snapshot > cl_dirty_page_low_watermark s
      then dirty_snapshot - cl_dirty_page_low_watermark s else 0)"

text \<open>
  One pass, with the callback that seeds the queue.  Both waits are on conditions that the
  pass tests again, so sleeping in either is the same outcome.
\<close>

definition cl_Run :: "(CleanerController \<Rightarrow> CleanerController) \<Rightarrow> size_t option \<Rightarrow> CleanerController
    \<Rightarrow> CleanerPass \<times> CleanerController" where
  "cl_Run on_seed dirty_page_count s =
     (if cl_shutdown s then (CleanerStops, s)
      else let dirty_snapshot = cl_DirtyPageCount dirty_page_count in
        if dirty_snapshot < cl_dirty_page_high_watermark s then (CleanerSleeps, s)
        else let flush_budget = cl_flush_budget dirty_snapshot s in
          if flush_budget = 0 then (CleanerRetries, s)
          else if cl_inflight_flushes s \<ge> flush_budget then (CleanerSleeps, s)
          else let s = (if cl_candidate_queue s = [] then on_seed s else s) in
            if cl_candidate_queue s = [] then (CleanerRetries, s)
            else case cl_TakeCandidate s of
              (None, s) \<Rightarrow> (CleanerRetries, s)
            | (Some f, s) \<Rightarrow> (CleanerSchedules f, s))"

section \<open>The queue of candidates\<close>

text \<open>The frames that wait, first to be taken first.\<close>

definition cl_live :: "CleanerController \<Rightarrow> FrameId list" where
  "cl_live s = map fst (filter (cl_valid s) (cl_candidate_queue s))"

text \<open>
  A frame that is marked as enqueued has one valid entry, another frame none, and no entry
  is from a later generation than the frame's.
\<close>

definition cl_inv :: "CleanerController \<Rightarrow> bool" where
  "cl_inv s \<longleftrightarrow>
     (\<forall>c \<in> set (cl_candidate_queue s). snd c \<le> cl_candidate_generations s (fst c)) \<and>
     distinct (cl_live s) \<and>
     (\<forall>f. cl_candidate_enqueued s f \<longrightarrow> f \<in> set (cl_live s)) \<and>
     (\<forall>f. \<not> cl_candidate_enqueued s f \<longrightarrow> (f, cl_candidate_generations s f) \<notin> set (cl_candidate_queue s))"

lemma cl_take_none: "filter P cs = [] \<Longrightarrow> cl_take P cs = (None, [])"
  by (induction cs) (auto split: if_splits)

lemma cl_take_some: "\<forall>a \<in> set as. \<not> P a \<Longrightarrow> P c \<Longrightarrow> cl_take P (as @ c # bs) = (Some (fst c), bs)"
  by (induction as) auto

lemma cl_live_enqueued: "f \<in> set (cl_live s) \<Longrightarrow> cl_candidate_enqueued s f \<and> unat f < cl_pool_size s"
  by (auto simp: cl_live_def cl_valid_def)

lemma cl_create_inv: "cl_inv (cl_create n high low)"
  by (simp add: cl_inv_def cl_create_def cl_live_def)

lemma cl_Enqueue_live:
  assumes "cl_inv s"
  shows "cl_inv (cl_EnqueueCandidate f s)"
    and "cl_live (cl_EnqueueCandidate f s) =
      (if unat f < cl_pool_size s \<and> f \<notin> set (cl_live s) then cl_live s @ [f] else cl_live s)"
proof -
  let ?s = "cl_EnqueueCandidate f s"
  have eq: "cl_live ?s = (if unat f < cl_pool_size s \<and> f \<notin> set (cl_live s) then cl_live s @ [f] else cl_live s)
      \<and> cl_inv ?s"
  proof (cases "unat f < cl_pool_size s \<and> \<not> cl_candidate_enqueued s f")
    case False
    then have "?s = s" by (auto simp: cl_EnqueueCandidate_def)
    moreover have "f \<in> set (cl_live s)" if "cl_candidate_enqueued s f" using assms that by (simp add: cl_inv_def)
    ultimately show ?thesis using False assms by auto
  next
    case True
    let ?g = "cl_candidate_generations s f"
    have none: "(f, ?g) \<notin> set (cl_candidate_queue s)" using assms True by (simp add: cl_inv_def)
    have s: "?s = s\<lparr>cl_candidate_enqueued := (cl_candidate_enqueued s)(f := True),
        cl_candidate_queue := cl_candidate_queue s @ [(f, ?g)]\<rparr>"
      using True by (simp add: cl_EnqueueCandidate_def)
    have "filter (cl_valid ?s) (cl_candidate_queue s) = filter (cl_valid s) (cl_candidate_queue s)"
      using none True by (intro filter_cong refl) (auto simp: cl_valid_def s)
    then have live: "cl_live ?s = cl_live s @ [f]"
      using True by (simp add: cl_live_def s cl_valid_def)
    moreover have "f \<notin> set (cl_live s)" using True cl_live_enqueued by blast
    moreover have "cl_inv ?s"
      using assms True calculation unfolding cl_inv_def live by (auto simp: s)
    ultimately show ?thesis using True by simp
  qed
  then show "cl_inv ?s" "cl_live ?s =
      (if unat f < cl_pool_size s \<and> f \<notin> set (cl_live s) then cl_live s @ [f] else cl_live s)" by simp_all
qed

lemma cl_Reset_live:
  assumes "cl_inv s" "cl_candidate_generations s f \<noteq> - 1"
  shows "cl_inv (cl_ResetCandidate f s)"
    and "cl_live (cl_ResetCandidate f s) = (if unat f < cl_pool_size s then filter (\<lambda>g. g \<noteq> f) (cl_live s) else cl_live s)"
proof -
  let ?s = "cl_ResetCandidate f s"
  have "cl_inv ?s \<and> cl_live ?s = filter (\<lambda>g. g \<noteq> f) (cl_live s)" if f: "unat f < cl_pool_size s"
  proof -
    let ?g = "cl_candidate_generations s f"
    have s: "?s = s\<lparr>cl_candidate_enqueued := (cl_candidate_enqueued s)(f := False),
        cl_candidate_generations := (cl_candidate_generations s)(f := ?g + 1)\<rparr>"
      using f by (simp add: cl_ResetCandidate_def)
    have valid: "cl_valid ?s c \<longleftrightarrow> cl_valid s c \<and> fst c \<noteq> f" for c
      by (auto simp: cl_valid_def s)
    have "cl_valid ?s = (\<lambda>c. cl_valid s c \<and> fst c \<noteq> f)" by (simp add: valid fun_eq_iff)
    then have "filter (cl_valid ?s) (cl_candidate_queue s) = filter (\<lambda>c. fst c \<noteq> f) (filter (cl_valid s) (cl_candidate_queue s))"
      by simp
    then have live: "cl_live ?s = filter (\<lambda>g. g \<noteq> f) (cl_live s)"
      by (simp add: cl_live_def filter_map o_def) (simp add: s)
    have "1 + ?g \<noteq> 0" using assms(2) by (simp add: add.commute [of 1] flip: eq_neg_iff_add_eq_0)
    then have up: "?g < ?g + 1" using unatSuc [of ?g] by (simp add: word_less_nat_alt add.commute)
    have later: "snd c \<le> cl_candidate_generations ?s (fst c)" if "c \<in> set (cl_candidate_queue s)" for c
      using assms(1) that up by (cases "fst c = f") (auto simp: cl_inv_def s)
    have "(f, ?g + 1) \<notin> set (cl_candidate_queue s)"
    proof
      assume "(f, ?g + 1) \<in> set (cl_candidate_queue s)"
      then have "?g + 1 \<le> ?g" using assms(1) unfolding cl_inv_def by fastforce
      with up show False by simp
    qed
    then show ?thesis using assms(1) later unfolding cl_inv_def live by (auto simp: s)
  qed
  moreover have "?s = s" if "\<not> unat f < cl_pool_size s" using that by (simp add: cl_ResetCandidate_def)
  ultimately show "cl_inv ?s"
    "cl_live ?s = (if unat f < cl_pool_size s then filter (\<lambda>g. g \<noteq> f) (cl_live s) else cl_live s)"
    using assms(1) by (cases "unat f < cl_pool_size s"; simp)+
qed

lemma cl_Take_live:
  assumes "cl_inv s"
  shows "cl_inv (snd (cl_TakeCandidate s))"
    and "fst (cl_TakeCandidate s) = (case cl_live s of [] \<Rightarrow> None | f # _ \<Rightarrow> Some f)"
    and "cl_live (snd (cl_TakeCandidate s)) = tl (cl_live s)"
proof -
  have "cl_inv (snd (cl_TakeCandidate s)) \<and>
    fst (cl_TakeCandidate s) = (case cl_live s of [] \<Rightarrow> None | f # _ \<Rightarrow> Some f) \<and>
    cl_live (snd (cl_TakeCandidate s)) = tl (cl_live s)"
  proof (cases "filter (cl_valid s) (cl_candidate_queue s)")
    case Nil
    then have "cl_TakeCandidate s = (None, s\<lparr>cl_candidate_queue := []\<rparr>)" "cl_live s = []"
      by (simp_all add: cl_TakeCandidate_def cl_take_none cl_live_def)
    then show ?thesis using assms by (auto simp: cl_inv_def cl_live_def)
  next
    case (Cons c ds)
    then obtain as bs where q: "cl_candidate_queue s = as @ c # bs" "\<forall>a \<in> set as. \<not> cl_valid s a"
      "cl_valid s c" "ds = filter (cl_valid s) bs" by (auto simp: filter_eq_Cons_iff)
    let ?f = "fst c"
    let ?s = "s\<lparr>cl_candidate_queue := bs, cl_candidate_enqueued := (cl_candidate_enqueued s)(?f := False)\<rparr>"
    have take: "cl_TakeCandidate s = (Some ?f, ?s)"
      using q by (simp add: cl_TakeCandidate_def cl_take_some)
    have live: "cl_live s = ?f # map fst ds" unfolding cl_live_def Cons by simp
    have nd: "?f \<notin> set (map fst ds)" "distinct (map fst ds)" using assms live by (simp_all add: cl_inv_def)
    have gone: "(?f, cl_candidate_generations s ?f) \<notin> set bs"
    proof
      assume "(?f, cl_candidate_generations s ?f) \<in> set bs"
      then have "(?f, cl_candidate_generations s ?f) \<in> set ds" using q(3,4) by (simp add: cl_valid_def)
      then have "?f \<in> fst ` set ds" by (rule rev_image_eqI) simp
      with nd(1) show False by simp
    qed
    have "cl_valid ?s x = cl_valid s x" if "x \<in> set bs" for x
    proof -
      have "x \<noteq> (?f, cl_candidate_generations s ?f)" using that gone by blast
      then show ?thesis unfolding cl_valid_def prod_eq_iff by auto
    qed
    then have "filter (cl_valid ?s) bs = ds" unfolding q(4) by (simp cong: filter_cong)
    then have live': "cl_live ?s = map fst ds" by (simp add: cl_live_def)
    have old: "\<forall>c \<in> set bs. snd c \<le> cl_candidate_generations s (fst c)"
      "\<And>f. cl_candidate_enqueued s f \<Longrightarrow> f = ?f \<or> f \<in> set (map fst ds)"
      "\<And>f. \<not> cl_candidate_enqueued s f \<Longrightarrow> (f, cl_candidate_generations s f) \<notin> set bs"
      using assms unfolding cl_inv_def live q(1) by simp_all
    have "cl_inv ?s"
      unfolding cl_inv_def live' using old gone nd(2) by (simp del: set_map) metis
    then show ?thesis using take live live' by simp
  qed
  then show "cl_inv (snd (cl_TakeCandidate s))"
    "fst (cl_TakeCandidate s) = (case cl_live s of [] \<Rightarrow> None | f # _ \<Rightarrow> Some f)"
    "cl_live (snd (cl_TakeCandidate s)) = tl (cl_live s)" by simp_all
qed

section \<open>Any sequence of calls\<close>

text \<open>
  The states that the controller goes through.  A frame is reset fewer than \<open>2 ^ 64\<close> times,
  so its generation does not return to an earlier value.
\<close>

inductive cl_reach :: "CleanerController \<Rightarrow> bool" where
  start: "cl_reach (cl_create n high low)"
| started: "cl_reach s \<Longrightarrow> cl_Start ok s = (r, s') \<Longrightarrow> cl_reach s'"
| shut: "cl_reach s \<Longrightarrow> cl_reach (cl_Shutdown s)"
| reset: "cl_reach s \<Longrightarrow> cl_candidate_generations s f \<noteq> - 1 \<Longrightarrow> cl_reach (cl_ResetCandidate f s)"
| enqueue: "cl_reach s \<Longrightarrow> cl_reach (cl_EnqueueCandidate f s)"
| take: "cl_reach s \<Longrightarrow> cl_reach (snd (cl_TakeCandidate s))"
| scheduled: "cl_reach s \<Longrightarrow> cl_reach (cl_OnFlushScheduled s)"
| finished: "cl_reach s \<Longrightarrow> cl_reach (cl_OnFlushFinished s)"

lemma cl_inv_other:
  assumes "cl_candidate_queue s' = cl_candidate_queue s" "cl_candidate_enqueued s' = cl_candidate_enqueued s"
    "cl_candidate_generations s' = cl_candidate_generations s" "cl_pool_size s' = cl_pool_size s"
  shows "cl_inv s' = cl_inv s"
proof -
  have "cl_valid s' = cl_valid s" by (simp add: cl_valid_def assms fun_eq_iff)
  then show ?thesis by (simp add: cl_inv_def cl_live_def assms)
qed

lemma cl_reach_inv: "cl_reach s \<Longrightarrow> cl_inv s"
proof (induction rule: cl_reach.induct)
  case (started s ok r s')
  then have "cl_inv s' = cl_inv s" by (intro cl_inv_other) (auto simp: cl_Start_def split: if_splits)
  then show ?case using started by simp
next
  case (shut s)
  then show ?case using cl_inv_other [of "cl_Shutdown s" s] by (simp add: cl_Shutdown_def)
next
  case (scheduled s)
  then show ?case using cl_inv_other [of "cl_OnFlushScheduled s" s] by (simp add: cl_OnFlushScheduled_def)
next
  case (finished s)
  then show ?case using cl_inv_other [of "cl_OnFlushFinished s" s] by (simp add: cl_OnFlushFinished_def)
qed (simp_all add: cl_create_inv cl_Enqueue_live cl_Reset_live cl_Take_live)

section \<open>Properties\<close>

text \<open>
  C25.  The candidate queue with its generations refines a queue of distinct frames:
  enqueuing appends a frame unless it waits already, resetting withdraws it although its
  entry stays in the queue, and taking returns the first frame that waits, never one that
  was withdrawn, and reports that there is none only when none waits.
\<close>

theorem cleaner_queue_refines:
  assumes "cl_reach s" "unat f < cl_pool_size s" "cl_candidate_generations s f \<noteq> - 1"
  shows "distinct (cl_live s) \<and>
    cl_live (cl_EnqueueCandidate f s) = (if f \<in> set (cl_live s) then cl_live s else cl_live s @ [f]) \<and>
    cl_live (cl_ResetCandidate f s) = filter (\<lambda>g. g \<noteq> f) (cl_live s) \<and>
    fst (cl_TakeCandidate s) = (case cl_live s of [] \<Rightarrow> None | g # _ \<Rightarrow> Some g) \<and>
    cl_live (snd (cl_TakeCandidate s)) = tl (cl_live s)"
proof -
  note inv = cl_reach_inv [OF assms(1)]
  show ?thesis
    using inv cl_Enqueue_live(2) [OF inv, of f] cl_Reset_live(2) [OF inv assms(3)]
      cl_Take_live(2,3) [OF inv] assms(2) by (simp add: cl_inv_def)
qed

lemma cleaner_queue_refines_witness:
  "cl_live (cl_ResetCandidate 1 (cl_EnqueueCandidate 2 (cl_EnqueueCandidate 1 (cl_create 4 3 1)))) = [2] \<and>
   fst (cl_TakeCandidate (cl_ResetCandidate 1 (cl_EnqueueCandidate 2 (cl_EnqueueCandidate 1 (cl_create 4 3 1))))) = Some 2"
proof -
  let ?s = "cl_EnqueueCandidate 2 (cl_EnqueueCandidate 1 (cl_create 4 3 1))"
  have s: "cl_reach ?s" by (rule cl_reach.enqueue, rule cl_reach.enqueue, rule cl_reach.start)
  have p: "cl_live ?s = [1, 2]" "cl_pool_size ?s = 4" "cl_candidate_generations ?s = (\<lambda>_. 0)"
    by (simp_all add: cl_EnqueueCandidate_def cl_create_def cl_live_def cl_valid_def)
  have one: "cl_live (cl_ResetCandidate 1 ?s) = [2]"
    using cleaner_queue_refines [OF s, of 1] unfolding p by simp
  have r: "cl_reach (cl_ResetCandidate 1 ?s)" using s p by (intro cl_reach.reset) simp_all
  have "cl_pool_size (cl_ResetCandidate 1 ?s) = 4" "cl_candidate_generations (cl_ResetCandidate 1 ?s) 2 = 0"
    using p by (simp_all add: cl_ResetCandidate_def)
  then show ?thesis using cleaner_queue_refines [OF r, of 2] one by simp
qed



text \<open>
  The loop does not sleep when there is nothing it can schedule: with enough dirty pages,
  none of which can be seeded because each is pinned or being written back, every pass ends
  by going round again, in the same state.
\<close>

lemma cleaner_spins:
  assumes "\<not> cl_shutdown s" "cl_dirty_page_high_watermark s \<le> d" "cl_dirty_page_low_watermark s < d"
    "cl_inflight_flushes s < d - cl_dirty_page_low_watermark s" "cl_candidate_queue s = []" "on_seed s = s"
  shows "((\<lambda>(p, s). cl_Run on_seed (Some d) s) ^^ Suc n) (CleanerRetries, s) = (CleanerRetries, s)"
proof -
  have "d - cl_dirty_page_low_watermark s \<noteq> 0" using assms(3) by simp
  then have "cl_Run on_seed (Some d) s = (CleanerRetries, s)"
    using assms by (simp add: cl_Run_def cl_DirtyPageCount_def cl_flush_budget_def not_le [symmetric])
  then show ?thesis by (induction n) simp_all
qed

end
