(* ===== verification/Buffer_State.thy ===== *)
theory Buffer_State
  imports Frame_Control Page_Table Free_List Replacer_Spec Options Geometry Disk_Request
    Telemetry Flush_Scheduler Cleaner_Controller Io_Engine
begin

text \<open>
  The state of \<^verbatim>\<open>BufferManager\<close> (\<^verbatim>\<open>buffer/buffer_manager.h\<close>) and the operations on it that
  neither wait nor use the disk except to synchronise files: descriptors and tags, the hooks
  of the cleaner, the list of written files, the failed state, and the views of the pool
  (\<^verbatim>\<open>MinRecLsn\<close>, \<^verbatim>\<open>ExportSnapshot\<close>).

  One call of a client runs at a time; what races on a frame do is the subject of the frame
  theories.  The flush workers and the reaper run when a call waits (theory
  \<^verbatim>\<open>Buffer_Flush\<close>) and between calls.  An operation whose result is \<open>None\<close> waits for a thing that
  no background thread will do, for instance that another client releases a latch.
\<close>

section \<open>What the manager uses\<close>

text \<open>
  The disk as the manager uses it through its I/O engine: one or more blocks read into
  buffers, one block written, files synchronised, each submitted and waited for.  The theory
  \<^verbatim>\<open>Engine_Disk\<close> gives the disk made of \<^verbatim>\<open>Io_Engine\<close> and the POSIX backend.
\<close>

record 'd Disk =
  dk_read :: "BufferTag \<Rightarrow> u8 list list \<Rightarrow> 'd \<Rightarrow> (Status \<times> u8 list list \<times> 'd) option"
  dk_write :: "BufferTag \<Rightarrow> u8 list \<Rightarrow> 'd \<Rightarrow> (Status \<times> 'd) option"
  dk_sync :: "FileId list \<Rightarrow> 'd \<Rightarrow> (Status \<times> 'd) option"
  dk_shutdown :: "Status \<Rightarrow> 'd \<Rightarrow> 'd"
  dk_stop_status :: "'d \<Rightarrow> Status option"
  dk_capabilities :: DiskBackendCapabilities
  dk_max_request_blocks :: nat

text \<open>The disk, the replacer and the thread that calls.\<close>

record ('r, 'd) Env =
  en_disk :: "'d Disk"
  en_replacer :: "'r Replacer"
  en_thread :: nat

section \<open>State\<close>

record BufferDescriptor =
  bd_control :: u32
  bd_last_writeback_error :: u32
  bd_version :: u64
  bd_tag_file_id :: FileId
  bd_frame_id :: FrameId
  bd_tag_block_id :: BlockId
  bd_rec_lsn :: Lsn
  bd_writeback_rec_lsn :: Lsn
  bd_tenant_id :: u16
  bd_holder_slot :: u32

definition bd_default :: BufferDescriptor where
  "bd_default = \<lparr>bd_control = 0, bd_last_writeback_error = 0, bd_version = 0, bd_tag_file_id = 0,
     bd_frame_id = kInvalidFrameId, bd_tag_block_id = 0, bd_rec_lsn = kInvalidLsn,
     bd_writeback_rec_lsn = kInvalidLsn, bd_tenant_id = 0, bd_holder_slot = 0\<rparr>"

datatype ReadBufferMode = kNormalMode | kZeroAndLock

record FrameReservation =
  rs_frame_id :: FrameId
  rs_had_evicted_page :: bool
  rs_evicted_tag :: BufferTag

record ReservationCandidate =
  rc_frame_id :: FrameId
  rc_from_free_list :: bool

text \<open>Enumerators that other enumerations use as well carry a suffix.\<close>

datatype FrameReservationOutcome = kReservedF | kNeedsFlushF | kRejectedF | kTagExists

datatype ResidentProbe = kPinnedP | kLoadingP | kAbsent

datatype Slot = kPinnedS | kLoadingS | kFailedS | kDeferred

text \<open>
  Read operations and access strategies are objects of the client to which the manager
  keeps pointers: keys of the stores \<open>bm_operations\<close> and \<open>bm_strategies\<close>.
\<close>

record ReadBuffersState =
  rb_strategy :: "nat option"
  rb_tags :: "BufferTag list"
  rb_frames :: "FrameId list"
  rb_slots :: "Slot list"
  rb_waiter :: IoWaiter

record AsyncLoadEntry =
  ae_tag :: BufferTag
  ae_reservation :: FrameReservation
  ae_slot :: nat

record AsyncLoad =
  al_operation :: "nat option"
  al_entries :: "AsyncLoadEntry list"

text \<open>The shared list of written files of a segment.\<close>

record SharedWrittenFiles =
  sw_count :: u32
  sw_files :: "FileId list"

definition sw_kCapacity :: nat where
  "sw_kCapacity = 1024"

text \<open>
  The manager.  \<open>bm_this\<close> is its address, \<open>bm_segment\<close> the written files of its shared segment
  if it has one, \<open>bm_frames\<close> the memory of the frames, \<open>bm_next_task\<close> and \<open>bm_next_operation\<close> the
  addresses of the next task and the next read operation to be allocated, \<open>bm_events\<close> what the observer was told, and \<open>bm_loads\<close> the loads that
  the engine has accepted and not completed.
\<close>

record ('r, 'd) BufferManager =
  bm_this :: nat
  bm_pool_size :: size_t
  bm_geometry :: BlockGeometry
  bm_options :: BufferManagerOptions
  bm_segment :: "SharedWrittenFiles option"
  bm_disk :: 'd
  bm_replacer :: 'r
  bm_events :: "TelemetryEvent list"
  bm_failed :: bool
  bm_closed :: bool
  bm_failure :: "Error option"
  bm_frames :: "FrameId \<Rightarrow> u8 list"
  bm_flush_scheduler :: FlushScheduler
  bm_next_task :: nat
  bm_cleaner_controller :: "CleanerController option"
  bm_page_table :: PageTable
  bm_descriptors :: "FrameId \<Rightarrow> BufferDescriptor"
  bm_free_list :: FrameFreeList
  bm_observation :: bool
  bm_written_files :: "FileId list"
  bm_dirty_page_count :: size_t
  bm_prefetches_in_flight :: u32
  bm_loads :: "AsyncLoad list"
  bm_operations :: "nat \<Rightarrow> ReadBuffersState option"
  bm_next_operation :: nat
  bm_strategies :: "nat \<Rightarrow> BufferAccessStrategy"

abbreviation bm_size :: "('r, 'd) BufferManager \<Rightarrow> nat" where
  "bm_size s \<equiv> unat (bm_pool_size s)"

abbreviation bm_block_size :: "('r, 'd) BufferManager \<Rightarrow> nat" where
  "bm_block_size s \<equiv> unat (bg_block_size (bm_geometry s))"

section \<open>Descriptors\<close>

definition update_desc ::
  "FrameId \<Rightarrow> (BufferDescriptor \<Rightarrow> BufferDescriptor) \<Rightarrow> ('r, 'd) BufferManager \<Rightarrow> ('r, 'd) BufferManager" where
  "update_desc f g s = s\<lparr>bm_descriptors := (bm_descriptors s)(f := g (bm_descriptors s f))\<rparr>"

definition control :: "('r, 'd) BufferManager \<Rightarrow> FrameId \<Rightarrow> u32" where
  "control s f = bd_control (bm_descriptors s f)"

definition set_control :: "FrameId \<Rightarrow> u32 \<Rightarrow> ('r, 'd) BufferManager \<Rightarrow> ('r, 'd) BufferManager" where
  "set_control f w = update_desc f (\<lambda>d. d\<lparr>bd_control := w\<rparr>)"

definition LoadTag :: "BufferDescriptor \<Rightarrow> BufferTag" where
  "LoadTag descriptor = \<lparr>bt_file_id = bd_tag_file_id descriptor, bt_block_id = bd_tag_block_id descriptor\<rparr>"

definition StoreTag :: "BufferTag \<Rightarrow> BufferDescriptor \<Rightarrow> BufferDescriptor" where
  "StoreTag tag descriptor =
     descriptor\<lparr>bd_tag_file_id := bt_file_id tag, bd_tag_block_id := bt_block_id tag\<rparr>"

definition frame_tag :: "('r, 'd) BufferManager \<Rightarrow> FrameId \<Rightarrow> BufferTag" where
  "frame_tag s f = LoadTag (bm_descriptors s f)"

definition observe :: "TelemetryEvent list \<Rightarrow> ('r, 'd) BufferManager \<Rightarrow> ('r, 'd) BufferManager" where
  "observe events s = s\<lparr>bm_events := bm_events s @ events\<rparr>"

definition IsLoadingTag :: "('r, 'd) BufferManager \<Rightarrow> FrameId \<Rightarrow> BufferTag \<Rightarrow> bool" where
  "IsLoadingTag s frame_id tag \<longleftrightarrow> State (control s frame_id) = kLoading \<and> frame_tag s frame_id = tag"

definition IsLiveFor :: "('r, 'd) BufferManager \<Rightarrow> FrameId \<Rightarrow> BufferTag \<Rightarrow> bool" where
  "IsLiveFor s frame_id tag \<longleftrightarrow> State (control s frame_id) \<noteq> kFree \<and> frame_tag s frame_id = tag"

definition IsResidentTag :: "('r, 'd) BufferManager \<Rightarrow> BufferTag \<Rightarrow> bool option" where
  "IsResidentTag s tag =
     do { mapped \<leftarrow> LookupFrameId (bm_page_table s) tag;
          case mapped of
            None \<Rightarrow> Some False
          | Some f \<Rightarrow> Some (State (control s f) \<noteq> kFree \<and> frame_tag s f = tag) }"

definition HasPinnedFrame :: "('r, 'd) BufferManager \<Rightarrow> bool" where
  "HasPinnedFrame s \<longleftrightarrow> list_ex (\<lambda>f. Pins (control s f) \<noteq> 0) (frame_ids (bm_size s))"

definition HasTransientFrame :: "('r, 'd) BufferManager \<Rightarrow> bool" where
  "HasTransientFrame s \<longleftrightarrow>
     list_ex (\<lambda>f. Pins (control s f) = 0 \<or> State (control s f) = kLoading) (frame_ids (bm_size s))"

text \<open>\<^verbatim>\<open>FrameEvictionProbe::IsEvictable\<close>.\<close>

definition IsEvictable :: "('r, 'd) BufferManager \<Rightarrow> FrameId \<Rightarrow> bool" where
  "IsEvictable s frame_id \<longleftrightarrow>
     (if unat frame_id \<ge> bm_size s then False
      else let word = control s frame_id in
        if \<not> IsResident word \<or> Pins word \<noteq> 0 then False
        else and word (or kLatchMask kWritebackMask) = 0)"

section \<open>The cleaner\<close>

text \<open>\<^verbatim>\<open>NotifyCleaner\<close> only wakes the cleaner thread, whose passes are steps of their own.\<close>

definition NotifyCleaner :: "('r, 'd) BufferManager \<Rightarrow> ('r, 'd) BufferManager" where
  "NotifyCleaner s = s"

definition ResetCleanerCandidate :: "FrameId \<Rightarrow> ('r, 'd) BufferManager \<Rightarrow> ('r, 'd) BufferManager" where
  "ResetCleanerCandidate frame_id s =
     (case bm_cleaner_controller s of
        None \<Rightarrow> s
      | Some c \<Rightarrow> if unat frame_id \<ge> bm_size s then s
                  else s\<lparr>bm_cleaner_controller := Some (cl_ResetCandidate frame_id c)\<rparr>)"

definition MaybeEnqueueCleanerCandidate :: "FrameId \<Rightarrow> ('r, 'd) BufferManager \<Rightarrow> ('r, 'd) BufferManager" where
  "MaybeEnqueueCleanerCandidate frame_id s =
     (case bm_cleaner_controller s of
        None \<Rightarrow> s
      | Some c \<Rightarrow> if unat frame_id \<ge> bm_size s then s
                  else s\<lparr>bm_cleaner_controller := Some (cl_EnqueueCandidate frame_id c)\<rparr>)"

definition ShouldQueueCleanerCandidate :: "u32 \<Rightarrow> bool" where
  "ShouldQueueCleanerCandidate control_word =
     (if \<not> IsResident control_word then False
      else if \<not> IsDirty control_word then False
      else if Pins control_word \<noteq> 0 then False
      else if HasWriteback control_word then False
      else True)"

definition ShouldSeedCleanerCandidate :: "('r, 'd) BufferManager \<Rightarrow> FrameId \<Rightarrow> bool" where
  "ShouldSeedCleanerCandidate s frame_id =
     (if unat frame_id \<ge> bm_size s then False else ShouldQueueCleanerCandidate (control s frame_id))"

definition SeedCleanerCandidates :: "('r, 'd) BufferManager \<Rightarrow> ('r, 'd) BufferManager" where
  "SeedCleanerCandidates s =
     (if \<not> bo_enable_background_cleaner (bm_options s) then s
      else fold (\<lambda>f s. if \<not> ShouldSeedCleanerCandidate s f then s else MaybeEnqueueCleanerCandidate f s)
             (frame_ids (bm_size s)) s)"

section \<open>Written files\<close>

definition NoteLocalWrittenFile :: "FileId \<Rightarrow> ('r, 'd) BufferManager \<Rightarrow> ('r, 'd) BufferManager" where
  "NoteLocalWrittenFile file_id s =
     (if file_id \<in> set (bm_written_files s) then s
      else s\<lparr>bm_written_files := bm_written_files s @ [file_id]\<rparr>)"

definition RecordWrittenFile :: "FileId \<Rightarrow> ('r, 'd) BufferManager \<Rightarrow> bool \<times> ('r, 'd) BufferManager" where
  "RecordWrittenFile file_id s =
     (case bm_segment s of
        None \<Rightarrow> (True, NoteLocalWrittenFile file_id s)
      | Some shared \<Rightarrow>
          if file_id \<in> set (take (unat (sw_count shared)) (sw_files shared)) then (True, s)
          else if unat (sw_count shared) = sw_kCapacity then (False, s)
          else (True, s\<lparr>bm_segment := Some (shared\<lparr>sw_files := (sw_files shared)[unat (sw_count shared) := file_id],
                                                sw_count := sw_count shared + 1\<rparr>)\<rparr>))"

definition NoteWrittenFile :: "FileId \<Rightarrow> ('r, 'd) BufferManager \<Rightarrow> ('r, 'd) BufferManager" where
  "NoteWrittenFile file_id s =
     (let (recorded, s) = RecordWrittenFile file_id s
      in if \<not> recorded then NoteLocalWrittenFile file_id s else s)"

definition SyncFiles ::
  "('r, 'd) Env \<Rightarrow> FileId list \<Rightarrow> ('r, 'd) BufferManager \<Rightarrow> (Status \<times> ('r, 'd) BufferManager) option" where
  "SyncFiles E files s =
     (if files = [] then Some (Ok, s)
      else do { (status, d) \<leftarrow> dk_sync (en_disk E) files (bm_disk s);
                let s = s\<lparr>bm_disk := d\<rparr>;
                Some (status, if isl status then fold NoteWrittenFile files s else s) })"

definition SyncWrittenFiles ::
  "('r, 'd) Env \<Rightarrow> ('r, 'd) BufferManager \<Rightarrow> (Status \<times> ('r, 'd) BufferManager) option" where
  "SyncWrittenFiles E s =
     (let files = bm_written_files s;
          s = s\<lparr>bm_written_files := []\<rparr>
      in case bm_segment s of
           None \<Rightarrow> SyncFiles E files s
         | Some shared \<Rightarrow>
             SyncFiles E
               (fold (\<lambda>f files. if f \<in> set files then files else files @ [f])
                  (take (unat (sw_count shared)) (sw_files shared)) files)
               (s\<lparr>bm_segment := Some (shared\<lparr>sw_count := 0\<rparr>)\<rparr>))"

section \<open>Failure\<close>

definition CheckUsable :: "('r, 'd) BufferManager \<Rightarrow> Status" where
  "CheckUsable s =
     (if bm_failed s then Inl (Failed ''buffer manager is in the failed state'')
      else if bm_closed s then Inl (Unavailable ''buffer manager is closed'' 0)
      else Ok)"

definition EnterFailedState :: "Error \<Rightarrow> ('r, 'd) BufferManager \<Rightarrow> ('r, 'd) BufferManager" where
  "EnterFailedState cause s =
     (if bm_failure s \<noteq> None then s else s\<lparr>bm_failure := Some cause, bm_failed := True\<rparr>)"

definition failure :: "('r, 'd) BufferManager \<Rightarrow> Error option" where
  "failure s = (if \<not> bm_failed s then None else bm_failure s)"

section \<open>Views of the pool\<close>

definition FrameRecLsn :: "BufferDescriptor \<Rightarrow> Lsn" where
  "FrameRecLsn descriptor =
     (let pending = bd_rec_lsn descriptor; writing = bd_writeback_rec_lsn descriptor in
      if pending = kInvalidLsn then writing
      else if writing = kInvalidLsn then pending
      else min pending writing)"

definition MinRecLsn :: "('r, 'd) BufferManager \<Rightarrow> Lsn option" where
  "MinRecLsn s =
     (let oldest = fold (\<lambda>f oldest.
            let rec_lsn = FrameRecLsn (bm_descriptors s f) in
            if rec_lsn \<noteq> kInvalidLsn \<and> (oldest = kInvalidLsn \<or> rec_lsn < oldest) then rec_lsn else oldest)
          (frame_ids (bm_size s)) kInvalidLsn
      in if oldest = kInvalidLsn then None else Some oldest)"

record FrameSnapshot =
  sn_frame_id :: FrameId
  sn_state :: BufferFrameState
  sn_tag :: BufferTag
  sn_pin_count :: u32
  sn_dirty_generation :: u64
  sn_is_valid :: bool
  sn_is_dirty :: bool
  sn_io_in_flight :: bool
  sn_flush_queued :: bool
  sn_flush_in_flight :: bool
  sn_rec_lsn :: Lsn

record BufferPoolSnapshot =
  bp_pool_size :: size_t
  bp_page_size :: size_t
  bp_dirty_page_count :: size_t
  bp_flush_queued_count :: size_t
  bp_flush_in_flight_count :: size_t
  bp_frames :: "FrameSnapshot list"

definition frame_snapshot :: "BufferDescriptor \<Rightarrow> FrameSnapshot" where
  "frame_snapshot descriptor =
     (let word = bd_control descriptor in
      \<lparr>sn_frame_id = bd_frame_id descriptor, sn_state = State word, sn_tag = LoadTag descriptor,
       sn_pin_count = Pins word, sn_dirty_generation = bd_version descriptor, sn_is_valid = IsResident word,
       sn_is_dirty = IsDirty word, sn_io_in_flight = (State word = kLoading),
       sn_flush_queued = (and word kWritebackQueued \<noteq> 0), sn_flush_in_flight = (and word kWritebackActive \<noteq> 0),
       sn_rec_lsn = FrameRecLsn descriptor\<rparr>)"

definition ExportSnapshot :: "('r, 'd) BufferManager \<Rightarrow> BufferPoolSnapshot" where
  "ExportSnapshot s =
     fold (\<lambda>f snapshot.
         let frame = frame_snapshot (bm_descriptors s f);
             snapshot = (if sn_flush_queued frame
               then snapshot\<lparr>bp_flush_queued_count := bp_flush_queued_count snapshot + 1\<rparr> else snapshot);
             snapshot = (if sn_flush_in_flight frame
               then snapshot\<lparr>bp_flush_in_flight_count := bp_flush_in_flight_count snapshot + 1\<rparr> else snapshot)
         in snapshot\<lparr>bp_frames := bp_frames snapshot @ [frame]\<rparr>)
       (frame_ids (bm_size s))
       \<lparr>bp_pool_size = bm_pool_size s, bp_page_size = bg_block_size (bm_geometry s),
        bp_dirty_page_count = bm_dirty_page_count s, bp_flush_queued_count = 0, bp_flush_in_flight_count = 0,
        bp_frames = []\<rparr>"

end
