(* ===== verification/Buffer_Flush.thy ===== *)
theory Buffer_Flush
  imports Buffer_State
begin

text \<open>
  The background work of the manager and the writeback of pages:
  \<^verbatim>\<open>buffer/buffer_manager_flush.cc\<close>, \<^verbatim>\<open>buffer_manager_cleaner.cc\<close>, the completion of
  asynchronous loads of \<^verbatim>\<open>buffer_manager_async_read.cc\<close> with the parts of
  \<^verbatim>\<open>buffer_manager_eviction.cc\<close> and \<^verbatim>\<open>buffer_manager_read.cc\<close> that it calls, and the loop of a flush worker
  from \<^verbatim>\<open>flush_scheduler.cc\<close>.

  A thread that waits lets the background threads run one pass at a time until the thing it
  waits for has happened (\<open>bm_background\<close>); the result is \<open>None\<close> when they have nothing left to do.
\<close>

section \<open>Completion of loads\<close>

definition ReleaseFreeFrame :: "FrameId \<Rightarrow> ('r, 'd) BufferManager \<Rightarrow> ('r, 'd) BufferManager" where
  "ReleaseFreeFrame frame_id s =
     (let s = ResetCleanerCandidate frame_id s
      in s\<lparr>bm_free_list := fl_Push frame_id (bm_free_list s)\<rparr>)"

definition AbortLoadReservation ::
  "('r, 'd) Env \<Rightarrow> FrameId \<Rightarrow> BufferTag \<Rightarrow> Status \<Rightarrow> ('r, 'd) BufferManager
     \<Rightarrow> (Status \<times> ('r, 'd) BufferManager) option" where
  "AbortLoadReservation E frame_id tag status s =
     do { t \<leftarrow> pt_Remove tag frame_id (bm_page_table s);
          r \<leftarrow> rp_Remove (en_replacer E) (en_thread E) frame_id (bm_replacer s);
          let s = s\<lparr>bm_page_table := t, bm_replacer := r\<rparr>;
          let s = update_desc frame_id (StoreTag emptyTag) s;
          let s = set_control frame_id (fst (ReleaseToFree (control s frame_id))) s;
          Some (status, ReleaseFreeFrame frame_id s) }"

definition PublishLoadedFrame ::
  "('r, 'd) Env \<Rightarrow> BufferTag \<Rightarrow> FrameReservation \<Rightarrow> bool \<Rightarrow> bool \<Rightarrow> ('r, 'd) BufferManager
     \<Rightarrow> ('r, 'd) BufferManager option" where
  "PublishLoadedFrame E tag reservation read_from_disk release_pin s =
     (let f = rs_frame_id reservation;
          evicted = (if rs_had_evicted_page reservation then Some (rs_evicted_tag reservation) else None)
      in do { let s = ResetCleanerCandidate f s;
              r \<leftarrow> rp_RecordLoad (en_replacer E) (en_thread E) f (bm_replacer s);
              let s = s\<lparr>bm_replacer := r\<rparr>;
              let s = set_control f (fst (PublishResident release_pin (control s f))) s;
              Some (observe (if \<not> read_from_disk then ob_RecordZeroFill evicted
                             else ob_RecordLoadCompletion tag evicted) s) })"

definition fail_slot :: "nat option \<Rightarrow> nat \<Rightarrow> ('r, 'd) BufferManager \<Rightarrow> ('r, 'd) BufferManager" where
  "fail_slot operation slot s =
     (case operation of
        None \<Rightarrow> s
      | Some p \<Rightarrow> s\<lparr>bm_operations := (bm_operations s)(p :=
          map_option (\<lambda>st. st\<lparr>rb_slots := (rb_slots st)[slot := kFailedS]\<rparr>) (bm_operations s p))\<rparr>)"

fun finish_entries ::
  "('r, 'd) Env \<Rightarrow> nat option \<Rightarrow> Status \<Rightarrow> AsyncLoadEntry list \<Rightarrow> ('r, 'd) BufferManager
     \<Rightarrow> ('r, 'd) BufferManager option" where
  "finish_entries E operation status [] s = Some s"
| "finish_entries E operation status (e # es) s =
     do { s \<leftarrow> (if isl status
                then do { (_, s) \<leftarrow> AbortLoadReservation E (rs_frame_id (ae_reservation e)) (ae_tag e) status s;
                          Some (fail_slot operation (ae_slot e) s) }
                else PublishLoadedFrame E (ae_tag e) (ae_reservation e) True (operation = None) s);
          finish_entries E operation status es s }"

definition FinishAsyncLoad ::
  "('r, 'd) Env \<Rightarrow> AsyncLoad \<Rightarrow> Status \<Rightarrow> ('r, 'd) BufferManager \<Rightarrow> ('r, 'd) BufferManager option" where
  "FinishAsyncLoad E load status s =
     do { s \<leftarrow> finish_entries E (al_operation load) status (al_entries load) s;
          Some (case al_operation load of
                  Some p \<Rightarrow> s\<lparr>bm_operations := (bm_operations s)(p :=
                    map_option (\<lambda>st. st\<lparr>rb_waiter := iw_Complete status (rb_waiter st)\<rparr>) (bm_operations s p))\<rparr>
                | None \<Rightarrow> s\<lparr>bm_prefetches_in_flight := bm_prefetches_in_flight s - 1\<rparr>) }"

text \<open>
  The engine executes the oldest load and delivers its completion
  (\<^verbatim>\<open>AsyncLoad::Complete\<close>): the blocks are read into the frames of its entries.
\<close>

definition run_load :: "('r, 'd) Env \<Rightarrow> ('r, 'd) BufferManager \<Rightarrow> ('r, 'd) BufferManager option" where
  "run_load E s =
     (case bm_loads s of
        [] \<Rightarrow> None
      | load # loads \<Rightarrow>
          let frames = map (\<lambda>e. rs_frame_id (ae_reservation e)) (al_entries load) in
          do { (status, buffers, d) \<leftarrow> dk_read (en_disk E) (ae_tag (hd (al_entries load)))
                 (map (bm_frames s) frames) (bm_disk s);
               FinishAsyncLoad E load status
                 (s\<lparr>bm_loads := loads, bm_disk := d,
                    bm_frames := fold (\<lambda>(f, b) m. m(f := b)) (zip frames buffers) (bm_frames s)\<rparr>) })"

section \<open>Flush tasks\<close>

definition flush_task :: "('r, 'd) BufferManager \<Rightarrow> nat \<Rightarrow> BufferManagerFlushTask" where
  "flush_task s t = sch_tasks (bm_flush_scheduler s) t"

definition BeginFlushTask :: "nat option \<Rightarrow> ('r, 'd) BufferManager \<Rightarrow> ('r, 'd) BufferManager" where
  "BeginFlushTask task s =
     (case task of
        None \<Rightarrow> s
      | Some t \<Rightarrow>
          if \<not> ft_clear_dirty_on_success (flush_task s t) then s
          else let f = ft_frame_id (flush_task s t)
               in set_control f (fst (BeginWriteback (control s f))) s)"

text \<open>The part of \<^verbatim>\<open>FinalizeFlushTask\<close> for a task that clears the dirty flag.\<close>

definition finalize_frame :: "FrameId \<Rightarrow> Status \<Rightarrow> ('r, 'd) BufferManager \<Rightarrow> ('r, 'd) BufferManager" where
  "finalize_frame f flush_status s =
     (let s = update_desc f (\<lambda>d. d\<lparr>bd_last_writeback_error := PackWritebackError flush_status\<rparr>) s;
          s = update_desc f (\<lambda>d. if \<not> isl flush_status then d\<lparr>bd_writeback_rec_lsn := kInvalidLsn\<rparr>
                else d\<lparr>bd_rec_lsn := LowerRecLsn (bd_rec_lsn d) (bd_writeback_rec_lsn d)\<rparr>) s;
          (completion, word, _) = CompleteWriteback (\<not> isl flush_status) (control s f);
          s = set_control f word s;
          s = (if wc_cleared_dirty completion then s\<lparr>bm_dirty_page_count := bm_dirty_page_count s - 1\<rparr> else s)
      in if ShouldQueueCleanerCandidate (wc_word completion) then MaybeEnqueueCleanerCandidate f s
         else if wc_cleared_dirty completion then ResetCleanerCandidate f s
         else s)"

definition finish_cleaner_flush :: "bool \<Rightarrow> ('r, 'd) BufferManager \<Rightarrow> ('r, 'd) BufferManager" where
  "finish_cleaner_flush cleaner_owned s =
     (case bm_cleaner_controller s of
        None \<Rightarrow> s
      | Some c \<Rightarrow> if cleaner_owned then s\<lparr>bm_cleaner_controller := Some (cl_OnFlushFinished c)\<rparr> else s)"

definition FinalizeFlushTask ::
  "('r, 'd) Env \<Rightarrow> nat \<Rightarrow> Status \<Rightarrow> ('r, 'd) BufferManager \<Rightarrow> ('r, 'd) BufferManager option" where
  "FinalizeFlushTask E t flush_status s =
     (let task = flush_task s t; tag = ft_tag task;
          s = observe (ob_RecordFlushTaskCompletion tag flush_status) s;
          s = (if ft_clear_dirty_on_success task then finalize_frame (ft_frame_id task) flush_status s else s);
          s = (if ft_cleaner_owned task \<and> bm_cleaner_controller s \<noteq> None
               then observe (ob_RecordCleanerFlushFinished tag) (finish_cleaner_flush True s) else s)
      in do { s \<leftarrow> (if isl flush_status then Some s
                    else let (recorded, s) = RecordWrittenFile (bt_file_id tag) s
                         in do { s \<leftarrow> (if recorded then Some s
                                       else do { (_, s) \<leftarrow> SyncFiles E [bt_file_id tag] s; Some s });
                                 Some (observe (ob_RecordSuccessfulFlush tag) s) });
              Some (NotifyCleaner s) })"

text \<open>\<^verbatim>\<open>CompleteTask\<close> with the callback of the manager.\<close>

definition complete_task ::
  "('r, 'd) Env \<Rightarrow> nat \<Rightarrow> Status \<Rightarrow> ('r, 'd) BufferManager \<Rightarrow> ('r, 'd) BufferManager option" where
  "complete_task E t status s =
     do { s \<leftarrow> FinalizeFlushTask E t status s;
          Some (s\<lparr>bm_flush_scheduler := sch_CompleteTask t status (bm_flush_scheduler s)\<rparr>) }"

fun write_tasks ::
  "('r, 'd) Env \<Rightarrow> nat list \<Rightarrow> ('r, 'd) BufferManager \<Rightarrow> (Status list \<times> ('r, 'd) BufferManager) option" where
  "write_tasks E [] s = Some ([], s)"
| "write_tasks E (t # ts) s =
     do { (status, d) \<leftarrow> dk_write (en_disk E) (ft_tag (flush_task s t)) (ft_snapshot (flush_task s t)) (bm_disk s);
          (statuses, s) \<leftarrow> write_tasks E ts (s\<lparr>bm_disk := d\<rparr>);
          Some (status # statuses, s) }"

fun complete_tasks ::
  "('r, 'd) Env \<Rightarrow> (nat \<times> Status) list \<Rightarrow> ('r, 'd) BufferManager \<Rightarrow> ('r, 'd) BufferManager option" where
  "complete_tasks E [] s = Some s"
| "complete_tasks E ((t, status) # ts) s = complete_task E t status s \<bind> complete_tasks E ts"

text \<open>
  One pass of \<^verbatim>\<open>BufferManagerFlushScheduler::Run\<close>: whether the worker returns.  The requests of
  a batch are submitted together and executed in order.
\<close>

definition worker_pass ::
  "('r, 'd) Env \<Rightarrow> nat \<Rightarrow> ('r, 'd) BufferManager \<Rightarrow> (bool \<times> ('r, 'd) BufferManager) option" where
  "worker_pass E worker s =
     do { (batch, scheduler) \<leftarrow> sch_TakeNextBatch worker (bm_flush_scheduler s);
          let s = s\<lparr>bm_flush_scheduler := scheduler\<rparr>;
          if fb_tasks batch = [] then Some (fb_should_stop batch, s)
          else do { (statuses, s) \<leftarrow> write_tasks E (fb_tasks batch)
                      (fold (\<lambda>t. BeginFlushTask (Some t)) (fb_tasks batch) s);
                    s \<leftarrow> complete_tasks E (zip (fb_tasks batch) statuses) s;
                    Some (False, s) } }"

section \<open>Waiting\<close>

text \<open>One pass of a background thread that has work: a flush worker, or else the reaper.\<close>

definition bm_background :: "('r, 'd) Env \<Rightarrow> ('r, 'd) BufferManager \<Rightarrow> ('r, 'd) BufferManager option" where
  "bm_background E s =
     (if sch_foreground_queue (bm_flush_scheduler s) \<noteq> [] \<or> sch_background_queue (bm_flush_scheduler s) \<noteq> []
      then map_option snd (worker_pass E 0 s)
      else run_load E s)"

text \<open>
  \<^verbatim>\<open>frame_control::WaitWhile\<close> on the word of a frame; the thread sets the waiter bit before it
  sleeps.
\<close>

partial_function (option) wait_while ::
  "('r, 'd) Env \<Rightarrow> FrameId \<Rightarrow> (('r, 'd) BufferManager \<Rightarrow> bool) \<Rightarrow> ('r, 'd) BufferManager
     \<Rightarrow> ('r, 'd) BufferManager option" where
  "wait_while E f blocked s =
     (case WaitWhile (\<lambda>_. blocked s) (control s f) of
        None \<Rightarrow> Some s
      | Some word \<Rightarrow> bm_background E (set_control f word s) \<bind> wait_while E f blocked)"

text \<open>\<^verbatim>\<open>BufferManagerFlushScheduler::Wait\<close>.\<close>

partial_function (option) wait_task ::
  "('r, 'd) Env \<Rightarrow> nat \<Rightarrow> ('r, 'd) BufferManager \<Rightarrow> (Status \<times> ('r, 'd) BufferManager) option" where
  "wait_task E t s =
     (case sch_Wait (Some t) (bm_flush_scheduler s) of
        Some status \<Rightarrow> Some (status, s)
      | None \<Rightarrow> bm_background E s \<bind> wait_task E t)"

definition AcquireShared ::
  "('r, 'd) Env \<Rightarrow> FrameId \<Rightarrow> ('r, 'd) BufferManager \<Rightarrow> ('r, 'd) BufferManager option" where
  "AcquireShared E f s =
     do { s \<leftarrow> wait_while E f (\<lambda>s. SharedBlocked (control s f)) s;
          Some (set_control f (snd (TryAcquireShared (control s f))) s) }"

definition AcquireExclusive ::
  "('r, 'd) Env \<Rightarrow> FrameId \<Rightarrow> ('r, 'd) BufferManager \<Rightarrow> ('r, 'd) BufferManager option" where
  "AcquireExclusive E f s =
     do { s \<leftarrow> wait_while E f (\<lambda>s. LatchBlocked (control s f)) s;
          Some (set_control f (snd (TryAcquireExclusive (control s f))) s) }"

definition WaitForPendingFlush ::
  "('r, 'd) Env \<Rightarrow> FrameId \<Rightarrow> ('r, 'd) BufferManager \<Rightarrow> (Status \<times> ('r, 'd) BufferManager) option" where
  "WaitForPendingFlush E f s =
     do { s \<leftarrow> wait_while E f (\<lambda>s. HasWriteback (control s f)) s;
          Some (UnpackWritebackError (bd_last_writeback_error (bm_descriptors s f)), s) }"

definition WaitForLoad ::
  "('r, 'd) Env \<Rightarrow> FrameId \<Rightarrow> BufferTag \<Rightarrow> ('r, 'd) BufferManager \<Rightarrow> ('r, 'd) BufferManager option" where
  "WaitForLoad E f tag s = wait_while E f (\<lambda>s. IsLoadingTag s f tag) s"

section \<open>Writeback of a frame\<close>

text \<open>
  A page snapshot is taken from memory that does not change while it is read: the frame
  under its latch, or memory the caller keeps stable.  The only such memory is the data of
  a handle, so \<open>stable_data\<close> is the frame it points to, \<open>None\<close> the null pointer.
\<close>

definition CaptureFlushSnapshot :: "FrameId \<Rightarrow> FrameId option \<Rightarrow> ('r, 'd) BufferManager \<Rightarrow> u8 list" where
  "CaptureFlushSnapshot frame_id stable_data s =
     (let source = (case stable_data of Some p \<Rightarrow> bm_frames s p | None \<Rightarrow> bm_frames s frame_id)
      in take (bm_block_size s) source)"

text \<open>
  The loop of \<^verbatim>\<open>PrepareFlushTask\<close>: the tag and the snapshot of a queued page or \<open>None\<close> if there is
  nothing to write, and whether the frame was busy.  \<open>opportunistic\<close> says that the caller
  passed a place for that flag.
\<close>

partial_function (option) prepare_loop ::
  "('r, 'd) Env \<Rightarrow> FrameId \<Rightarrow> FrameId option \<Rightarrow> bool \<Rightarrow> bool \<Rightarrow> ('r, 'd) BufferManager
     \<Rightarrow> ((BufferTag \<times> u8 list) option Result \<times> bool \<times> ('r, 'd) BufferManager) option" where
  "prepare_loop E f stable_data opportunistic cleaner_owned s =
     (let (outcome, word) = TryQueueWriteback cleaner_owned (control s f) in
      if outcome = Frame_Control.kQueued
      then let s = set_control f word s;
               s = update_desc f (\<lambda>d. d\<lparr>bd_last_writeback_error := 0,
                     bd_writeback_rec_lsn := bd_rec_lsn d, bd_rec_lsn := kInvalidLsn\<rparr>) s
           in Some (Inr (Some (frame_tag s f, CaptureFlushSnapshot f stable_data s)), False, s)
      else if outcome = kNotDirty then Some (Inr None, False, s)
      else if outcome = kPinned \<or> (stable_data = None \<and> opportunistic) then Some (Inr None, True, s)
      else do { (waited, s) \<leftarrow> WaitForPendingFlush E f s;
                case waited of
                  Inl e \<Rightarrow> Some (Inl e, False, s)
                | Inr _ \<Rightarrow> prepare_loop E f stable_data opportunistic cleaner_owned s })"

definition PrepareFlushTask ::
  "('r, 'd) Env \<Rightarrow> FrameId \<Rightarrow> FrameId option \<Rightarrow> bool \<Rightarrow> bool \<Rightarrow> ('r, 'd) BufferManager
     \<Rightarrow> ((BufferTag \<times> u8 list) option Result \<times> bool \<times> ('r, 'd) BufferManager) option" where
  "PrepareFlushTask E f stable_data opportunistic cleaner_owned s =
     (if stable_data = None \<and> opportunistic \<and> \<not> fst (TryAcquireShared (control s f))
      then Some (Inr None, True, s)
      else do { s \<leftarrow> (if stable_data \<noteq> None then Some s
                     else if \<not> opportunistic then AcquireShared E f s
                     else Some (set_control f (snd (TryAcquireShared (control s f))) s));
                (r, was_busy, s) \<leftarrow> prepare_loop E f stable_data opportunistic cleaner_owned s;
                Some (r, was_busy,
                  if stable_data = None then set_control f (fst (ReleaseShared (control s f))) s else s) })"

definition RollBackFlushTask ::
  "FrameId \<Rightarrow> bool \<Rightarrow> Status \<Rightarrow> ('r, 'd) BufferManager \<Rightarrow> Status \<times> ('r, 'd) BufferManager" where
  "RollBackFlushTask f cleaner_owned status s =
     (let s = finish_cleaner_flush cleaner_owned s;
          s = update_desc f (\<lambda>d. d\<lparr>bd_last_writeback_error := PackWritebackError status,
                bd_rec_lsn := LowerRecLsn (bd_rec_lsn d) (bd_writeback_rec_lsn d)\<rparr>) s;
          s = set_control f (fst (CancelQueuedWriteback (control s f))) s
      in (status, observe (ob_RecordFlushTaskCompletion (frame_tag s f) status) s))"

definition CreateFlushTask ::
  "('r, 'd) Env \<Rightarrow> FrameId \<Rightarrow> FrameId option \<Rightarrow> bool \<Rightarrow> bool \<Rightarrow> ('r, 'd) BufferManager
     \<Rightarrow> (nat option Result \<times> bool \<times> ('r, 'd) BufferManager) option" where
  "CreateFlushTask E f stable_data opportunistic cleaner_owned s =
     (if unat f \<ge> bm_size s then Some (Inl (InvalidArgument ''invalid frame id''), False, s)
      else do { (prepared, was_busy, s) \<leftarrow> PrepareFlushTask E f stable_data opportunistic cleaner_owned s;
                case prepared of
                  Inl e \<Rightarrow> Some (Inl e, was_busy, s)
                | Inr None \<Rightarrow> Some (Inr None, was_busy, s)
                | Inr (Some (tag, snapshot)) \<Rightarrow>
                    let t = bm_next_task s;
                        task = ft_default\<lparr>ft_frame_id := f, ft_tag := tag, ft_clear_dirty_on_success := True,
                                 ft_cleaner_owned := cleaner_owned, ft_snapshot := snapshot\<rparr>;
                        s = s\<lparr>bm_next_task := t + 1, bm_flush_scheduler := (bm_flush_scheduler s)
                              \<lparr>sch_tasks := (sch_tasks (bm_flush_scheduler s))(t := task)\<rparr>\<rparr>
                    in (case bo_pre_write_hook (bm_options s) of
                          None \<Rightarrow> Some (Inr (Some t), was_busy, s)
                        | Some hook \<Rightarrow>
                            (case hook tag snapshot of
                               Inr _ \<Rightarrow> Some (Inr (Some t), was_busy, s)
                             | Inl e \<Rightarrow> let (_, s) = RollBackFlushTask f cleaner_owned (Inl e) s
                                        in Some (Inl e, was_busy, s))) })"

definition EnqueueFlushTask :: "nat \<Rightarrow> ('r, 'd) BufferManager \<Rightarrow> Status \<times> ('r, 'd) BufferManager" where
  "EnqueueFlushTask t s =
     (let s = (case bm_cleaner_controller s of
                 None \<Rightarrow> s
               | Some c \<Rightarrow> if ft_cleaner_owned (flush_task s t)
                           then s\<lparr>bm_cleaner_controller := Some (cl_OnFlushScheduled c)\<rparr> else s);
          (status, scheduler) = sch_Enqueue (Some t) (bm_flush_scheduler s)
      in (status, s\<lparr>bm_flush_scheduler := scheduler\<rparr>))"

definition TryScheduleFlushTask ::
  "('r, 'd) Env \<Rightarrow> FrameId \<Rightarrow> FrameId option \<Rightarrow> bool \<Rightarrow> bool \<Rightarrow> ('r, 'd) BufferManager
     \<Rightarrow> (nat option Result \<times> bool \<times> ('r, 'd) BufferManager) option" where
  "TryScheduleFlushTask E f stable_data opportunistic cleaner_owned s =
     do { (task, was_busy, s) \<leftarrow> CreateFlushTask E f stable_data opportunistic cleaner_owned s;
          case task of
            Inl e \<Rightarrow> Some (Inl e, was_busy, s)
          | Inr None \<Rightarrow> Some (Inr None, was_busy, s)
          | Inr (Some t) \<Rightarrow>
              (case EnqueueFlushTask t s of
                 (Inl e, s) \<Rightarrow> let (_, s) = RollBackFlushTask f cleaner_owned (Inl e) s in Some (Inl e, was_busy, s)
               | (Inr _, s) \<Rightarrow>
                   let tag = ft_tag (flush_task s t);
                       s = observe (ob_RecordFlushTaskScheduled tag) s;
                       s = (if cleaner_owned then observe (ob_RecordCleanerFlushScheduled tag) s else s)
                   in Some (Inr (Some t), was_busy, s)) }"

definition WriteFlushTaskDirect ::
  "('r, 'd) Env \<Rightarrow> nat \<Rightarrow> ('r, 'd) BufferManager \<Rightarrow> (Status \<times> ('r, 'd) BufferManager) option" where
  "WriteFlushTaskDirect E t s =
     (let s = observe (ob_RecordFlushTaskScheduled (ft_tag (flush_task s t))) s;
          s = BeginFlushTask (Some t) s
      in do { (status, d) \<leftarrow> dk_write (en_disk E) (ft_tag (flush_task s t)) (ft_snapshot (flush_task s t)) (bm_disk s);
              s \<leftarrow> FinalizeFlushTask E t status (s\<lparr>bm_disk := d\<rparr>);
              Some (status, s) })"

definition ForegroundFlushRound ::
  "('r, 'd) Env \<Rightarrow> FrameId \<Rightarrow> FrameId option \<Rightarrow> ('r, 'd) BufferManager \<Rightarrow> (bool Result \<times> ('r, 'd) BufferManager) option" where
  "ForegroundFlushRound E f stable_data s =
     (let queued = (bo_foreground_writeback (bm_options s) = Options.kQueued) in
      do { (task, _, s) \<leftarrow> (if queued then TryScheduleFlushTask E f stable_data False False s
                            else CreateFlushTask E f stable_data False False s);
           case task of
             Inl e \<Rightarrow> Some (Inl e, s)
           | Inr None \<Rightarrow> Some (Inr False, s)
           | Inr (Some t) \<Rightarrow>
               do { (written, s) \<leftarrow> (if queued then wait_task E t s else WriteFlushTaskDirect E t s);
                    case written of
                      Inl e \<Rightarrow> Some (Inl e, s)
                    | Inr _ \<Rightarrow> Some (Inr True, s) } })"

partial_function (option) RunForegroundFlush ::
  "('r, 'd) Env \<Rightarrow> FrameId \<Rightarrow> FrameId option \<Rightarrow> ('r, 'd) BufferManager \<Rightarrow> (Status \<times> ('r, 'd) BufferManager) option" where
  "RunForegroundFlush E f stable_data s =
     do { (wrote, s) \<leftarrow> ForegroundFlushRound E f stable_data s;
          case wrote of
            Inl e \<Rightarrow> Some (Inl e, s)
          | Inr w \<Rightarrow> if \<not> w then Some (Ok, s) else RunForegroundFlush E f stable_data s }"

definition FlushFrameWithStableSource ::
  "('r, 'd) Env \<Rightarrow> FrameId \<Rightarrow> FrameId option \<Rightarrow> ('r, 'd) BufferManager \<Rightarrow> (Status \<times> ('r, 'd) BufferManager) option" where
  "FlushFrameWithStableSource E f stable_data s =
     (if unat f \<ge> bm_size s then Some (Inl (InvalidArgument ''invalid frame id''), s)
      else RunForegroundFlush E f stable_data s)"

definition FlushFrame ::
  "('r, 'd) Env \<Rightarrow> FrameId \<Rightarrow> ('r, 'd) BufferManager \<Rightarrow> (Status \<times> ('r, 'd) BufferManager) option" where
  "FlushFrame E f s = FlushFrameWithStableSource E f None s"

definition FlushFrameOnce ::
  "('r, 'd) Env \<Rightarrow> FrameId \<Rightarrow> FrameId option \<Rightarrow> ('r, 'd) BufferManager \<Rightarrow> (Status \<times> ('r, 'd) BufferManager) option" where
  "FlushFrameOnce E f stable_data s =
     do { (wrote, s) \<leftarrow> ForegroundFlushRound E f stable_data s;
          Some (case wrote of Inl e \<Rightarrow> Inl e | Inr _ \<Rightarrow> Ok, s) }"

fun WaitForScheduledFlushes ::
  "('r, 'd) Env \<Rightarrow> nat list \<Rightarrow> Status \<Rightarrow> ('r, 'd) BufferManager \<Rightarrow> (Status \<times> ('r, 'd) BufferManager) option" where
  "WaitForScheduledFlushes E [] first s = Some (first, s)"
| "WaitForScheduledFlushes E (t # ts) first s =
     do { (status, s) \<leftarrow> wait_task E t s;
          WaitForScheduledFlushes E ts (if isl status \<and> \<not> isl first then status else first) s }"

fun FlushBusyFrames ::
  "('r, 'd) Env \<Rightarrow> FrameId list \<Rightarrow> Status \<Rightarrow> ('r, 'd) BufferManager \<Rightarrow> (Status \<times> ('r, 'd) BufferManager) option" where
  "FlushBusyFrames E [] first s = Some (first, s)"
| "FlushBusyFrames E (f # fs) first s =
     do { (status, s) \<leftarrow> FlushFrame E f s;
          FlushBusyFrames E fs (if isl status \<and> \<not> isl first then status else first) s }"

section \<open>The cleaner thread\<close>

definition ScheduleCleanerFlush ::
  "('r, 'd) Env \<Rightarrow> FrameId \<Rightarrow> ('r, 'd) BufferManager \<Rightarrow> ('r, 'd) BufferManager option" where
  "ScheduleCleanerFlush E f s =
     do { (r, _, s) \<leftarrow> TryScheduleFlushTask E f None True True s;
          Some (case r of
                  Inl e \<Rightarrow> observe ob_RecordCleanerFlushSkipped s
                | Inr None \<Rightarrow> observe ob_RecordCleanerFlushSkipped s
                | Inr (Some t) \<Rightarrow> s) }"

text \<open>
  One pass of the cleaner thread.  The callbacks work on the whole manager; the seeding
  callback changes only the controller.
\<close>

definition cleaner_pass :: "('r, 'd) Env \<Rightarrow> ('r, 'd) BufferManager \<Rightarrow> ('r, 'd) BufferManager option" where
  "cleaner_pass E s =
     (case bm_cleaner_controller s of
        None \<Rightarrow> None
      | Some c \<Rightarrow>
          let seed = (\<lambda>c. the (bm_cleaner_controller (SeedCleanerCandidates (s\<lparr>bm_cleaner_controller := Some c\<rparr>))));
              (pass, c) = cl_Run seed (Some (bm_dirty_page_count s)) c;
              s = s\<lparr>bm_cleaner_controller := Some c\<rparr>
          in case pass of
               CleanerSchedules f \<Rightarrow> ScheduleCleanerFlush E f s
             | _ \<Rightarrow> Some s)"

end
