(* ===== verification/Buffer_Read.thy ===== *)
theory Buffer_Read
  imports Buffer_Flush
begin

text \<open>
  Finding, reserving and loading pages: \<^verbatim>\<open>buffer/buffer_manager_read.cc\<close>,
  \<^verbatim>\<open>buffer_manager_eviction.cc\<close> and \<^verbatim>\<open>buffer_manager_handle.cc\<close>.  A strategy is a pointer into
  \<open>bm_strategies\<close>, \<open>None\<close> the null pointer.
\<close>

section \<open>Pins and handles\<close>

definition ReleaseFrame :: "FrameId \<Rightarrow> ('r, 'd) BufferManager \<Rightarrow> ('r, 'd) BufferManager" where
  "ReleaseFrame frame_id s =
     (let (previous, word) = Unpin (control s frame_id);
          s = set_control frame_id word s
      in case previous of
           None \<Rightarrow> s
         | Some p \<Rightarrow>
             if Pins p \<noteq> 1 then s
             else if \<not> IsDirty p then s
             else NotifyCleaner (MaybeEnqueueCleanerCandidate frame_id s))"

text \<open>\<^verbatim>\<open>frame_control::TryPinResident\<close>; a frame with the maximal number of pins is waited for.\<close>

definition TryPinResidentFrame ::
  "('r, 'd) Env \<Rightarrow> FrameId \<Rightarrow> BufferTag \<Rightarrow> bool \<Rightarrow> ('r, 'd) BufferManager \<Rightarrow> (bool \<times> ('r, 'd) BufferManager) option" where
  "TryPinResidentFrame E frame_id tag record_access s =
     (case TryPinResident (control s frame_id) of
        (None, _) \<Rightarrow> None
      | (Some False, _) \<Rightarrow> Some (False, s)
      | (Some True, word) \<Rightarrow>
          let s = set_control frame_id word s in
          if frame_tag s frame_id \<noteq> tag
          then Some (False, set_control frame_id (snd (Unpin (control s frame_id))) s)
          else if record_access
          then do { r \<leftarrow> rp_RecordAccess (en_replacer E) (en_thread E) frame_id (bm_replacer s);
                    Some (True, s\<lparr>bm_replacer := r\<rparr>) }
          else Some (True, s))"

definition ProbeResident ::
  "('r, 'd) Env \<Rightarrow> BufferTag \<Rightarrow> bool \<Rightarrow> ('r, 'd) BufferManager
     \<Rightarrow> (ResidentProbe \<times> FrameId \<times> ('r, 'd) BufferManager) option" where
  "ProbeResident E tag record_access s =
     do { mapped \<leftarrow> LookupFrameId (bm_page_table s) tag;
          case mapped of
            None \<Rightarrow> Some (kAbsent, kInvalidFrameId, s)
          | Some f \<Rightarrow>
              do { (pinned, s) \<leftarrow> TryPinResidentFrame E f tag record_access s;
                   if pinned then Some (kPinnedP, f, s)
                   else if IsLoadingTag s f tag then Some (kLoadingP, f, s)
                   else Some (kAbsent, f, s) } }"

definition TryReadResidentHit ::
  "('r, 'd) Env \<Rightarrow> BufferTag \<Rightarrow> bool \<Rightarrow> ('r, 'd) BufferManager \<Rightarrow> (FrameId option \<times> ('r, 'd) BufferManager) option" where
  "TryReadResidentHit E tag record_access s =
     do { (probe, f, s) \<leftarrow> ProbeResident E tag record_access s;
          if probe \<noteq> kPinnedP then Some (None, s)
          else Some (Some f, observe (ob_RecordResidentHit tag) s) }"

section \<open>Reservation\<close>

definition AcquireReservationFrame ::
  "('r, 'd) Env \<Rightarrow> ('r, 'd) BufferManager \<Rightarrow> (ReservationCandidate Result \<times> ('r, 'd) BufferManager) option" where
  "AcquireReservationFrame E s =
     (case fl_Pop (bm_free_list s) of
        (Some f, l) \<Rightarrow> Some (Inr \<lparr>rc_frame_id = f, rc_from_free_list = True\<rparr>, s\<lparr>bm_free_list := l\<rparr>)
      | (None, l) \<Rightarrow>
          do { (victim, r) \<leftarrow> rp_Victim (en_replacer E) (IsEvictable s) (bm_replacer s);
               let s = s\<lparr>bm_free_list := l, bm_replacer := r\<rparr>;
               case victim of
                 Some f \<Rightarrow> Some (Inr \<lparr>rc_frame_id = f, rc_from_free_list = False\<rparr>, s)
               | None \<Rightarrow> Some (Inl (ResourceExhausted ''no evictable frame available''), s) })"

text \<open>Yielding lets the background threads run; if they have nothing to do, the loop spins.\<close>

partial_function (option) AcquireVictimFrame ::
  "('r, 'd) Env \<Rightarrow> bool \<Rightarrow> ('r, 'd) BufferManager \<Rightarrow> (ReservationCandidate Result \<times> ('r, 'd) BufferManager) option" where
  "AcquireVictimFrame E wait_for_frame s =
     do { (frame, s) \<leftarrow> AcquireReservationFrame E s;
          case frame of
            Inr c \<Rightarrow> Some (Inr c, s)
          | Inl e \<Rightarrow>
              if err_code e \<noteq> kResourceExhausted \<or> \<not> wait_for_frame \<or> \<not> HasTransientFrame s
              then Some (Inl e, s)
              else bm_background E s \<bind> AcquireVictimFrame E wait_for_frame }"

definition InstallReservationEntry ::
  "BufferTag \<Rightarrow> FrameReservation \<Rightarrow> ('r, 'd) BufferManager \<Rightarrow> (FrameId option \<times> ('r, 'd) BufferManager) option" where
  "InstallReservationEntry tag reservation s =
     (let evicted_tag = (if rs_had_evicted_page reservation then Some (rs_evicted_tag reservation) else None)
      in do { (other, t) \<leftarrow> ReplaceUnlessLive evicted_tag tag (rs_frame_id reservation)
                (\<lambda>f. IsLiveFor s f tag) (bm_page_table s);
              Some (other, s\<lparr>bm_page_table := t\<rparr>) })"

definition TryReserveFrameForTag ::
  "('r, 'd) Env \<Rightarrow> FrameId \<Rightarrow> BufferTag \<Rightarrow> bool \<Rightarrow> bool \<Rightarrow> ('r, 'd) BufferManager
     \<Rightarrow> (FrameReservationOutcome \<times> FrameReservation \<times> ('r, 'd) BufferManager) option" where
  "TryReserveFrameForTag E f tag allow_victim_flush from_free_list s =
     (let none = \<lparr>rs_frame_id = kInvalidFrameId, rs_had_evicted_page = False, rs_evicted_tag = emptyTag\<rparr>;
          (outcome, observed, word) = TryReserve from_free_list (control s f)
      in if outcome = kRejected then Some (kRejectedF, none, s)
         else if outcome = kNeedsFlush
         then Some (if allow_victim_flush then kNeedsFlushF else kRejectedF, none, s)
         else
           let s = set_control f word s;
               had_evicted_page = IsResident observed;
               reservation = \<lparr>rs_frame_id = f, rs_had_evicted_page = had_evicted_page,
                 rs_evicted_tag = (if had_evicted_page then frame_tag s f else emptyTag)\<rparr>;
               s = update_desc f (\<lambda>d. (StoreTag tag d)\<lparr>bd_version := bd_version d + 1\<rparr>) s
           in do { (other, s) \<leftarrow> InstallReservationEntry tag reservation s;
                   if other \<noteq> None
                   then do { r \<leftarrow> rp_Remove (en_replacer E) (en_thread E) f (bm_replacer s);
                             let s = s\<lparr>bm_replacer := r\<rparr>;
                             let s = update_desc f (StoreTag emptyTag) s;
                             let s = set_control f (fst (ReleaseToFree (control s f))) s;
                             Some (kTagExists, reservation, ReleaseFreeFrame f s) }
                   else Some (kReservedF, reservation, ResetCleanerCandidate f s) })"

definition FlushVictimBeforeReuse ::
  "('r, 'd) Env \<Rightarrow> FrameId \<Rightarrow> ('r, 'd) BufferManager \<Rightarrow> (Status \<times> ('r, 'd) BufferManager) option" where
  "FlushVictimBeforeReuse E f s =
     do { (flush_status, s) \<leftarrow> FlushFrame E f s;
          if \<not> isl flush_status then Some (Ok, s)
          else Some (flush_status, observe (ob_RecordEvictionFailure (frame_tag s f)) s) }"

definition ReserveVictim ::
  "('r, 'd) Env \<Rightarrow> ReservationCandidate \<Rightarrow> BufferTag \<Rightarrow> ('r, 'd) BufferManager
     \<Rightarrow> (FrameReservationOutcome Result \<times> FrameReservation \<times> ('r, 'd) BufferManager) option" where
  "ReserveVictim E candidate tag s =
     do { (outcome, reservation, s) \<leftarrow>
            TryReserveFrameForTag E (rc_frame_id candidate) tag True (rc_from_free_list candidate) s;
          if outcome \<noteq> kNeedsFlushF then Some (Inr outcome, reservation, s)
          else do { (flushed, s) \<leftarrow> FlushVictimBeforeReuse E (rc_frame_id candidate) s;
                    case flushed of
                      Inl e \<Rightarrow> Some (Inl e, reservation, s)
                    | Inr _ \<Rightarrow>
                        do { (outcome, reservation, s) \<leftarrow>
                               TryReserveFrameForTag E (rc_frame_id candidate) tag False False s;
                             Some (Inr outcome, reservation, s) } } }"

definition TryReserveRingFrame ::
  "('r, 'd) Env \<Rightarrow> BufferTag \<Rightarrow> nat option \<Rightarrow> ('r, 'd) BufferManager
     \<Rightarrow> (FrameReservationOutcome \<times> FrameReservation \<times> ('r, 'd) BufferManager) option" where
  "TryReserveRingFrame E tag strategy s =
     (let none = \<lparr>rs_frame_id = kInvalidFrameId, rs_had_evicted_page = False, rs_evicted_tag = emptyTag\<rparr>
      in case strategy of
           None \<Rightarrow> Some (kRejectedF, none, s)
         | Some p \<Rightarrow>
             let (ring_frame, st) = NextRingFrame (bm_strategies s p);
                 s = s\<lparr>bm_strategies := (bm_strategies s)(p := st)\<rparr>
             in if ring_frame = kInvalidFrameId \<or> unat ring_frame \<ge> bm_size s then Some (kRejectedF, none, s)
                else TryReserveFrameForTag E ring_frame tag False False s)"

definition remember_frame :: "nat option \<Rightarrow> FrameId \<Rightarrow> ('r, 'd) BufferManager \<Rightarrow> ('r, 'd) BufferManager" where
  "remember_frame strategy f s =
     (case strategy of
        None \<Rightarrow> s
      | Some p \<Rightarrow> s\<lparr>bm_strategies := (bm_strategies s)(p := RememberRingFrame f (bm_strategies s p))\<rparr>)"

partial_function (option) reserve_loop ::
  "('r, 'd) Env \<Rightarrow> BufferTag \<Rightarrow> nat option \<Rightarrow> bool \<Rightarrow> ('r, 'd) BufferManager
     \<Rightarrow> (FrameReservation option Result \<times> ('r, 'd) BufferManager) option" where
  "reserve_loop E tag strategy wait_for_frame s =
     do { (candidate, s) \<leftarrow> AcquireVictimFrame E wait_for_frame s;
          case candidate of
            Inl e \<Rightarrow> Some (Inl e, s)
          | Inr c \<Rightarrow>
              do { (outcome, reservation, s) \<leftarrow> ReserveVictim E c tag s;
                   case outcome of
                     Inl e \<Rightarrow> Some (Inl e, s)
                   | Inr out \<Rightarrow>
                       if out = kTagExists then Some (Inr None, s)
                       else if out \<noteq> kReservedF
                       then reserve_loop E tag strategy wait_for_frame
                              (if rc_from_free_list c then ReleaseFreeFrame (rc_frame_id c) s else s)
                       else Some (Inr (Some reservation), remember_frame strategy (rc_frame_id c) s) } }"

definition ReserveFrameForTag ::
  "('r, 'd) Env \<Rightarrow> BufferTag \<Rightarrow> nat option \<Rightarrow> bool \<Rightarrow> ('r, 'd) BufferManager
     \<Rightarrow> (FrameReservation option Result \<times> ('r, 'd) BufferManager) option" where
  "ReserveFrameForTag E tag strategy wait_for_frame s =
     do { (ring_outcome, reservation, s) \<leftarrow> TryReserveRingFrame E tag strategy s;
          if ring_outcome = kReservedF then Some (Inr (Some reservation), s)
          else if ring_outcome = kTagExists then Some (Inr None, s)
          else reserve_loop E tag strategy wait_for_frame s }"

section \<open>Loading\<close>

definition ReadReservedPage ::
  "('r, 'd) Env \<Rightarrow> FrameId \<Rightarrow> BufferTag \<Rightarrow> ('r, 'd) BufferManager \<Rightarrow> (Status \<times> ('r, 'd) BufferManager) option" where
  "ReadReservedPage E f tag s =
     do { (status, buffers, d) \<leftarrow> dk_read (en_disk E) tag [bm_frames s f] (bm_disk s);
          Some (status, s\<lparr>bm_disk := d, bm_frames := (bm_frames s)(f := hd buffers)\<rparr>) }"

text \<open>The frame, and whether it was returned exclusively latched.\<close>

definition CompleteReservation ::
  "('r, 'd) Env \<Rightarrow> BufferTag \<Rightarrow> FrameReservation \<Rightarrow> ReadBufferMode \<Rightarrow> ('r, 'd) BufferManager
     \<Rightarrow> (FrameId Result \<times> bool \<times> ('r, 'd) BufferManager) option" where
  "CompleteReservation E tag reservation mode s =
     (let f = rs_frame_id reservation in
      if mode = kZeroAndLock
      then let s = s\<lparr>bm_frames := (bm_frames s)(f := replicate (bm_block_size s) 0)\<rparr>
           in do { s \<leftarrow> AcquireExclusive E f s;
                   s \<leftarrow> PublishLoadedFrame E tag reservation False False s;
                   Some (Inr f, True, s) }
      else do { (read_status, s) \<leftarrow> ReadReservedPage E f tag s;
                case read_status of
                  Inl e \<Rightarrow> do { (_, s) \<leftarrow> AbortLoadReservation E f tag (Inl e) s; Some (Inl e, False, s) }
                | Inr _ \<Rightarrow> do { s \<leftarrow> PublishLoadedFrame E tag reservation True False s; Some (Inr f, False, s) } })"

definition LoadPage ::
  "('r, 'd) Env \<Rightarrow> BufferTag \<Rightarrow> nat option \<Rightarrow> ReadBufferMode \<Rightarrow> ('r, 'd) BufferManager
     \<Rightarrow> (FrameId option Result \<times> bool \<times> ('r, 'd) BufferManager) option" where
  "LoadPage E tag strategy mode s =
     do { (reserved, s) \<leftarrow> ReserveFrameForTag E tag strategy True s;
          case reserved of
            Inl e \<Rightarrow> Some (Inl e, False, s)
          | Inr None \<Rightarrow> Some (Inr None, False, s)
          | Inr (Some reservation) \<Rightarrow>
              do { let s = observe (ob_RecordReadMiss tag) s;
                   (frame, latched, s) \<leftarrow> CompleteReservation E tag reservation mode s;
                   Some (map_sum id Some frame, latched, s) } }"

definition records_access :: "nat option \<Rightarrow> ('r, 'd) BufferManager \<Rightarrow> bool" where
  "records_access strategy s \<longleftrightarrow>
     (case strategy of None \<Rightarrow> True | Some p \<Rightarrow> as_RecordsAccesses (bm_strategies s p))"

partial_function (option) pin_loop ::
  "('r, 'd) Env \<Rightarrow> BufferTag \<Rightarrow> nat option \<Rightarrow> ReadBufferMode \<Rightarrow> bool \<Rightarrow> bool \<Rightarrow> ('r, 'd) BufferManager
     \<Rightarrow> (FrameId Result \<times> bool \<times> ('r, 'd) BufferManager) option" where
  "pin_loop E tag strategy mode record_access waited s =
     do { (probe, f, s) \<leftarrow> ProbeResident E tag record_access s;
          if probe = kPinnedP
          then Some (Inr f, False, observe (if waited then ob_RecordJoinedMissHit tag else ob_RecordResidentHit tag) s)
          else if probe = kLoadingP
          then do { s \<leftarrow> WaitForLoad E f tag s; pin_loop E tag strategy mode record_access True s }
          else do { (loaded, latched, s) \<leftarrow> LoadPage E tag strategy mode s;
                    case loaded of
                      Inr (Some g) \<Rightarrow> Some (Inr g, latched, s)
                    | Inr None \<Rightarrow> pin_loop E tag strategy mode record_access waited s
                    | Inl e \<Rightarrow>
                        if err_code e \<noteq> kResourceExhausted then Some (Inl e, latched, s)
                        else do { resident \<leftarrow> IsResidentTag s tag;
                                  if \<not> resident then Some (Inl e, latched, s)
                                  else pin_loop E tag strategy mode record_access waited s } } }"

definition PinPage ::
  "('r, 'd) Env \<Rightarrow> BufferTag \<Rightarrow> nat option \<Rightarrow> ReadBufferMode \<Rightarrow> ('r, 'd) BufferManager
     \<Rightarrow> (FrameId Result \<times> bool \<times> ('r, 'd) BufferManager) option" where
  "PinPage E tag strategy mode s =
     (case CheckUsable s of
        Inl e \<Rightarrow> Some (Inl e, False, s)
      | Inr _ \<Rightarrow> pin_loop E tag strategy mode (records_access strategy s) False s)"

section \<open>Dropping pages\<close>

text \<open>
  The loop of \<^verbatim>\<open>DropFileBuffers\<close> on one frame.  The result says whether the page was in use.
\<close>

partial_function (option) drop_frame ::
  "('r, 'd) Env \<Rightarrow> FileId \<Rightarrow> BlockId \<Rightarrow> FrameId \<Rightarrow> ('r, 'd) BufferManager \<Rightarrow> (bool \<times> ('r, 'd) BufferManager) option" where
  "drop_frame E file_id first_block f s =
     (let tag = frame_tag s f; word = control s f in
      if State word = kFree \<or> bt_file_id tag \<noteq> file_id \<or> bt_block_id tag < first_block then Some (False, s)
      else if State word = kLoading
      then WaitForLoad E f tag s \<bind> drop_frame E file_id first_block f
      else do { (pinned, s) \<leftarrow> TryPinResidentFrame E f tag False s;
                if \<not> pinned then drop_frame E file_id first_block f s
                else case TryDiscardPinned (control s f) of
                  (kWriteback, _) \<Rightarrow>
                    do { (_, s) \<leftarrow> WaitForPendingFlush E f (ReleaseFrame f s);
                         drop_frame E file_id first_block f s }
                | (kLatched, _) \<Rightarrow>
                    do { s \<leftarrow> wait_while E f (\<lambda>s. LatchBlocked (control s f)) s;
                         drop_frame E file_id first_block f (ReleaseFrame f s) }
                | (kBusy, _) \<Rightarrow> Some (True, ReleaseFrame f s)
                | (kDiscarded, previous, word, _) \<Rightarrow>
                    do { let s = set_control f word s;
                         let s = (case previous of
                               Some p \<Rightarrow> if IsDirty p then s\<lparr>bm_dirty_page_count := bm_dirty_page_count s - 1\<rparr> else s
                             | None \<Rightarrow> s);
                         let s = update_desc f (\<lambda>d. d\<lparr>bd_rec_lsn := kInvalidLsn, bd_writeback_rec_lsn := kInvalidLsn\<rparr>) s;
                         t \<leftarrow> pt_Remove tag f (bm_page_table s);
                         r \<leftarrow> rp_Remove (en_replacer E) (en_thread E) f (bm_replacer s);
                         let s = update_desc f (StoreTag emptyTag) (s\<lparr>bm_page_table := t, bm_replacer := r\<rparr>);
                         Some (False, ReleaseFreeFrame f s) } })"

fun drop_frames ::
  "('r, 'd) Env \<Rightarrow> FileId \<Rightarrow> BlockId \<Rightarrow> FrameId list \<Rightarrow> Status \<Rightarrow> ('r, 'd) BufferManager
     \<Rightarrow> (Status \<times> ('r, 'd) BufferManager) option" where
  "drop_frames E file_id first_block [] result s = Some (result, s)"
| "drop_frames E file_id first_block (f # fs) result s =
     do { (in_use, s) \<leftarrow> drop_frame E file_id first_block f s;
          drop_frames E file_id first_block fs
            (if in_use then Inl (InvalidArgument ''a page in the dropped range is in use'') else result) s }"

definition DropFileBuffers ::
  "('r, 'd) Env \<Rightarrow> FileId \<Rightarrow> BlockId \<Rightarrow> ('r, 'd) BufferManager \<Rightarrow> (Status \<times> ('r, 'd) BufferManager) option" where
  "DropFileBuffers E file_id first_block s =
     (case CheckUsable s of
        Inl e \<Rightarrow> Some (Inl e, s)
      | Inr _ \<Rightarrow> drop_frames E file_id first_block (frame_ids (bm_size s)) Ok s)"

section \<open>Handles\<close>

text \<open>
  \<^verbatim>\<open>buffer/buffer_handle.h\<close>.  The manager is its address, a null pointer \<open>None\<close>; \<open>data_\<close> points to
  the memory of a frame.
\<close>

record SharedBufferHandle =
  sh_manager :: "nat option"
  sh_frame_id :: FrameId
  sh_tag :: BufferTag
  sh_data :: "FrameId option"
  sh_size :: size_t

record ExclusiveBufferHandle =
  eh_manager :: "nat option"
  eh_frame_id :: FrameId
  eh_tag :: BufferTag
  eh_data :: "FrameId option"
  eh_size :: size_t
  eh_marked_dirty :: bool

definition sh_null :: SharedBufferHandle where
  "sh_null = \<lparr>sh_manager = None, sh_frame_id = kInvalidFrameId, sh_tag = emptyTag, sh_data = None, sh_size = 0\<rparr>"

definition eh_null :: ExclusiveBufferHandle where
  "eh_null = \<lparr>eh_manager = None, eh_frame_id = kInvalidFrameId, eh_tag = emptyTag, eh_data = None, eh_size = 0,
     eh_marked_dirty = False\<rparr>"

definition MakeSharedHandle ::
  "('r, 'd) Env \<Rightarrow> FrameId \<Rightarrow> BufferTag \<Rightarrow> ('r, 'd) BufferManager
     \<Rightarrow> (SharedBufferHandle \<times> ('r, 'd) BufferManager) option" where
  "MakeSharedHandle E f tag s =
     do { s \<leftarrow> AcquireShared E f s;
          Some (\<lparr>sh_manager = Some (bm_this s), sh_frame_id = f, sh_tag = tag, sh_data = Some f,
                 sh_size = bg_block_size (bm_geometry s)\<rparr>, s) }"

definition MakeExclusiveHandle ::
  "('r, 'd) Env \<Rightarrow> FrameId \<Rightarrow> BufferTag \<Rightarrow> bool \<Rightarrow> ('r, 'd) BufferManager
     \<Rightarrow> (ExclusiveBufferHandle \<times> ('r, 'd) BufferManager) option" where
  "MakeExclusiveHandle E f tag latched s =
     do { s \<leftarrow> (if \<not> latched then AcquireExclusive E f s else Some s);
          Some (\<lparr>eh_manager = Some (bm_this s), eh_frame_id = f, eh_tag = tag, eh_data = Some f,
                 eh_size = bg_block_size (bm_geometry s), eh_marked_dirty = False\<rparr>, s) }"

definition ReleaseSharedHandle :: "FrameId \<Rightarrow> ('r, 'd) BufferManager \<Rightarrow> ('r, 'd) BufferManager" where
  "ReleaseSharedHandle f s = ReleaseFrame f (set_control f (fst (ReleaseShared (control s f))) s)"

definition ReleaseExclusiveHandle :: "FrameId \<Rightarrow> ('r, 'd) BufferManager \<Rightarrow> ('r, 'd) BufferManager" where
  "ReleaseExclusiveHandle f s =
     (let ((word, _), version) = ReleaseExclusive (control s f) (bd_version (bm_descriptors s f))
      in ReleaseFrame f (update_desc f (\<lambda>d. d\<lparr>bd_control := word, bd_version := version\<rparr>) s))"

definition MarkHandleDirty :: "FrameId \<Rightarrow> Lsn \<Rightarrow> ('r, 'd) BufferManager \<Rightarrow> ('r, 'd) BufferManager" where
  "MarkHandleDirty f lsn s =
     (let (became_dirty, word) = MarkDirty (control s f);
          s = set_control f word s;
          s = update_desc f (\<lambda>d. d\<lparr>bd_rec_lsn := LowerRecLsn (bd_rec_lsn d) lsn\<rparr>) s
      in if became_dirty \<noteq> Some True then s
         else NotifyCleaner (s\<lparr>bm_dirty_page_count := bm_dirty_page_count s + 1\<rparr>))"

definition sh_Reset ::
  "SharedBufferHandle \<Rightarrow> ('r, 'd) BufferManager \<Rightarrow> SharedBufferHandle \<times> ('r, 'd) BufferManager" where
  "sh_Reset h s =
     (if sh_manager h = None then (h, s)
      else (h\<lparr>sh_manager := None, sh_frame_id := kInvalidFrameId, sh_data := None, sh_size := 0\<rparr>,
            ReleaseSharedHandle (sh_frame_id h) s))"

definition eh_Reset ::
  "ExclusiveBufferHandle \<Rightarrow> ('r, 'd) BufferManager \<Rightarrow> ExclusiveBufferHandle \<times> ('r, 'd) BufferManager" where
  "eh_Reset h s =
     (if eh_manager h = None then (h, s)
      else (h\<lparr>eh_manager := None, eh_frame_id := kInvalidFrameId, eh_data := None, eh_size := 0,
              eh_marked_dirty := False\<rparr>, ReleaseExclusiveHandle (eh_frame_id h) s))"

text \<open>Moving: the new handle, and the one moved from.\<close>

definition sh_move :: "SharedBufferHandle \<Rightarrow> SharedBufferHandle \<times> SharedBufferHandle" where
  "sh_move other = (other, other\<lparr>sh_manager := None, sh_frame_id := kInvalidFrameId, sh_data := None, sh_size := 0\<rparr>)"

definition eh_move :: "ExclusiveBufferHandle \<Rightarrow> ExclusiveBufferHandle \<times> ExclusiveBufferHandle" where
  "eh_move other = (other, other\<lparr>eh_manager := None, eh_frame_id := kInvalidFrameId, eh_data := None, eh_size := 0,
     eh_marked_dirty := False\<rparr>)"

text \<open>Move assignment to a handle other than the source: the target is released first.\<close>

definition sh_assign ::
  "SharedBufferHandle \<Rightarrow> SharedBufferHandle \<Rightarrow> ('r, 'd) BufferManager
     \<Rightarrow> SharedBufferHandle \<times> SharedBufferHandle \<times> ('r, 'd) BufferManager" where
  "sh_assign target other s = (let (_, s) = sh_Reset target s; (h, left) = sh_move other in (h, left, s))"

definition eh_assign ::
  "ExclusiveBufferHandle \<Rightarrow> ExclusiveBufferHandle \<Rightarrow> ('r, 'd) BufferManager
     \<Rightarrow> ExclusiveBufferHandle \<times> ExclusiveBufferHandle \<times> ('r, 'd) BufferManager" where
  "eh_assign target other s = (let (_, s) = eh_Reset target s; (h, left) = eh_move other in (h, left, s))"

text \<open>The view is the frame whose memory may be written, none for a released handle.\<close>

definition mutable_data ::
  "ExclusiveBufferHandle \<Rightarrow> ('r, 'd) BufferManager \<Rightarrow> FrameId option \<times> ExclusiveBufferHandle \<times> ('r, 'd) BufferManager" where
  "mutable_data h s =
     (if eh_manager h = None then (None, h, s)
      else if \<not> eh_marked_dirty h
      then (eh_data h, h\<lparr>eh_marked_dirty := True\<rparr>, MarkHandleDirty (eh_frame_id h) kInvalidLsn s)
      else (eh_data h, h, s))"

definition eh_MarkDirty ::
  "Lsn \<Rightarrow> ExclusiveBufferHandle \<Rightarrow> ('r, 'd) BufferManager \<Rightarrow> ExclusiveBufferHandle \<times> ('r, 'd) BufferManager" where
  "eh_MarkDirty lsn h s =
     (if eh_manager h = None then (h, s)
      else (h\<lparr>eh_marked_dirty := True\<rparr>, MarkHandleDirty (eh_frame_id h) lsn s))"

text \<open>The client writes through the view.\<close>

definition write_frame :: "FrameId \<Rightarrow> u8 list \<Rightarrow> ('r, 'd) BufferManager \<Rightarrow> ('r, 'd) BufferManager" where
  "write_frame f bytes s = s\<lparr>bm_frames := (bm_frames s)(f := bytes)\<rparr>"

end
