(* ===== verification/Buffer_Manager.thy ===== *)
theory Buffer_Manager
  imports Buffer_Read
begin

text \<open>
  The public operations of the manager: \<^verbatim>\<open>buffer/buffer_manager.cc\<close>, the asynchronous reads of
  \<^verbatim>\<open>buffer_manager_async_read.cc\<close>, and its start and end (\<^verbatim>\<open>buffer_manager_lifecycle.cc\<close>).
\<close>

section \<open>Asynchronous reads\<close>

definition AppendAsyncLoad ::
  "nat \<Rightarrow> nat option \<Rightarrow> BufferTag \<Rightarrow> FrameReservation \<Rightarrow> nat \<Rightarrow> AsyncLoad list \<Rightarrow> AsyncLoad list" where
  "AppendAsyncLoad max_request_blocks operation tag reservation slot loads =
     (let entry = \<lparr>ae_tag = tag, ae_reservation = reservation, ae_slot = slot\<rparr>;
          extends_last = (loads \<noteq> [] \<and> length (al_entries (last loads)) < max_request_blocks \<and>
            bt_file_id (ae_tag (last (al_entries (last loads)))) = bt_file_id tag \<and>
            bt_block_id (ae_tag (last (al_entries (last loads)))) + 1 = bt_block_id tag);
          loads = (if \<not> extends_last then loads @ [\<lparr>al_operation = operation, al_entries = []\<rparr>] else loads)
      in butlast loads @ [(last loads)\<lparr>al_entries := al_entries (last loads) @ [entry]\<rparr>])"

definition submit_load :: "AsyncLoad \<Rightarrow> ('r, 'd) BufferManager \<Rightarrow> ('r, 'd) BufferManager" where
  "submit_load load s =
     (let s = (case al_operation load of
            Some p \<Rightarrow> s\<lparr>bm_operations := (bm_operations s)(p :=
              map_option (\<lambda>st. st\<lparr>rb_waiter := iw_Add 1 (rb_waiter st)\<rparr>) (bm_operations s p))\<rparr>
          | None \<Rightarrow> s\<lparr>bm_prefetches_in_flight := bm_prefetches_in_flight s + 1\<rparr>)
      in s\<lparr>bm_loads := bm_loads s @ [load]\<rparr>)"

definition SubmitAsyncLoads :: "AsyncLoad list \<Rightarrow> ('r, 'd) BufferManager \<Rightarrow> ('r, 'd) BufferManager" where
  "SubmitAsyncLoads loads s = fold submit_load loads s"

fun prefetch_blocks ::
  "('r, 'd) Env \<Rightarrow> FileId \<Rightarrow> BlockId \<Rightarrow> nat list \<Rightarrow> AsyncLoad list \<Rightarrow> ('r, 'd) BufferManager
     \<Rightarrow> (Status \<times> AsyncLoad list \<times> ('r, 'd) BufferManager) option" where
  "prefetch_blocks E file_id block_id [] loads s = Some (Ok, loads, s)"
| "prefetch_blocks E file_id block_id (i # is) loads s =
     (let tag = \<lparr>bt_file_id = file_id, bt_block_id = block_id + word_of_nat i\<rparr> in
      do { resident \<leftarrow> IsResidentTag s tag;
           if resident then prefetch_blocks E file_id block_id is loads s
           else do { (reservation, s) \<leftarrow> ReserveFrameForTag E tag None False s;
                     case reservation of
                       Inl e \<Rightarrow> Some (if err_code e \<noteq> kResourceExhausted then Inl e else Ok, loads, s)
                     | Inr None \<Rightarrow> prefetch_blocks E file_id block_id is loads s
                     | Inr (Some r) \<Rightarrow>
                         prefetch_blocks E file_id block_id is
                           (AppendAsyncLoad (dk_max_request_blocks (en_disk E)) None tag r i loads) s } })"

definition PrefetchBuffer ::
  "('r, 'd) Env \<Rightarrow> FileId \<Rightarrow> BlockId \<Rightarrow> size_t \<Rightarrow> ('r, 'd) BufferManager \<Rightarrow> (Status \<times> ('r, 'd) BufferManager) option" where
  "PrefetchBuffer E file_id block_id block_count s =
     (case CheckUsable s of
        Inl e \<Rightarrow> Some (Inl e, s)
      | Inr _ \<Rightarrow>
          do { (status, loads, s) \<leftarrow> prefetch_blocks E file_id block_id [0..<unat block_count] [] s;
               Some (status, SubmitAsyncLoads loads s) })"

text \<open>\<^verbatim>\<open>ReadBuffersOperation\<close>; its state is a key of \<open>bm_operations\<close>.\<close>

record ReadBuffersOperation =
  ro_manager :: "nat option"
  ro_state :: "nat option"
  ro_handles :: "SharedBufferHandle list"

definition in_progress :: "ReadBuffersOperation \<Rightarrow> bool" where
  "in_progress operation \<longleftrightarrow> ro_state operation \<noteq> None"

definition clear_handles :: "SharedBufferHandle list \<Rightarrow> ('r, 'd) BufferManager \<Rightarrow> ('r, 'd) BufferManager" where
  "clear_handles hs s = fold (\<lambda>h s. snd (sh_Reset h s)) hs s"

text \<open>
  The loop of \<^verbatim>\<open>StartReadBuffers\<close> over the blocks: the frames and slots found, in block order,
  and the loads to be submitted.
\<close>

fun start_blocks ::
  "('r, 'd) Env \<Rightarrow> nat \<Rightarrow> FileId \<Rightarrow> BlockId \<Rightarrow> nat option \<Rightarrow> bool \<Rightarrow> nat list \<Rightarrow> ReadBuffersState \<Rightarrow> AsyncLoad list
     \<Rightarrow> ('r, 'd) BufferManager \<Rightarrow> (ReadBuffersState \<times> AsyncLoad list \<times> ('r, 'd) BufferManager) option" where
  "start_blocks E p file_id block_id strategy record_access [] st loads s = Some (st, loads, s)"
| "start_blocks E p file_id block_id strategy record_access (i # is) st loads s =
     (let tag = \<lparr>bt_file_id = file_id, bt_block_id = block_id + word_of_nat i\<rparr>;
          st = st\<lparr>rb_tags := (rb_tags st)[i := tag]\<rparr>;
          continue = start_blocks E p file_id block_id strategy record_access is
      in do { (hit, s) \<leftarrow> TryReadResidentHit E tag record_access s;
              case hit of
                Some f \<Rightarrow> continue (st\<lparr>rb_frames := (rb_frames st)[i := f], rb_slots := (rb_slots st)[i := kPinnedS]\<rparr>) loads s
              | None \<Rightarrow>
                  do { resident \<leftarrow> IsResidentTag s tag;
                       if resident then continue st loads s
                       else do { (reservation, s) \<leftarrow> ReserveFrameForTag E tag strategy False s;
                                 case reservation of
                                   Inl e \<Rightarrow> continue st loads s
                                 | Inr None \<Rightarrow> continue st loads s
                                 | Inr (Some r) \<Rightarrow>
                                     continue
                                       (st\<lparr>rb_frames := (rb_frames st)[i := rs_frame_id r],
                                           rb_slots := (rb_slots st)[i := kLoadingS]\<rparr>)
                                       (AppendAsyncLoad (dk_max_request_blocks (en_disk E)) (Some p) tag r i loads)
                                       (observe (ob_RecordReadMiss tag) s) } } })"

definition StartReadBuffers ::
  "('r, 'd) Env \<Rightarrow> ReadBuffersOperation \<Rightarrow> FileId \<Rightarrow> BlockId \<Rightarrow> size_t \<Rightarrow> nat option \<Rightarrow> ('r, 'd) BufferManager
     \<Rightarrow> (Status \<times> ReadBuffersOperation \<times> ('r, 'd) BufferManager) option" where
  "StartReadBuffers E operation file_id block_id block_count strategy s =
     (case CheckUsable s of
        Inl e \<Rightarrow> Some (Inl e, operation, s)
      | Inr _ \<Rightarrow>
          if in_progress operation
          then Some (Inl (InvalidArgument ''read buffers operation is still in progress''), operation, s)
          else let s = clear_handles (ro_handles operation) s;
                   n = unat block_count; p = bm_next_operation s;
                   st = \<lparr>rb_strategy = strategy, rb_tags = replicate n emptyTag, rb_frames = replicate n kInvalidFrameId,
                         rb_slots = replicate n kDeferred, rb_waiter = iw_create 0\<rparr>
               in do { (st, loads, s) \<leftarrow> start_blocks E p file_id block_id strategy (records_access strategy s)
                         [0..<n] st [] s;
                       let s = s\<lparr>bm_next_operation := p + 1, bm_operations := (bm_operations s)(p \<mapsto> st)\<rparr>;
                       Some (Ok, \<lparr>ro_manager = Some (bm_this s), ro_state = Some p, ro_handles = []\<rparr>,
                             SubmitAsyncLoads loads s) })"

text \<open>
  \<^verbatim>\<open>IoEngine::Wait\<close> on the waiter of an operation: its loads are completed until it is done; the
  wait ends early only if the engine has stopped.
\<close>

partial_function (option) wait_operation ::
  "('r, 'd) Env \<Rightarrow> nat \<Rightarrow> ('r, 'd) BufferManager \<Rightarrow> (Status \<times> ('r, 'd) BufferManager) option" where
  "wait_operation E p s =
     (case bm_operations s p of
        None \<Rightarrow> None
      | Some st \<Rightarrow>
          if iw_done (rb_waiter st) then Some (iw_status (rb_waiter st), s)
          else if bm_loads s \<noteq> [] then run_load E s \<bind> wait_operation E p
          else (case dk_stop_status (en_disk E) (bm_disk s) of
                  Some reason \<Rightarrow> Some (reason, s)
                | None \<Rightarrow> None))"

fun pin_deferred ::
  "('r, 'd) Env \<Rightarrow> nat list \<Rightarrow> ReadBuffersState \<Rightarrow> ('r, 'd) BufferManager
     \<Rightarrow> (Status \<times> ReadBuffersState \<times> ('r, 'd) BufferManager) option" where
  "pin_deferred E [] st s = Some (Ok, st, s)"
| "pin_deferred E (i # is) st s =
     (if rb_slots st ! i \<noteq> kDeferred then pin_deferred E is st s
      else do { (frame, _, s) \<leftarrow> PinPage E (rb_tags st ! i) (rb_strategy st) kNormalMode s;
                case frame of
                  Inl e \<Rightarrow> Some (Inl e, st, s)
                | Inr f \<Rightarrow> pin_deferred E is
                    (st\<lparr>rb_frames := (rb_frames st)[i := f], rb_slots := (rb_slots st)[i := kPinnedS]\<rparr>) s })"

fun finish_slots ::
  "('r, 'd) Env \<Rightarrow> bool \<Rightarrow> nat list \<Rightarrow> ReadBuffersState \<Rightarrow> ('r, 'd) BufferManager
     \<Rightarrow> (SharedBufferHandle list \<times> ('r, 'd) BufferManager) option" where
  "finish_slots E keep [] st s = Some ([], s)"
| "finish_slots E keep (i # is) st s =
     (if rb_slots st ! i \<noteq> kPinnedS \<and> rb_slots st ! i \<noteq> kLoadingS then finish_slots E keep is st s
      else if keep
      then do { (h, s) \<leftarrow> MakeSharedHandle E (rb_frames st ! i) (rb_tags st ! i) s;
                (hs, s) \<leftarrow> finish_slots E keep is st s;
                Some (h # hs, s) }
      else finish_slots E keep is st (ReleaseFrame (rb_frames st ! i) s))"

definition FinishReadBuffers ::
  "('r, 'd) Env \<Rightarrow> ReadBuffersOperation \<Rightarrow> bool \<Rightarrow> ('r, 'd) BufferManager
     \<Rightarrow> (Status \<times> ReadBuffersOperation \<times> ('r, 'd) BufferManager) option" where
  "FinishReadBuffers E operation make_handles s =
     (case ro_state operation of
        None \<Rightarrow> None
      | Some p \<Rightarrow>
          do { (io_status, s) \<leftarrow> wait_operation E p s;
               st \<leftarrow> bm_operations s p;
               if \<not> iw_done (rb_waiter st) then Some (io_status, operation\<lparr>ro_state := None\<rparr>, s)
               else do {
                 (result, st, s) \<leftarrow> (if isl io_status \<or> \<not> make_handles then Some (io_status, st, s)
                                     else pin_deferred E [0..<length (rb_slots st)] st s);
                 let keep = (\<not> isl result \<and> make_handles);
                 (hs, s) \<leftarrow> finish_slots E keep [0..<length (rb_slots st)] st s;
                 Some (result, operation\<lparr>ro_state := None, ro_handles := ro_handles operation @ hs\<rparr>,
                       s\<lparr>bm_operations := (bm_operations s)(p := None)\<rparr>) } })"

definition WaitReadBuffers ::
  "('r, 'd) Env \<Rightarrow> ReadBuffersOperation \<Rightarrow> ('r, 'd) BufferManager
     \<Rightarrow> (Status \<times> ReadBuffersOperation \<times> ('r, 'd) BufferManager) option" where
  "WaitReadBuffers E operation s =
     (if \<not> in_progress operation
      then Some (Inl (InvalidArgument ''read buffers operation is not in progress''), operation, s)
      else if ro_manager operation \<noteq> Some (bm_this s)
      then Some (Inl (InvalidArgument ''read buffers operation belongs to another buffer manager''), operation, s)
      else FinishReadBuffers E operation True s)"

text \<open>The destructor of an operation, with that of its handles.\<close>

definition ro_destroy ::
  "('r, 'd) Env \<Rightarrow> ReadBuffersOperation \<Rightarrow> ('r, 'd) BufferManager \<Rightarrow> ('r, 'd) BufferManager option" where
  "ro_destroy E operation s =
     do { (operation, s) \<leftarrow> (if ro_state operation = None \<or> ro_manager operation = None then Some (operation, s)
                             else do { (_, operation, s) \<leftarrow> FinishReadBuffers E operation False s;
                                       Some (operation, s) });
          Some (clear_handles (ro_handles operation) s) }"

section \<open>Reading and releasing\<close>

definition ReadBuffer ::
  "('r, 'd) Env \<Rightarrow> FileId \<Rightarrow> BlockId \<Rightarrow> nat option \<Rightarrow> ('r, 'd) BufferManager
     \<Rightarrow> (SharedBufferHandle Result \<times> ('r, 'd) BufferManager) option" where
  "ReadBuffer E file_id block_id strategy s =
     (let tag = \<lparr>bt_file_id = file_id, bt_block_id = block_id\<rparr> in
      do { (frame, _, s) \<leftarrow> PinPage E tag strategy kNormalMode s;
           case frame of
             Inl e \<Rightarrow> Some (Inl e, s)
           | Inr f \<Rightarrow> do { (h, s) \<leftarrow> MakeSharedHandle E f tag s; Some (Inr h, s) } })"

definition ReadBufferExclusive ::
  "('r, 'd) Env \<Rightarrow> FileId \<Rightarrow> BlockId \<Rightarrow> nat option \<Rightarrow> ReadBufferMode \<Rightarrow> ('r, 'd) BufferManager
     \<Rightarrow> (ExclusiveBufferHandle Result \<times> ('r, 'd) BufferManager) option" where
  "ReadBufferExclusive E file_id block_id strategy mode s =
     (let tag = \<lparr>bt_file_id = file_id, bt_block_id = block_id\<rparr> in
      do { (frame, latched, s) \<leftarrow> PinPage E tag strategy mode s;
           case frame of
             Inl e \<Rightarrow> Some (Inl e, s)
           | Inr f \<Rightarrow> do { (h, s) \<leftarrow> MakeExclusiveHandle E f tag latched s; Some (Inr h, s) } })"

definition sh_ReleaseBuffer ::
  "SharedBufferHandle \<Rightarrow> ('r, 'd) BufferManager \<Rightarrow> Status \<times> SharedBufferHandle \<times> ('r, 'd) BufferManager" where
  "sh_ReleaseBuffer handle s =
     (case CheckUsable s of
        Inl e \<Rightarrow> (Inl e, handle, s)
      | Inr _ \<Rightarrow>
          if sh_manager handle \<noteq> Some (bm_this s)
          then (Inl (InvalidArgument ''buffer handle does not belong to this buffer manager''), handle, s)
          else let (h, s) = sh_Reset handle s in (Ok, h, s))"

definition eh_ReleaseBuffer ::
  "ExclusiveBufferHandle \<Rightarrow> ('r, 'd) BufferManager \<Rightarrow> Status \<times> ExclusiveBufferHandle \<times> ('r, 'd) BufferManager" where
  "eh_ReleaseBuffer handle s =
     (case CheckUsable s of
        Inl e \<Rightarrow> (Inl e, handle, s)
      | Inr _ \<Rightarrow>
          if eh_manager handle \<noteq> Some (bm_this s)
          then (Inl (InvalidArgument ''buffer handle does not belong to this buffer manager''), handle, s)
          else let (h, s) = eh_Reset handle s in (Ok, h, s))"

section \<open>Flushing\<close>

definition sh_FlushBuffer ::
  "('r, 'd) Env \<Rightarrow> SharedBufferHandle \<Rightarrow> ('r, 'd) BufferManager \<Rightarrow> (Status \<times> ('r, 'd) BufferManager) option" where
  "sh_FlushBuffer E handle s =
     (case CheckUsable s of
        Inl e \<Rightarrow> Some (Inl e, s)
      | Inr _ \<Rightarrow>
          if sh_manager handle \<noteq> Some (bm_this s)
          then Some (Inl (InvalidArgument ''buffer handle does not belong to this buffer manager''), s)
          else FlushFrameWithStableSource E (sh_frame_id handle) (sh_data handle) s)"

definition eh_FlushBuffer ::
  "('r, 'd) Env \<Rightarrow> ExclusiveBufferHandle \<Rightarrow> ('r, 'd) BufferManager \<Rightarrow> (Status \<times> ('r, 'd) BufferManager) option" where
  "eh_FlushBuffer E handle s =
     (case CheckUsable s of
        Inl e \<Rightarrow> Some (Inl e, s)
      | Inr _ \<Rightarrow>
          if eh_manager handle \<noteq> Some (bm_this s)
          then Some (Inl (InvalidArgument ''buffer handle does not belong to this buffer manager''), s)
          else FlushFrameOnce E (eh_frame_id handle) (eh_data handle) s)"

definition FlushBuffer ::
  "('r, 'd) Env \<Rightarrow> FileId \<Rightarrow> BlockId \<Rightarrow> ('r, 'd) BufferManager \<Rightarrow> (Status \<times> ('r, 'd) BufferManager) option" where
  "FlushBuffer E file_id block_id s =
     (case CheckUsable s of
        Inl e \<Rightarrow> Some (Inl e, s)
      | Inr _ \<Rightarrow>
          let tag = \<lparr>bt_file_id = file_id, bt_block_id = block_id\<rparr> in
          do { frame_id \<leftarrow> LookupFrameId (bm_page_table s) tag;
               case frame_id of
                 None \<Rightarrow> Some (Ok, s)
               | Some f \<Rightarrow>
                   do { (pinned, s) \<leftarrow> TryPinResidentFrame E f tag False s;
                        if \<not> pinned then Some (Ok, s)
                        else do { (flush_status, s) \<leftarrow> FlushFrame E f s;
                                  Some (flush_status, ReleaseFrame f s) } } })"

text \<open>
  The loop of \<^verbatim>\<open>WriteBackFrames\<close>: the queued tasks and the busy frames, or the first error of
  scheduling.
\<close>

fun schedule_frames ::
  "('r, 'd) Env \<Rightarrow> (FrameId \<Rightarrow> ('r, 'd) BufferManager \<Rightarrow> bool) \<Rightarrow> FrameId list \<Rightarrow> nat list \<Rightarrow> FrameId list
     \<Rightarrow> ('r, 'd) BufferManager \<Rightarrow> ((nat list \<times> FrameId list) Result \<times> ('r, 'd) BufferManager) option" where
  "schedule_frames E selected [] tasks busy s = Some (Inr (tasks, busy), s)"
| "schedule_frames E selected (f # fs) tasks busy s =
     (if \<not> selected f s then schedule_frames E selected fs tasks busy s
      else do { (r, was_busy, s) \<leftarrow> TryScheduleFlushTask E f None True False s;
                case r of
                  Inl e \<Rightarrow> Some (Inl e, s)
                | Inr task \<Rightarrow>
                    if was_busy then schedule_frames E selected fs tasks (busy @ [f]) s
                    else (case task of
                            None \<Rightarrow> schedule_frames E selected fs tasks busy s
                          | Some t \<Rightarrow> schedule_frames E selected fs (tasks @ [t]) busy s) })"

definition WriteBackFrames ::
  "('r, 'd) Env \<Rightarrow> (FrameId \<Rightarrow> ('r, 'd) BufferManager \<Rightarrow> bool) \<Rightarrow> ('r, 'd) BufferManager
     \<Rightarrow> (Status \<times> ('r, 'd) BufferManager) option" where
  "WriteBackFrames E selected s =
     do { (scheduled, s) \<leftarrow> schedule_frames E selected (frame_ids (bm_size s)) [] [] s;
          case scheduled of
            Inl e \<Rightarrow> Some (Inl e, s)
          | Inr (queued_tasks, busy_frames) \<Rightarrow>
              do { (wait_status, s) \<leftarrow> WaitForScheduledFlushes E queued_tasks Ok s;
                   (flush_status, s) \<leftarrow> FlushBusyFrames E busy_frames Ok s;
                   Some (if isl wait_status then wait_status else flush_status, s) } }"

definition FlushAll :: "('r, 'd) Env \<Rightarrow> ('r, 'd) BufferManager \<Rightarrow> (Status \<times> ('r, 'd) BufferManager) option" where
  "FlushAll E s =
     (case CheckUsable s of
        Inl e \<Rightarrow> Some (Inl e, s)
      | Inr _ \<Rightarrow>
          do { (written, s) \<leftarrow> WriteBackFrames E (\<lambda>_ _. True) s;
               if isl written then Some (written, s) else SyncWrittenFiles E s })"

definition FlushFileBuffers ::
  "('r, 'd) Env \<Rightarrow> FileId \<Rightarrow> ('r, 'd) BufferManager \<Rightarrow> (Status \<times> ('r, 'd) BufferManager) option" where
  "FlushFileBuffers E file_id s =
     (case CheckUsable s of
        Inl e \<Rightarrow> Some (Inl e, s)
      | Inr _ \<Rightarrow> WriteBackFrames E (\<lambda>f s. bt_file_id (frame_tag s f) = file_id) s)"

definition SyncFile ::
  "('r, 'd) Env \<Rightarrow> FileId \<Rightarrow> ('r, 'd) BufferManager \<Rightarrow> (Status \<times> ('r, 'd) BufferManager) option" where
  "SyncFile E file_id s =
     (case CheckUsable s of
        Inl e \<Rightarrow> Some (Inl e, s)
      | Inr _ \<Rightarrow>
          let s = s\<lparr>bm_written_files := removeAll file_id (bm_written_files s)\<rparr>;
              s = (case bm_segment s of
                     None \<Rightarrow> s
                   | Some shared \<Rightarrow>
                       let n = unat (sw_count shared);
                           kept = removeAll file_id (take n (sw_files shared))
                       in s\<lparr>bm_segment := Some (shared\<lparr>sw_files := kept @ drop (length kept) (sw_files shared),
                                                     sw_count := word_of_nat (length kept)\<rparr>)\<rparr>)
          in SyncFiles E [file_id] s)"

definition before_lsn :: "Lsn \<Rightarrow> FrameId \<Rightarrow> ('r, 'd) BufferManager \<Rightarrow> bool" where
  "before_lsn lsn f s \<longleftrightarrow>
     FrameRecLsn (bm_descriptors s f) \<noteq> kInvalidLsn \<and> FrameRecLsn (bm_descriptors s f) < lsn"

partial_function (option) checkpoint_frame ::
  "('r, 'd) Env \<Rightarrow> Lsn \<Rightarrow> FrameId \<Rightarrow> ('r, 'd) BufferManager \<Rightarrow> (Status \<times> ('r, 'd) BufferManager) option" where
  "checkpoint_frame E lsn f s =
     (if \<not> before_lsn lsn f s then Some (Ok, s)
      else do { (wrote, s) \<leftarrow> ForegroundFlushRound E f None s;
                case wrote of
                  Inl e \<Rightarrow> Some (Inl e, s)
                | Inr w \<Rightarrow> if \<not> w then Some (Ok, s) else checkpoint_frame E lsn f s })"

fun checkpoint_frames ::
  "('r, 'd) Env \<Rightarrow> Lsn \<Rightarrow> FrameId list \<Rightarrow> ('r, 'd) BufferManager \<Rightarrow> (Status \<times> ('r, 'd) BufferManager) option" where
  "checkpoint_frames E lsn [] s = Some (Ok, s)"
| "checkpoint_frames E lsn (f # fs) s =
     do { (status, s) \<leftarrow> checkpoint_frame E lsn f s;
          if isl status then Some (status, s) else checkpoint_frames E lsn fs s }"

definition CheckpointBuffers ::
  "('r, 'd) Env \<Rightarrow> Lsn \<Rightarrow> ('r, 'd) BufferManager \<Rightarrow> (Status \<times> ('r, 'd) BufferManager) option" where
  "CheckpointBuffers E lsn s =
     (case CheckUsable s of
        Inl e \<Rightarrow> Some (Inl e, s)
      | Inr _ \<Rightarrow>
          do { (written, s) \<leftarrow> WriteBackFrames E (before_lsn lsn) s;
               if isl written then Some (written, s)
               else do { (status, s) \<leftarrow> checkpoint_frames E lsn (frame_ids (bm_size s)) s;
                         if isl status then Some (status, s) else SyncWrittenFiles E s } })"

section \<open>Starting\<close>

text \<open>
  What the system and the other components answer while a manager starts: whether memory
  and threads can be had, the initial contents of the frames, the shared segment if one is
  named and the replacer bound to it, and the start of the observation.
\<close>

record KernelImage =
  ki_dirty_page_count :: size_t
  ki_descriptors :: "FrameId \<Rightarrow> BufferDescriptor"
  ki_page_table :: PageTable
  ki_free_list :: FrameFreeList
  ki_frames :: "FrameId \<Rightarrow> u8 list"

record SharedSegment =
  sg_created :: bool
  sg_written_files :: SharedWrittenFiles
  sg_kernel :: KernelImage

record 'r Startup =
  su_memory :: bool
  su_frames :: "FrameId \<Rightarrow> u8 list"
  su_shared_state_bytes :: size_t
  su_segment :: "SharedSegment Result"
  su_bound :: "Status \<times> 'r"
  su_io_thread :: bool
  su_flush_threads :: bool
  su_cleaner_thread :: bool
  su_observation :: Status

text \<open>The constructor.\<close>

definition bm_create ::
  "nat \<Rightarrow> u32 \<Rightarrow> BufferManagerOptions \<Rightarrow> BlockGeometry \<Rightarrow> 'd \<Rightarrow> 'r \<Rightarrow> (nat \<Rightarrow> BufferAccessStrategy) \<Rightarrow> ('r, 'd) BufferManager" where
  "bm_create this hardware_concurrency options geometry disk policy strategies =
     \<lparr>bm_this = this, bm_pool_size = bo_pool_size options, bm_geometry = geometry,
      bm_options = options\<lparr>bo_page_table_stripe_count := ResolvePageTableStripeCount hardware_concurrency options\<rparr>,
      bm_segment = None, bm_disk = disk, bm_replacer = policy, bm_events = [], bm_failed = False, bm_closed = False,
      bm_failure = None, bm_frames = (\<lambda>_. []), bm_flush_scheduler = sch_create 0 0 0, bm_next_task = 0,
      bm_cleaner_controller = None, bm_page_table = pt_create 0 0, bm_descriptors = (\<lambda>_. bd_default),
      bm_free_list = fl_empty, bm_observation = False, bm_written_files = [], bm_dirty_page_count = 0,
      bm_prefetches_in_flight = 0, bm_loads = [], bm_operations = (\<lambda>_. None), bm_next_operation = 0,
      bm_strategies = strategies\<rparr>"

definition InitializeKernelMemory ::
  "'r Startup \<Rightarrow> ('r, 'd) BufferManager \<Rightarrow> Status \<times> ('r, 'd) BufferManager" where
  "InitializeKernelMemory su s =
     (let pool_size = bm_size s; stripes = bo_page_table_stripe_count (bm_options s);
          fresh = \<lparr>ki_dirty_page_count = 0, ki_descriptors = (\<lambda>_. bd_default), ki_page_table = pt_create pool_size stripes,
                   ki_free_list = fl_empty, ki_frames = su_frames su\<rparr>;
          use = (\<lambda>k s. s\<lparr>bm_dirty_page_count := ki_dirty_page_count k, bm_descriptors := ki_descriptors k,
                   bm_page_table := ki_page_table k, bm_free_list := ki_free_list k, bm_frames := ki_frames k\<rparr>)
      in case fmp_Validate (bm_pool_size s) (bm_geometry s) of
           Inl e \<Rightarrow> (Inl e, s)
         | Inr _ \<Rightarrow>
             if sm_name (bo_shared_memory (bm_options s)) = ''''
             then (if \<not> su_memory su then (Inl (ResourceExhausted ''failed to allocate kernel memory''), s)
                   else (Ok, use fresh s))
             else if su_shared_state_bytes su = 0
             then (Inl (InvalidArgument ''replacer does not support cross-process mode''), s)
             else case su_segment su of
               Inl e \<Rightarrow> (Inl e, s)
             | Inr segment \<Rightarrow>
                 let s = s\<lparr>bm_segment := Some (sg_written_files segment)\<rparr> in
                 case su_bound su of
                   (Inl e, r) \<Rightarrow> (Inl e, s\<lparr>bm_replacer := r\<rparr>)
                 | (Inr _, r) \<Rightarrow> (Ok, use (if sg_created segment then fresh else sg_kernel segment) (s\<lparr>bm_replacer := r\<rparr>)))"

definition SeedFreeFrames :: "('r, 'd) BufferManager \<Rightarrow> ('r, 'd) BufferManager" where
  "SeedFreeFrames s =
     fold (\<lambda>f s. let s = update_desc f (\<lambda>d. d\<lparr>bd_frame_id := f\<rparr>) s
                 in s\<lparr>bm_free_list := fl_Push f (bm_free_list s)\<rparr>)
       (frame_ids (bm_size s)) s"

definition StartFlushScheduler :: "bool \<Rightarrow> ('r, 'd) BufferManager \<Rightarrow> Status \<times> ('r, 'd) BufferManager" where
  "StartFlushScheduler threads_start s =
     (let opts = bm_options s;
          (status, scheduler) = sch_Start threads_start
            (sch_create (bo_flush_worker_count opts) (bo_flush_submit_batch_size opts) (bo_flush_foreground_burst_limit opts))
      in (status, s\<lparr>bm_flush_scheduler := scheduler\<rparr>))"

definition StartCleanerController :: "bool \<Rightarrow> ('r, 'd) BufferManager \<Rightarrow> Status \<times> ('r, 'd) BufferManager" where
  "StartCleanerController thread_starts s =
     (if \<not> bo_enable_background_cleaner (bm_options s) then (Ok, s)
      else let (status, c) = cl_Start thread_starts
                 (cl_create (bm_size s) (bo_dirty_page_high_watermark (bm_options s)) (bo_dirty_page_low_watermark (bm_options s)))
           in (status, s\<lparr>bm_cleaner_controller := Some c\<rparr>))"

text \<open>\<^verbatim>\<open>StartObservation\<close>, up to the publisher that it opens.\<close>

definition StartObservation :: "Status \<Rightarrow> ('r, 'd) BufferManager \<Rightarrow> Status \<times> ('r, 'd) BufferManager" where
  "StartObservation opened s =
     (if \<not> ob_enabled (bo_observation (bm_options s)) then (Ok, s)
      else case opened of
        Inl e \<Rightarrow> (Inl e, s)
      | Inr _ \<Rightarrow> (Ok, s\<lparr>bm_observation := True\<rparr>))"

section \<open>Stopping\<close>

text \<open>Joining the workers: they take batches until none is left.\<close>

partial_function (option) drain_workers ::
  "('r, 'd) Env \<Rightarrow> ('r, 'd) BufferManager \<Rightarrow> ('r, 'd) BufferManager option" where
  "drain_workers E s =
     do { (stop, s) \<leftarrow> worker_pass E 0 s;
          if stop then Some s else drain_workers E s }"

definition shut_scheduler :: "('r, 'd) Env \<Rightarrow> ('r, 'd) BufferManager \<Rightarrow> ('r, 'd) BufferManager option" where
  "shut_scheduler E s =
     (if \<not> sch_started (bm_flush_scheduler s) then Some s
      else do { s \<leftarrow> drain_workers E (s\<lparr>bm_flush_scheduler := sch_Shutdown (bm_flush_scheduler s)\<rparr>);
                Some (s\<lparr>bm_flush_scheduler := sch_Joined (bm_flush_scheduler s)\<rparr>) })"

text \<open>Joining the reaper: loads in flight are completed first.\<close>

partial_function (option) drain_loads ::
  "('r, 'd) Env \<Rightarrow> ('r, 'd) BufferManager \<Rightarrow> ('r, 'd) BufferManager option" where
  "drain_loads E s = (if bm_loads s = [] then Some s else run_load E s \<bind> drain_loads E)"

definition StopFlushPipeline ::
  "('r, 'd) Env \<Rightarrow> Status \<Rightarrow> ('r, 'd) BufferManager \<Rightarrow> ('r, 'd) BufferManager option" where
  "StopFlushPipeline E reason s =
     do { let s = s\<lparr>bm_cleaner_controller := map_option cl_Shutdown (bm_cleaner_controller s)\<rparr>;
          s \<leftarrow> shut_scheduler E s;
          s \<leftarrow> drain_loads E s;
          Some (s\<lparr>bm_disk := dk_shutdown (en_disk E) reason (bm_disk s)\<rparr>) }"

definition Initialize ::
  "('r, 'd) Env \<Rightarrow> 'r Startup \<Rightarrow> ('r, 'd) BufferManager \<Rightarrow> (Status \<times> ('r, 'd) BufferManager) option" where
  "Initialize E su s =
     (case InitializeKernelMemory su s of
        (Inl e, s) \<Rightarrow> Some (Inl e, s)
      | (Inr _, s) \<Rightarrow>
          let s = (if bm_segment s = None \<or> (case su_segment su of Inr g \<Rightarrow> sg_created g | Inl e \<Rightarrow> False)
                   then SeedFreeFrames s else s);
              s = s\<lparr>bm_options := ResolveOptions (bm_pool_size s) (dk_capabilities (en_disk E)) (bm_options s)\<rparr>
          in if \<not> su_io_thread su then Some (Inl (Unavailable ''failed to start io engine'' 0), s)
             else case StartFlushScheduler (su_flush_threads su) s of
               (Inl e, s) \<Rightarrow>
                 do { s \<leftarrow> StopFlushPipeline E (Inl (Unavailable ''failed to start flush scheduler'' 0)) s; Some (Inl e, s) }
             | (Inr _, s) \<Rightarrow>
                 (case StartCleanerController (su_cleaner_thread su) s of
                    (Inl e, s) \<Rightarrow>
                      do { s \<leftarrow> StopFlushPipeline E (Inl (Unavailable ''failed to start background cleaner'' 0)) s;
                           Some (Inl e, s) }
                  | (Inr _, s) \<Rightarrow>
                      (case StartObservation (su_observation su) s of
                         (Inl e, s) \<Rightarrow>
                           do { s \<leftarrow> StopFlushPipeline E (Inl (Unavailable ''failed to start the observation plane'' 0)) s;
                                Some (Inl e, s) }
                       | (Inr _, s) \<Rightarrow> Some (Ok, s))))"

text \<open>
  \<^verbatim>\<open>BufferManager::Create\<close>; the disk and the replacer may be null, which
  \<^verbatim>\<open>ValidateRuntimeDependencies\<close> refuses.  The manager is kept only if it was initialised.
\<close>

definition ValidateRuntimeDependencies :: "'d option \<Rightarrow> 'r option \<Rightarrow> Status" where
  "ValidateRuntimeDependencies disk policy =
     (if disk = None then Inl (InvalidArgument ''disk backend must not be null'')
      else if policy = None then Inl (InvalidArgument ''replacer must not be null'')
      else Ok)"

definition bm_Create ::
  "('r, 'd) Env \<Rightarrow> 'r Startup \<Rightarrow> nat \<Rightarrow> u32 \<Rightarrow> BufferManagerOptions \<Rightarrow> 'd option \<Rightarrow> 'r option
     \<Rightarrow> (nat \<Rightarrow> BufferAccessStrategy) \<Rightarrow> ('r, 'd) BufferManager Result option" where
  "bm_Create E su this hardware_concurrency options disk policy strategies =
     (case bg_Create (bo_page_size options) of
        Inl e \<Rightarrow> Some (Inl e)
      | Inr geometry \<Rightarrow>
          let backend_block_size = cap_block_size (dk_capabilities (en_disk E)) in
          if disk \<noteq> None \<and> backend_block_size \<noteq> 0 \<and> backend_block_size \<noteq> bg_block_size geometry
          then Some (Inl (InvalidArgument ''disk backend block size does not match the buffer manager page size''))
          else case ValidateRuntimeDependencies disk policy of
            Inl e \<Rightarrow> Some (Inl e)
          | Inr _ \<Rightarrow>
              do { (status, s) \<leftarrow> Initialize E su
                     (bm_create this hardware_concurrency options geometry (the disk) (the policy) strategies);
                   Some (case status of Inl e \<Rightarrow> Inl e | Inr _ \<Rightarrow> Inr s) })"

partial_function (option) wait_prefetches ::
  "('r, 'd) Env \<Rightarrow> ('r, 'd) BufferManager \<Rightarrow> ('r, 'd) BufferManager option" where
  "wait_prefetches E s =
     (if bm_prefetches_in_flight s = 0 then Some s else bm_background E s \<bind> wait_prefetches E)"

fun wait_loading :: "('r, 'd) Env \<Rightarrow> FrameId list \<Rightarrow> ('r, 'd) BufferManager \<Rightarrow> ('r, 'd) BufferManager option" where
  "wait_loading E [] s = Some s"
| "wait_loading E (f # fs) s =
     do { s \<leftarrow> (if IsLoadingTag s f (frame_tag s f) then WaitForLoad E f (frame_tag s f) s else Some s);
          wait_loading E fs s }"

definition bm_Close :: "('r, 'd) Env \<Rightarrow> ('r, 'd) BufferManager \<Rightarrow> (Status \<times> ('r, 'd) BufferManager) option" where
  "bm_Close E s =
     (if bm_closed s then Some (Ok, s)
      else do { s \<leftarrow> wait_prefetches E s;
                s \<leftarrow> wait_loading E (frame_ids (bm_size s)) s;
                if bm_segment s = None \<and> HasPinnedFrame s
                then Some (Inl (InvalidArgument ''pages are still pinned by handles or read operations''), s)
                else do { (status, s) \<leftarrow> (case CheckUsable s of
                              Inl e \<Rightarrow> Some (Inl e, s)
                            | Inr _ \<Rightarrow> FlushAll E s);
                          if isl status \<and> \<not> bm_failed s then Some (status, s)
                          else do { s \<leftarrow> StopFlushPipeline E (Inl (Unavailable ''buffer manager is closed'' 0))
                                          (s\<lparr>bm_observation := False, bm_closed := True\<rparr>);
                                    Some (status, s) } } })"

text \<open>The destructor.\<close>

definition bm_destroy :: "('r, 'd) Env \<Rightarrow> ('r, 'd) BufferManager \<Rightarrow> ('r, 'd) BufferManager option" where
  "bm_destroy E s =
     StopFlushPipeline E (Inl (Unavailable ''buffer manager is shutting down'' 0)) (s\<lparr>bm_observation := False\<rparr>)"

definition PublishObservation :: "('r, 'd) BufferManager \<Rightarrow> Status" where
  "PublishObservation s =
     (if \<not> bm_observation s then Inl (Unavailable ''observation is disabled'' 0) else Ok)"

end
