(* ===== verification/Buffer_Invariant.thy ===== *)
theory Buffer_Invariant
  imports Buffer_Manager Frame_Fields
begin

text \<open>
  The contract of a disk, the invariant of a buffer manager, and its preservation by the
  updates of a single frame.  The invariant ties the components together: the page table
  maps exactly the frames in use, the free list holds the others, the policy tracks every
  resident frame, the dirty counter counts, every queued page has one task and every loading
  frame one load, and a clean page equals its block on the disk.
\<close>

section \<open>The contract of a disk\<close>

definition tag_at :: "BufferTag \<Rightarrow> nat \<Rightarrow> BufferTag" where
  "tag_at t i = t\<lparr>bt_block_id := bt_block_id t + word_of_nat i\<rparr>"

lemma tag_at_0 [simp]: "tag_at t 0 = t"
  by (simp add: tag_at_def)

text \<open>
  \<open>contents\<close> are the blocks, \<open>V\<close> the tags whose blocks lie inside the files and do not share
  an offset.  A failed write may leave anything in its own block.
\<close>

locale page_disk =
  fixes D :: "'d Disk"
    and dinv :: "'d \<Rightarrow> bool"
    and contents :: "'d \<Rightarrow> BufferTag \<Rightarrow> u8 list"
    and V :: "BufferTag set"
    and bs :: nat
  assumes disk_read: "dinv d \<Longrightarrow> bufs \<noteq> [] \<Longrightarrow> length bufs \<le> dk_max_request_blocks D \<Longrightarrow>
      (\<forall>i < length bufs. tag_at t i \<in> V) \<Longrightarrow> (\<forall>b \<in> set bufs. length b = bs) \<Longrightarrow>
      \<exists>st bufs' d'. dk_read D t bufs d = Some (st, bufs', d') \<and> dinv d' \<and> (\<forall>u \<in> V. contents d' u = contents d u) \<and>
        length bufs' = length bufs \<and> (\<forall>b \<in> set bufs'. length b = bs) \<and>
        (\<not> isl st \<longrightarrow> bufs' = map (\<lambda>i. contents d (tag_at t i)) [0..<length bufs])"
    and disk_write: "dinv d \<Longrightarrow> t \<in> V \<Longrightarrow> length x = bs \<Longrightarrow>
      \<exists>st d'. dk_write D t x d = Some (st, d') \<and> dinv d' \<and>
        (\<forall>u \<in> V. u \<noteq> t \<longrightarrow> contents d' u = contents d u) \<and> (\<not> isl st \<longrightarrow> contents d' t = x)"
    and disk_sync: "dinv d \<Longrightarrow> \<exists>st d'. dk_sync D files d = Some (st, d') \<and> dinv d' \<and> (\<forall>u \<in> V. contents d' u = contents d u)"
    and disk_shutdown: "dinv d \<Longrightarrow> isl reason \<Longrightarrow>
      dinv (dk_shutdown D reason d) \<and> (\<forall>u \<in> V. contents (dk_shutdown D reason d) u = contents d u)"
    and disk_blocks: "0 < dk_max_request_blocks D"

section \<open>The invariant\<close>

text \<open>
  What clients hold: pins, shared and exclusive latches per frame, and the frames that were
  zero-filled and not yet marked dirty.
\<close>

record Refs =
  rf_pins :: "FrameId \<Rightarrow> nat"
  rf_shared :: "FrameId \<Rightarrow> nat"
  rf_excl :: "FrameId \<Rightarrow> bool"
  rf_zeroed :: "FrameId set"

definition no_refs :: Refs where
  "no_refs = \<lparr>rf_pins = (\<lambda>_. 0), rf_shared = (\<lambda>_. 0), rf_excl = (\<lambda>_. False), rf_zeroed = {}\<rparr>"

definition ctl_of :: "('r, 'd) BufferManager \<Rightarrow> FrameId \<Rightarrow> ctl" where
  "ctl_of s f = decode (control s f)"

definition queued :: "('r, 'd) BufferManager \<Rightarrow> nat list" where
  "queued s = sch_foreground_queue (bm_flush_scheduler s) @ sch_background_queue (bm_flush_scheduler s)"

abbreviation tasks_of :: "('r, 'd) BufferManager \<Rightarrow> nat \<Rightarrow> BufferManagerFlushTask" where
  "tasks_of s \<equiv> sch_tasks (bm_flush_scheduler s)"

definition frame_ok :: "Refs \<Rightarrow> FrameId \<Rightarrow> ctl \<Rightarrow> bool" where
  "frame_ok G f c \<longleftrightarrow> \<not> (c_queued c \<and> c_active c) \<and> (c_queued c \<or> c_active c \<longrightarrow> c_dirty c) \<and>
     (c_redirtied c \<longrightarrow> c_queued c \<or> c_active c) \<and> (f \<in> rf_zeroed G \<longrightarrow> rf_excl G f \<and> \<not> c_dirty c) \<and>
     c_shared c = rf_shared G f \<and> c_excl c = rf_excl G f \<and>
     (case c_state c of
        kFree \<Rightarrow> \<not> c_dirty c \<and> c_pins c = 0 \<and> rf_pins G f = 0
      | kLoading \<Rightarrow> \<not> c_dirty c \<and> c_pins c = 1 \<and> rf_pins G f = 0
      | kResident \<Rightarrow> c_pins c = rf_pins G f
      | kNoState \<Rightarrow> False)"

definition frames_ok :: "nat \<Rightarrow> Refs \<Rightarrow> (FrameId \<Rightarrow> ctl) \<Rightarrow> bool" where
  "frames_ok n G \<kappa> \<longleftrightarrow> (\<forall>f. unat f < n \<longrightarrow> frame_ok G f (\<kappa> f))"

definition table_ok :: "nat \<Rightarrow> (FrameId \<Rightarrow> ctl) \<Rightarrow> (FrameId \<Rightarrow> BufferTag) \<Rightarrow> PageTable \<Rightarrow> bool" where
  "table_ok n \<kappa> \<tau> t \<longleftrightarrow> pt_wf t \<and> pt_idle t \<and> pt_frame_capacity t = n \<and>
     (\<forall>f. unat f < n \<longrightarrow> pt_tag t f = (if c_state (\<kappa> f) = kFree then None else Some (\<tau> f))) \<and>
     (\<forall>f g. unat f < n \<longrightarrow> unat g < n \<longrightarrow> c_state (\<kappa> f) \<noteq> kFree \<longrightarrow> c_state (\<kappa> g) \<noteq> kFree \<longrightarrow> \<tau> f = \<tau> g \<longrightarrow> f = g)"

definition free_ok :: "nat \<Rightarrow> (FrameId \<Rightarrow> ctl) \<Rightarrow> FrameId set \<Rightarrow> FrameFreeList \<Rightarrow> bool" where
  "free_ok n \<kappa> X l \<longleftrightarrow> X \<subseteq> {f. unat f < n \<and> c_state (\<kappa> f) = kFree} \<and>
     (\<exists>xs. fl_list l xs \<and> distinct xs \<and> set xs = {f. unat f < n \<and> c_state (\<kappa> f) = kFree} - X)"

definition policy_ok :: "('r \<Rightarrow> bool) \<Rightarrow> ('r \<Rightarrow> FrameId set) \<Rightarrow> nat \<Rightarrow> (FrameId \<Rightarrow> ctl) \<Rightarrow> 'r \<Rightarrow> bool" where
  "policy_ok rinv tracked n \<kappa> r \<longleftrightarrow> rinv r \<and> (\<forall>f. unat f < n \<longrightarrow> c_state (\<kappa> f) = kResident \<longrightarrow> f \<in> tracked r)"

text \<open>
  \<open>Q\<close> are the tasks whose frames are queued, \<open>A\<close> those whose frames are being written.  A
  snapshot is the page unless the page changed after it was taken.
\<close>

definition task_ok :: "nat \<Rightarrow> nat \<Rightarrow> (FrameId \<Rightarrow> ctl) \<Rightarrow> (FrameId \<Rightarrow> BufferTag) \<Rightarrow> (FrameId \<Rightarrow> u8 list) \<Rightarrow>
    BufferManagerFlushTask \<Rightarrow> bool" where
  "task_ok n bs \<kappa> \<tau> \<mu> task \<longleftrightarrow>
     unat (ft_frame_id task) < n \<and> ft_tag task = \<tau> (ft_frame_id task) \<and> ft_clear_dirty_on_success task \<and>
     \<not> ft_completed task \<and> length (ft_snapshot task) = bs \<and> c_state (\<kappa> (ft_frame_id task)) = kResident \<and>
     (\<not> c_redirtied (\<kappa> (ft_frame_id task)) \<longrightarrow> \<not> c_excl (\<kappa> (ft_frame_id task)) \<longrightarrow>
        ft_snapshot task = \<mu> (ft_frame_id task))"

definition tasks_ok :: "nat \<Rightarrow> nat \<Rightarrow> (FrameId \<Rightarrow> ctl) \<Rightarrow> (FrameId \<Rightarrow> BufferTag) \<Rightarrow> (FrameId \<Rightarrow> u8 list) \<Rightarrow>
    (nat \<Rightarrow> BufferManagerFlushTask) \<Rightarrow> nat \<Rightarrow> nat list \<Rightarrow> nat list \<Rightarrow> bool" where
  "tasks_ok n bs \<kappa> \<tau> \<mu> tasks next Q A \<longleftrightarrow>
     distinct (map (\<lambda>t. ft_frame_id (tasks t)) (Q @ A)) \<and>
     (\<forall>t \<in> set (Q @ A). t < next \<and> task_ok n bs \<kappa> \<tau> \<mu> (tasks t)) \<and>
     (\<forall>f. unat f < n \<longrightarrow> c_queued (\<kappa> f) = (f \<in> (\<lambda>t. ft_frame_id (tasks t)) ` set Q)) \<and>
     (\<forall>f. unat f < n \<longrightarrow> c_active (\<kappa> f) = (f \<in> (\<lambda>t. ft_frame_id (tasks t)) ` set A))"

definition dirty_ok :: "nat \<Rightarrow> (FrameId \<Rightarrow> ctl) \<Rightarrow> size_t \<Rightarrow> bool" where
  "dirty_ok n \<kappa> k \<longleftrightarrow> k = word_of_nat (card {f. unat f < n \<and> c_dirty (\<kappa> f)})"

definition load_frames :: "AsyncLoad \<Rightarrow> FrameId list" where
  "load_frames l = map (\<lambda>e. rs_frame_id (ae_reservation e)) (al_entries l)"

definition load_ok :: "BufferTag set \<Rightarrow> nat \<Rightarrow> (FrameId \<Rightarrow> BufferTag) \<Rightarrow> AsyncLoad \<Rightarrow> bool" where
  "load_ok V m \<tau> l \<longleftrightarrow> al_operation l = None \<and> al_entries l \<noteq> [] \<and> length (al_entries l) \<le> m \<and>
     (\<forall>i < length (al_entries l). ae_tag (al_entries l ! i) = tag_at (ae_tag (hd (al_entries l))) i \<and>
        ae_tag (al_entries l ! i) \<in> V \<and>
        \<tau> (rs_frame_id (ae_reservation (al_entries l ! i))) = ae_tag (al_entries l ! i))"

text \<open>\<open>Z\<close> are the reserved frames whose load is not submitted to the engine.\<close>

definition loads_ok :: "nat \<Rightarrow> BufferTag set \<Rightarrow> nat \<Rightarrow> (FrameId \<Rightarrow> ctl) \<Rightarrow> (FrameId \<Rightarrow> BufferTag) \<Rightarrow> FrameId list \<Rightarrow>
    AsyncLoad list \<Rightarrow> bool" where
  "loads_ok n V m \<kappa> \<tau> Z loads \<longleftrightarrow>
     (\<forall>l \<in> set loads. load_ok V m \<tau> l) \<and> distinct (concat (map load_frames loads) @ Z) \<and>
     set (concat (map load_frames loads) @ Z) = {f. unat f < n \<and> c_state (\<kappa> f) = kLoading}"

definition data_ok :: "nat \<Rightarrow> nat \<Rightarrow> BufferTag set \<Rightarrow> Refs \<Rightarrow> (FrameId \<Rightarrow> ctl) \<Rightarrow> (FrameId \<Rightarrow> BufferTag) \<Rightarrow>
    (FrameId \<Rightarrow> u8 list) \<Rightarrow> (BufferTag \<Rightarrow> u8 list) \<Rightarrow> bool" where
  "data_ok n bs V G \<kappa> \<tau> \<mu> d \<longleftrightarrow>
     (\<forall>f. unat f < n \<longrightarrow> length (\<mu> f) = bs) \<and>
     (\<forall>f. unat f < n \<longrightarrow> c_state (\<kappa> f) \<noteq> kFree \<longrightarrow> \<tau> f \<in> V) \<and>
     (\<forall>f. unat f < n \<longrightarrow> c_state (\<kappa> f) = kResident \<longrightarrow> \<not> c_dirty (\<kappa> f) \<longrightarrow> f \<notin> rf_zeroed G \<longrightarrow> \<mu> f = d (\<tau> f))"

text \<open>The page with a tag: the frame if it is resident, the block otherwise.\<close>

definition page_of :: "nat \<Rightarrow> (FrameId \<Rightarrow> ctl) \<Rightarrow> (FrameId \<Rightarrow> BufferTag) \<Rightarrow> (FrameId \<Rightarrow> u8 list) \<Rightarrow>
    (BufferTag \<Rightarrow> u8 list) \<Rightarrow> BufferTag \<Rightarrow> u8 list" where
  "page_of n \<kappa> \<tau> \<mu> d t =
     (case List.find (\<lambda>f. c_state (\<kappa> f) = kResident \<and> \<tau> f = t) (frame_ids n) of
        Some f \<Rightarrow> \<mu> f | None \<Rightarrow> d t)"

definition bm_page :: "('d \<Rightarrow> BufferTag \<Rightarrow> u8 list) \<Rightarrow> ('r, 'd) BufferManager \<Rightarrow> BufferTag \<Rightarrow> u8 list" where
  "bm_page contents s = page_of (bm_size s) (ctl_of s) (frame_tag s) (bm_frames s) (contents (bm_disk s))"

section \<open>Accessors\<close>

lemma decode_control [simp]: "decode (control s f) = ctl_of s f"
  by (simp add: ctl_of_def)

lemma desc_simps [simp]:
  "bm_this (update_desc f g s) = bm_this s" "bm_pool_size (update_desc f g s) = bm_pool_size s"
  "bm_geometry (update_desc f g s) = bm_geometry s" "bm_options (update_desc f g s) = bm_options s"
  "bm_segment (update_desc f g s) = bm_segment s" "bm_disk (update_desc f g s) = bm_disk s"
  "bm_replacer (update_desc f g s) = bm_replacer s" "bm_events (update_desc f g s) = bm_events s"
  "bm_failed (update_desc f g s) = bm_failed s" "bm_closed (update_desc f g s) = bm_closed s"
  "bm_failure (update_desc f g s) = bm_failure s" "bm_frames (update_desc f g s) = bm_frames s"
  "bm_flush_scheduler (update_desc f g s) = bm_flush_scheduler s"
  "bm_next_task (update_desc f g s) = bm_next_task s"
  "bm_cleaner_controller (update_desc f g s) = bm_cleaner_controller s"
  "bm_page_table (update_desc f g s) = bm_page_table s" "bm_free_list (update_desc f g s) = bm_free_list s"
  "bm_observation (update_desc f g s) = bm_observation s"
  "bm_written_files (update_desc f g s) = bm_written_files s"
  "bm_dirty_page_count (update_desc f g s) = bm_dirty_page_count s"
  "bm_prefetches_in_flight (update_desc f g s) = bm_prefetches_in_flight s"
  "bm_loads (update_desc f g s) = bm_loads s" "bm_operations (update_desc f g s) = bm_operations s"
  "bm_next_operation (update_desc f g s) = bm_next_operation s" "bm_strategies (update_desc f g s) = bm_strategies s"
  "bm_descriptors (update_desc f g s) = (bm_descriptors s)(f := g (bm_descriptors s f))"
  by (simp_all add: update_desc_def)

lemma control_simps [simp]:
  "bm_this (set_control f w s) = bm_this s" "bm_pool_size (set_control f w s) = bm_pool_size s"
  "bm_geometry (set_control f w s) = bm_geometry s" "bm_options (set_control f w s) = bm_options s"
  "bm_segment (set_control f w s) = bm_segment s" "bm_disk (set_control f w s) = bm_disk s"
  "bm_replacer (set_control f w s) = bm_replacer s" "bm_events (set_control f w s) = bm_events s"
  "bm_failed (set_control f w s) = bm_failed s" "bm_closed (set_control f w s) = bm_closed s"
  "bm_failure (set_control f w s) = bm_failure s" "bm_frames (set_control f w s) = bm_frames s"
  "bm_flush_scheduler (set_control f w s) = bm_flush_scheduler s"
  "bm_next_task (set_control f w s) = bm_next_task s"
  "bm_cleaner_controller (set_control f w s) = bm_cleaner_controller s"
  "bm_page_table (set_control f w s) = bm_page_table s" "bm_free_list (set_control f w s) = bm_free_list s"
  "bm_observation (set_control f w s) = bm_observation s"
  "bm_written_files (set_control f w s) = bm_written_files s"
  "bm_dirty_page_count (set_control f w s) = bm_dirty_page_count s"
  "bm_prefetches_in_flight (set_control f w s) = bm_prefetches_in_flight s"
  "bm_loads (set_control f w s) = bm_loads s" "bm_operations (set_control f w s) = bm_operations s"
  "bm_next_operation (set_control f w s) = bm_next_operation s" "bm_strategies (set_control f w s) = bm_strategies s"
  by (simp_all add: set_control_def)

lemma control_set [simp]: "control (set_control f w s) = (control s)(f := w)"
  by (simp add: control_def set_control_def fun_eq_iff)

lemma frame_tag_set [simp]: "frame_tag (set_control f w s) = frame_tag s"
  by (simp add: frame_tag_def set_control_def LoadTag_def fun_eq_iff)

lemma LoadTag_StoreTag [simp]: "LoadTag (StoreTag t d) = t" "bd_control (StoreTag t d) = bd_control d"
  by (simp_all add: LoadTag_def StoreTag_def)

lemma ctl_set [simp]: "ctl_of (set_control f w s) = (ctl_of s)(f := decode w)"
  unfolding ctl_of_def by (simp add: fun_eq_iff del: decode_control)

lemma ctl_update [simp]: "(\<And>d. bd_control (g d) = bd_control d) \<Longrightarrow> ctl_of (update_desc f g s) = ctl_of s"
  "(\<And>d. bd_control (g d) = bd_control d) \<Longrightarrow> control (update_desc f g s) = control s"
  unfolding ctl_of_def control_def by (simp_all add: fun_eq_iff)

lemma tag_update: "(\<And>d. LoadTag (g d) = LoadTag d) \<Longrightarrow> frame_tag (update_desc f g s) = frame_tag s"
  by (simp add: fun_eq_iff frame_tag_def)

lemma tag_store: "(\<And>d. LoadTag (g d) = t) \<Longrightarrow> frame_tag (update_desc f g s) = (frame_tag s)(f := t)"
  by (simp add: fun_eq_iff frame_tag_def)

lemma descriptors_same:
  "bm_descriptors s' = bm_descriptors s \<Longrightarrow> ctl_of s' = ctl_of s"
  "bm_descriptors s' = bm_descriptors s \<Longrightarrow> control s' = control s"
  "bm_descriptors s' = bm_descriptors s \<Longrightarrow> frame_tag s' = frame_tag s"
  unfolding ctl_of_def control_def frame_tag_def by (simp_all add: fun_eq_iff)

lemma ctl_other [simp]:
  "ctl_of (s\<lparr>bm_disk := d\<rparr>) = ctl_of s" "ctl_of (s\<lparr>bm_replacer := r\<rparr>) = ctl_of s"
  "ctl_of (s\<lparr>bm_frames := m\<rparr>) = ctl_of s" "ctl_of (s\<lparr>bm_flush_scheduler := q\<rparr>) = ctl_of s"
  "ctl_of (s\<lparr>bm_page_table := pt\<rparr>) = ctl_of s" "ctl_of (s\<lparr>bm_free_list := l\<rparr>) = ctl_of s"
  "ctl_of (s\<lparr>bm_dirty_page_count := k\<rparr>) = ctl_of s" "ctl_of (s\<lparr>bm_loads := ls\<rparr>) = ctl_of s"
  "ctl_of (s\<lparr>bm_prefetches_in_flight := p\<rparr>) = ctl_of s" "ctl_of (s\<lparr>bm_next_task := t\<rparr>) = ctl_of s"
  "ctl_of (s\<lparr>bm_cleaner_controller := c\<rparr>) = ctl_of s" "ctl_of (s\<lparr>bm_strategies := st\<rparr>) = ctl_of s"
  "ctl_of (s\<lparr>bm_closed := b\<rparr>) = ctl_of s" "ctl_of (s\<lparr>bm_observation := b\<rparr>) = ctl_of s"
  by (rule descriptors_same, simp)+

lemma control_other [simp]:
  "control (s\<lparr>bm_disk := d\<rparr>) = control s" "control (s\<lparr>bm_replacer := r\<rparr>) = control s"
  "control (s\<lparr>bm_frames := m\<rparr>) = control s" "control (s\<lparr>bm_flush_scheduler := q\<rparr>) = control s"
  "control (s\<lparr>bm_page_table := pt\<rparr>) = control s" "control (s\<lparr>bm_free_list := l\<rparr>) = control s"
  "control (s\<lparr>bm_dirty_page_count := k\<rparr>) = control s" "control (s\<lparr>bm_loads := ls\<rparr>) = control s"
  "control (s\<lparr>bm_prefetches_in_flight := p\<rparr>) = control s" "control (s\<lparr>bm_next_task := t\<rparr>) = control s"
  by (rule descriptors_same, simp)+

lemma frame_tag_other [simp]:
  "frame_tag (s\<lparr>bm_disk := d\<rparr>) = frame_tag s" "frame_tag (s\<lparr>bm_replacer := r\<rparr>) = frame_tag s"
  "frame_tag (s\<lparr>bm_frames := m\<rparr>) = frame_tag s" "frame_tag (s\<lparr>bm_flush_scheduler := q\<rparr>) = frame_tag s"
  "frame_tag (s\<lparr>bm_page_table := pt\<rparr>) = frame_tag s" "frame_tag (s\<lparr>bm_free_list := l\<rparr>) = frame_tag s"
  "frame_tag (s\<lparr>bm_dirty_page_count := k\<rparr>) = frame_tag s" "frame_tag (s\<lparr>bm_loads := ls\<rparr>) = frame_tag s"
  "frame_tag (s\<lparr>bm_prefetches_in_flight := p\<rparr>) = frame_tag s" "frame_tag (s\<lparr>bm_next_task := t\<rparr>) = frame_tag s"
  "frame_tag (s\<lparr>bm_cleaner_controller := c\<rparr>) = frame_tag s" "frame_tag (s\<lparr>bm_strategies := st\<rparr>) = frame_tag s"
  "frame_tag (s\<lparr>bm_closed := b\<rparr>) = frame_tag s" "frame_tag (s\<lparr>bm_observation := b\<rparr>) = frame_tag s"
  by (rule descriptors_same, simp)+

section \<open>Pools over a disk and a policy\<close>

text \<open>
  A pool of \<open>n\<close> frames over a disk and a policy that always nominates a frame if one is
  evictable; \<open>E\<close> is what its operations are given.
\<close>

locale buffer_pool =
  page_disk D dinv contents V bs + replacer R n rinv tracked "\<lambda>_. True"
  for D :: "'d Disk" and dinv contents V bs
    and R :: "'r Replacer" and n rinv tracked +
  fixes E :: "('r, 'd) Env"
  assumes env: "en_disk E = D" "en_replacer E = R"
begin

abbreviation contents_of :: "('r, 'd) BufferManager \<Rightarrow> BufferTag \<Rightarrow> u8 list" where
  "contents_of s \<equiv> contents (bm_disk s)"

definition inv :: "Refs \<Rightarrow> FrameId set \<Rightarrow> FrameId list \<Rightarrow> nat list \<Rightarrow> nat list \<Rightarrow> ('r, 'd) BufferManager \<Rightarrow> bool" where
  "inv G X Z Q A s \<longleftrightarrow>
     0 < n \<and> n \<le> 2 ^ 31 \<and> bm_size s = n \<and> bm_block_size s = bs \<and> dinv (bm_disk s) \<and>
     0 < sch_submit_batch_size (bm_flush_scheduler s) \<and>
     frames_ok n G (ctl_of s) \<and>
     table_ok n (ctl_of s) (frame_tag s) (bm_page_table s) \<and>
     free_ok n (ctl_of s) X (bm_free_list s) \<and>
     policy_ok rinv tracked n (ctl_of s) (bm_replacer s) \<and>
     tasks_ok n bs (ctl_of s) (frame_tag s) (bm_frames s) (tasks_of s) (bm_next_task s) Q A \<and>
     dirty_ok n (ctl_of s) (bm_dirty_page_count s) \<and>
     loads_ok n V (dk_max_request_blocks D) (ctl_of s) (frame_tag s) Z (bm_loads s) \<and>
     data_ok n bs V G (ctl_of s) (frame_tag s) (bm_frames s) (contents_of s)"

abbreviation page :: "('r, 'd) BufferManager \<Rightarrow> BufferTag \<Rightarrow> u8 list" where
  "page s \<equiv> bm_page contents s"

end

end
