(* ===== verification/Buffer_Updates.thy ===== *)
theory Buffer_Updates
  imports Buffer_Invariant
begin

text \<open>
  Each part of the invariant when one frame \<open>f\<close> changes: its control word to one with fields
  \<open>c\<close>, its tag to \<open>x\<close>, its memory to \<open>m\<close>.
\<close>

section \<open>What clients hold\<close>

definition same_off :: "FrameId \<Rightarrow> Refs \<Rightarrow> Refs \<Rightarrow> bool" where
  "same_off f G G' \<longleftrightarrow> (\<forall>g. g \<noteq> f \<longrightarrow> rf_pins G' g = rf_pins G g \<and> rf_shared G' g = rf_shared G g \<and>
     rf_excl G' g = rf_excl G g \<and> (g \<in> rf_zeroed G' \<longleftrightarrow> g \<in> rf_zeroed G))"

lemma same_off_refl [simp]: "same_off f G G"
  by (simp add: same_off_def)

lemma frame_ok_cong:
  assumes "rf_pins G' f = rf_pins G f" "rf_shared G' f = rf_shared G f" "rf_excl G' f = rf_excl G f"
    "f \<in> rf_zeroed G' \<longleftrightarrow> f \<in> rf_zeroed G"
  shows "frame_ok G' f c = frame_ok G f c"
  unfolding frame_ok_def using assms by (cases "c_state c") simp_all

lemma frames_upd:
  assumes "frames_ok n G \<kappa>" "frame_ok G' f c" "same_off f G G'"
  shows "frames_ok n G' (\<kappa>(f := c))"
  unfolding frames_ok_def
proof (intro allI impI)
  fix g :: FrameId assume "unat g < n"
  then show "frame_ok G' g ((\<kappa>(f := c)) g)"
    using assms frame_ok_cong [of G' g G] unfolding frames_ok_def same_off_def by (cases "g = f") auto
qed

section \<open>Page table, free list, policy\<close>

lemma tableD:
  assumes "table_ok n \<kappa> \<tau> t"
  shows "pt_wf t" "pt_idle t" "pt_frame_capacity t = n"
    and "unat f < n \<Longrightarrow> pt_tag t f = (if c_state (\<kappa> f) = kFree then None else Some (\<tau> f))"
    and "unat f < n \<Longrightarrow> unat g < n \<Longrightarrow> c_state (\<kappa> f) \<noteq> kFree \<Longrightarrow> c_state (\<kappa> g) \<noteq> kFree \<Longrightarrow> \<tau> f = \<tau> g \<Longrightarrow> f = g"
  using assms unfolding table_ok_def by blast+

lemma table_upd:
  assumes "table_ok n \<kappa> \<tau> t" "(c_state c = kFree) = (c_state (\<kappa> f) = kFree)"
  shows "table_ok n (\<kappa>(f := c)) \<tau> t"
proof -
  have "c_state ((\<kappa>(f := c)) g) = kFree \<longleftrightarrow> c_state (\<kappa> g) = kFree" for g using assms(2) by simp
  then show ?thesis using assms(1) unfolding table_ok_def by simp
qed

lemma table_install:
  assumes "table_ok n \<kappa> \<tau> t" "pt_wf t'" "pt_idle t'" "pt_frame_capacity t' = n" "pt_tag t' = (pt_tag t)(f \<mapsto> x)"
    "c_state c \<noteq> kFree" "\<And>g. unat g < n \<Longrightarrow> c_state (\<kappa> g) \<noteq> kFree \<Longrightarrow> \<tau> g = x \<Longrightarrow> g = f"
  shows "table_ok n (\<kappa>(f := c)) (\<tau>(f := x)) t'"
proof -
  have "pt_tag t' g = (if c_state ((\<kappa>(f := c)) g) = kFree then None else Some ((\<tau>(f := x)) g))" if "unat g < n" for g
    unfolding assms(5) using tableD(4) [OF assms(1) that] assms(6) by (cases "g = f") auto
  moreover have "g = h" if "unat g < n" "unat h < n" "c_state ((\<kappa>(f := c)) g) \<noteq> kFree" "c_state ((\<kappa>(f := c)) h) \<noteq> kFree"
    "(\<tau>(f := x)) g = (\<tau>(f := x)) h" for g h
    using tableD(5) [OF assms(1) that(1,2)] assms(7) [OF that(1)] assms(7) [OF that(2)] that(3-5)
    by (metis fun_upd_other fun_upd_same)
  ultimately show ?thesis using assms(2-4) unfolding table_ok_def by blast
qed

lemma table_drop:
  assumes "table_ok n \<kappa> \<tau> t" "pt_wf t'" "pt_idle t'" "pt_frame_capacity t' = n" "pt_tag t' = (pt_tag t)(f := None)"
    "c_state c = kFree"
  shows "table_ok n (\<kappa>(f := c)) (\<tau>(f := x)) t'"
proof -
  have "pt_tag t' g = (if c_state ((\<kappa>(f := c)) g) = kFree then None else Some ((\<tau>(f := x)) g))" if "unat g < n" for g
    unfolding assms(5) using tableD(4) [OF assms(1) that] assms(6) by (cases "g = f") auto
  moreover have "g = h" if "unat g < n" "unat h < n" "c_state ((\<kappa>(f := c)) g) \<noteq> kFree" "c_state ((\<kappa>(f := c)) h) \<noteq> kFree"
    "(\<tau>(f := x)) g = (\<tau>(f := x)) h" for g h
    using tableD(5) [OF assms(1) that(1,2)] assms(6) that(3-5) by (metis fun_upd_other fun_upd_same)
  ultimately show ?thesis using assms(2-4) unfolding table_ok_def by blast
qed

lemma table_lookup:
  assumes "table_ok n \<kappa> \<tau> t"
  shows "\<exists>r. LookupFrameId t u = Some r \<and>
    (case r of None \<Rightarrow> \<forall>g. unat g < n \<longrightarrow> c_state (\<kappa> g) \<noteq> kFree \<longrightarrow> \<tau> g \<noteq> u
     | Some g \<Rightarrow> unat g < n \<and> c_state (\<kappa> g) \<noteq> kFree \<and> \<tau> g = u)"
proof -
  obtain r where r: "LookupFrameId t u = Some r"
    "case r of None \<Rightarrow> \<forall>g. unat g < n \<longrightarrow> pt_tag t g \<noteq> Some u | Some g \<Rightarrow> unat g < n \<and> pt_tag t g = Some u"
    using LookupFrameId_map [OF tableD(1,2) [OF assms], of u] unfolding tableD(3) [OF assms] by blast
  then show ?thesis using tableD(4) [OF assms] by (cases r) (auto split: if_splits)
qed

abbreviation free_frames :: "nat \<Rightarrow> (FrameId \<Rightarrow> ctl) \<Rightarrow> FrameId set" where
  "free_frames n \<kappa> \<equiv> {f. unat f < n \<and> c_state (\<kappa> f) = kFree}"

lemma free_upd:
  assumes "free_ok n \<kappa> X l" "(c_state c = kFree) = (c_state (\<kappa> f) = kFree)"
  shows "free_ok n (\<kappa>(f := c)) X l"
proof -
  have "free_frames n (\<kappa>(f := c)) = free_frames n \<kappa>" using assms(2) by auto
  then show ?thesis using assms(1) by (simp only: free_ok_def)
qed

lemma free_take:
  assumes "free_ok n \<kappa> X l" "c_state c \<noteq> kFree" "f \<in> X \<or> c_state (\<kappa> f) \<noteq> kFree"
  shows "free_ok n (\<kappa>(f := c)) (X - {f}) l"
proof -
  obtain xs where xs: "fl_list l xs" "distinct xs" "set xs = free_frames n \<kappa> - X" "X \<subseteq> free_frames n \<kappa>"
    using assms(1) unfolding free_ok_def by blast
  have "free_frames n (\<kappa>(f := c)) = free_frames n \<kappa> - {f}" using assms(2) by auto
  moreover have "free_frames n \<kappa> - X = free_frames n \<kappa> - {f} - (X - {f})" using assms(3) by auto
  ultimately show ?thesis unfolding free_ok_def using xs by (intro conjI exI [of _ xs]) auto
qed

lemma not_kNone: "unat f < n \<Longrightarrow> n \<le> 2 ^ 31 \<Longrightarrow> f \<noteq> fl_kNone"
  by (auto simp: fl_kNone_def unsigned_minus_1_eq_mask mask_eq_exp_minus_1)

lemma free_give:
  assumes "free_ok n \<kappa> X l" "c_state (\<kappa> f) \<noteq> kFree" "c_state c = kFree" "unat f < n" "n \<le> 2 ^ 31"
  shows "free_ok n (\<kappa>(f := c)) X (fl_Push f l)"
proof -
  obtain xs where xs: "fl_list l xs" "distinct xs" "set xs = free_frames n \<kappa> - X" "X \<subseteq> free_frames n \<kappa>"
    using assms(1) unfolding free_ok_def by blast
  have eq: "free_frames n (\<kappa>(f := c)) = insert f (free_frames n \<kappa>)" using assms(3,4) by auto
  have f: "f \<notin> set xs" "f \<notin> X" using xs(3,4) assms(2) by auto
  have "fl_list (fl_Push f l) (f # xs)" by (rule fl_list_Push [OF xs(1) f(1) not_kNone [OF assms(4,5)]])
  then show ?thesis unfolding free_ok_def eq using xs f by (intro conjI exI [of _ "f # xs"]) auto
qed

lemma free_pop:
  assumes "free_ok n \<kappa> X l"
  shows "(fl_Pop l = (None, l) \<and> X = free_frames n \<kappa>) \<or>
    (\<exists>f l'. fl_Pop l = (Some f, l') \<and> f \<notin> X \<and> unat f < n \<and> c_state (\<kappa> f) = kFree \<and> free_ok n \<kappa> (insert f X) l')"
proof -
  obtain xs where xs: "fl_list l xs" "distinct xs" "set xs = free_frames n \<kappa> - X" "X \<subseteq> free_frames n \<kappa>"
    using assms(1) unfolding free_ok_def by blast
  show ?thesis
  proof (cases xs)
    case Nil
    then show ?thesis using fl_list_Pop [OF xs(1)] xs(3,4) by auto
  next
    case (Cons f ys)
    have pop: "fst (fl_Pop l) = Some f" "fl_list (snd (fl_Pop l)) ys" using fl_list_Pop [OF xs(1)] Cons by auto
    have f: "f \<in> free_frames n \<kappa>" "f \<notin> X" using xs(3) Cons by auto
    have "set ys = free_frames n \<kappa> - insert f X" using xs(2,3) Cons by auto
    then have "free_ok n \<kappa> (insert f X) (snd (fl_Pop l))"
      unfolding free_ok_def using xs(2,4) Cons f pop(2) by (intro conjI exI [of _ ys]) auto
    then show ?thesis using pop(1) f by (intro disjI2 exI [of _ f] exI [of _ "snd (fl_Pop l)"]) (simp add: prod_eq_iff)
  qed
qed

lemma free_push_popped:
  assumes "free_ok n \<kappa> X l" "f \<in> X" "n \<le> 2 ^ 31"
  shows "free_ok n \<kappa> (X - {f}) (fl_Push f l)"
proof -
  obtain xs where xs: "fl_list l xs" "distinct xs" "set xs = free_frames n \<kappa> - X" "X \<subseteq> free_frames n \<kappa>"
    using assms(1) unfolding free_ok_def by blast
  have f: "f \<notin> set xs" "unat f < n" "c_state (\<kappa> f) = kFree" using xs(3,4) assms(2) by auto
  have "fl_list (fl_Push f l) (f # xs)" by (rule fl_list_Push [OF xs(1) f(1) not_kNone [OF f(2) assms(3)]])
  then show ?thesis unfolding free_ok_def using xs f by (intro conjI exI [of _ "f # xs"]) auto
qed

lemma policy_upd:
  "policy_ok rinv tracked n \<kappa> r \<Longrightarrow> (c_state c = kResident \<Longrightarrow> c_state (\<kappa> f) = kResident) \<Longrightarrow>
   policy_ok rinv tracked n (\<kappa>(f := c)) r"
  unfolding policy_ok_def by auto

lemma policy_track:
  "policy_ok rinv tracked n \<kappa> r \<Longrightarrow> rinv r' \<Longrightarrow> tracked r' = (if unat f < n then insert f (tracked r) else tracked r) \<Longrightarrow>
   policy_ok rinv tracked n (\<kappa>(f := c)) r'"
  unfolding policy_ok_def by auto

lemma policy_untrack:
  "policy_ok rinv tracked n \<kappa> r \<Longrightarrow> rinv r' \<Longrightarrow> tracked r' = tracked r - {f} \<Longrightarrow> c_state c \<noteq> kResident \<Longrightarrow>
   policy_ok rinv tracked n (\<kappa>(f := c)) r'"
  unfolding policy_ok_def by auto

section \<open>Tasks\<close>

lemma tasks_upd:
  assumes "tasks_ok n bs \<kappa> \<tau> \<mu> tasks next Q A" "c_queued c = c_queued (\<kappa> f)" "c_active c = c_active (\<kappa> f)" "unat f < n"
    "c_queued c \<or> c_active c \<Longrightarrow> c_state c = c_state (\<kappa> f) \<and> x = \<tau> f \<and>
       (\<not> c_redirtied c \<longrightarrow> \<not> c_excl c \<longrightarrow> \<not> c_redirtied (\<kappa> f) \<and> \<not> c_excl (\<kappa> f) \<and> m = \<mu> f)"
  shows "tasks_ok n bs (\<kappa>(f := c)) (\<tau>(f := x)) (\<mu>(f := m)) tasks next Q A"
proof -
  have "task_ok n bs (\<kappa>(f := c)) (\<tau>(f := x)) (\<mu>(f := m)) (tasks t)" if t: "t \<in> set (Q @ A)" for t
  proof -
    have ok: "task_ok n bs \<kappa> \<tau> \<mu> (tasks t)" using assms(1) t by (simp add: tasks_ok_def)
    show ?thesis
    proof (cases "ft_frame_id (tasks t) = f")
      case True
      then have "c_queued c \<or> c_active c" using assms(1-4) t unfolding tasks_ok_def by (auto simp: image_iff)
      then show ?thesis using assms(5) ok True unfolding task_ok_def by auto
    qed (use ok in \<open>simp add: task_ok_def\<close>)
  qed
  then show ?thesis using assms(1-3) unfolding tasks_ok_def by simp
qed

lemma store_frames:
  "t \<notin> set B \<Longrightarrow> map (\<lambda>u. ft_frame_id ((tasks(t := task)) u)) B = map (\<lambda>u. ft_frame_id (tasks u)) B"
  by (induction B) auto

lemma store_image:
  "t \<notin> set B \<Longrightarrow> (\<lambda>u. ft_frame_id ((tasks(t := task)) u)) ` set B = (\<lambda>u. ft_frame_id (tasks u)) ` set B"
  by (rule image_cong [OF refl]) auto

lemma tasks_queue:
  assumes "tasks_ok n bs \<kappa> \<tau> \<mu> tasks next Q A" "\<not> c_queued (\<kappa> f)" "\<not> c_active (\<kappa> f)" "unat f < n"
    "task_ok n bs (\<kappa>(f := c)) \<tau> \<mu> task" "ft_frame_id task = f" "c_queued c" "\<not> c_active c"
  shows "tasks_ok n bs (\<kappa>(f := c)) \<tau> \<mu> (tasks(next := task)) (Suc next) (next # Q) A"
proof -
  have old: "t < next" "t \<noteq> next" "task_ok n bs \<kappa> \<tau> \<mu> (tasks t)" "ft_frame_id (tasks t) \<noteq> f" if "t \<in> set (Q @ A)" for t
    using assms(1-4) that unfolding tasks_ok_def by auto
  have fresh: "next \<notin> set (Q @ A)" using old(2) by blast
  note frames = store_frames [OF fresh, where task = task and tasks = tasks]
  have image: "(\<lambda>t. ft_frame_id ((tasks(next := task)) t)) ` set B = (\<lambda>t. ft_frame_id (tasks t)) ` set B"
    if "set B \<subseteq> set (Q @ A)" for B
    by (rule store_image) (use fresh that in blast)
  have nf: "f \<notin> (\<lambda>t. ft_frame_id (tasks t)) ` set (Q @ A)" using old(4) by blast
  have "distinct (map (\<lambda>t. ft_frame_id ((tasks(next := task)) t)) (next # Q @ A))"
    unfolding list.map distinct.simps frames set_map fun_upd_same assms(6) using nf assms(1) unfolding tasks_ok_def by blast
  moreover have "task_ok n bs (\<kappa>(f := c)) \<tau> \<mu> (tasks t)" if "t \<in> set (Q @ A)" for t
    using old(3,4) [OF that] unfolding task_ok_def by simp
  moreover have "set Q \<subseteq> set (Q @ A)" "set A \<subseteq> set (Q @ A)" by auto
  ultimately show ?thesis
    using assms old(1,2) unfolding tasks_ok_def by (auto simp: image less_Suc_eq)
qed

text \<open>A task becomes active, or leaves; the state of the frame and the fields of the others do not change.\<close>

lemma tasks_begin:
  assumes "tasks_ok n bs \<kappa> \<tau> \<mu> tasks next (t # Q) A" "ft_frame_id (tasks t) = f"
  shows "tasks_ok n bs (\<kappa>(f := (\<kappa> f)\<lparr>c_queued := False, c_active := True\<rparr>)) \<tau> \<mu> tasks next Q (t # A)"
proof -
  have "task_ok n bs (\<kappa>(f := (\<kappa> f)\<lparr>c_queued := False, c_active := True\<rparr>)) \<tau> \<mu> (tasks u)" if "u \<in> set (t # Q @ A)" for u
    using assms(1) that unfolding tasks_ok_def task_ok_def by auto
  then show ?thesis using assms unfolding tasks_ok_def by auto
qed

lemma tasks_leave:
  assumes "tasks_ok n bs \<kappa> \<tau> \<mu> tasks next Q A" "c_state c = c_state (\<kappa> f)" "\<not> c_queued c" "\<not> c_active c"
    "Q = t # Q' \<and> A' = A \<or> A = t # A' \<and> Q' = Q" "ft_frame_id (tasks t) = f"
  shows "tasks_ok n bs (\<kappa>(f := c)) \<tau> \<mu> tasks next Q' A'"
proof -
  have "mset (map (\<lambda>t. ft_frame_id (tasks t)) (t # Q' @ A')) = mset (map (\<lambda>t. ft_frame_id (tasks t)) (Q @ A))"
    using assms(5) by auto
  then have distinct: "distinct (map (\<lambda>t. ft_frame_id (tasks t)) (t # Q' @ A'))"
    using assms(1) mset_eq_imp_distinct_iff unfolding tasks_ok_def by blast
  then have nf: "f \<notin> (\<lambda>t. ft_frame_id (tasks t)) ` set (Q' @ A')" using assms(6) by auto
  have ok: "task_ok n bs (\<kappa>(f := c)) \<tau> \<mu> (tasks u)" "u < next" if "u \<in> set (Q' @ A')" for u
  proof -
    have "u \<in> set (Q @ A)" using that assms(5) by auto
    then have "u < next" "task_ok n bs \<kappa> \<tau> \<mu> (tasks u)" using assms(1) unfolding tasks_ok_def by blast+
    moreover have "ft_frame_id (tasks u) \<noteq> f" using nf that by blast
    ultimately show "task_ok n bs (\<kappa>(f := c)) \<tau> \<mu> (tasks u)" "u < next" unfolding task_ok_def by simp_all
  qed
  have "c_queued ((\<kappa>(f := c)) g) = (g \<in> (\<lambda>t. ft_frame_id (tasks t)) ` set Q')"
    "c_active ((\<kappa>(f := c)) g) = (g \<in> (\<lambda>t. ft_frame_id (tasks t)) ` set A')" if "unat g < n" for g
    using assms(1,3-6) nf that unfolding tasks_ok_def by (cases "g = f"; auto)+
  moreover have "distinct (map (\<lambda>t. ft_frame_id (tasks t)) (Q' @ A'))" using distinct by simp
  ultimately show ?thesis using ok unfolding tasks_ok_def by blast
qed

lemma tasks_store:
  assumes "tasks_ok n bs \<kappa> \<tau> \<mu> tasks next Q A" "t \<notin> set (Q @ A)"
  shows "tasks_ok n bs \<kappa> \<tau> \<mu> (tasks(t := task)) next Q A"
proof -
  have t: "t \<notin> set Q" "t \<notin> set A" using assms(2) by auto
  have "\<forall>u \<in> set (Q @ A). u < next \<and> task_ok n bs \<kappa> \<tau> \<mu> ((tasks(t := task)) u)"
    using assms unfolding tasks_ok_def by auto
  then show ?thesis
    using assms(1) unfolding tasks_ok_def store_frames [OF assms(2)] store_image [OF t(1)] store_image [OF t(2)] by blast
qed

section \<open>Counts, loads and data\<close>

lemma dirty_upd:
  assumes "dirty_ok n \<kappa> k" "c_dirty c = c_dirty (\<kappa> f)"
  shows "dirty_ok n (\<kappa>(f := c)) k"
proof -
  have "{g. unat g < n \<and> c_dirty ((\<kappa>(f := c)) g)} = {g. unat g < n \<and> c_dirty (\<kappa> g)}" using assms(2) by auto
  then show ?thesis using assms(1) by (simp only: dirty_ok_def)
qed

lemma dirty_set:
  assumes "dirty_ok n \<kappa> k" "c_dirty c" "\<not> c_dirty (\<kappa> f)" "unat f < n"
  shows "dirty_ok n (\<kappa>(f := c)) (k + 1)"
proof -
  have "{g. unat g < n \<and> c_dirty ((\<kappa>(f := c)) g)} = insert f {g. unat g < n \<and> c_dirty (\<kappa> g)}" using assms by auto
  then show ?thesis using assms(1,3) by (simp add: dirty_ok_def)
qed

lemma dirty_clear:
  assumes "dirty_ok n \<kappa> k" "\<not> c_dirty c" "c_dirty (\<kappa> f)" "unat f < n"
  shows "dirty_ok n (\<kappa>(f := c)) (k - 1)"
proof -
  have "{g. unat g < n \<and> c_dirty (\<kappa> g)} = insert f {g. unat g < n \<and> c_dirty ((\<kappa>(f := c)) g)}" using assms by auto
  then have "card {g. unat g < n \<and> c_dirty (\<kappa> g)} = Suc (card {g. unat g < n \<and> c_dirty ((\<kappa>(f := c)) g)})"
    using assms(2) by simp
  then show ?thesis using assms(1) by (simp add: dirty_ok_def)
qed

abbreviation loading_frames :: "nat \<Rightarrow> (FrameId \<Rightarrow> ctl) \<Rightarrow> FrameId set" where
  "loading_frames n \<kappa> \<equiv> {f. unat f < n \<and> c_state (\<kappa> f) = kLoading}"

lemma load_ok_cong: "load_ok V m \<tau> l \<Longrightarrow> (\<And>f. f \<in> set (load_frames l) \<Longrightarrow> \<tau>' f = \<tau> f) \<Longrightarrow> load_ok V m \<tau>' l"
  unfolding load_ok_def load_frames_def by auto

lemma loads_tag:
  assumes "loads_ok n V m \<kappa> \<tau> Z loads" "f \<notin> loading_frames n \<kappa>" "l \<in> set loads"
  shows "load_ok V m (\<tau>(f := x)) l"
proof (rule load_ok_cong)
  show "load_ok V m \<tau> l" using assms(1,3) by (simp add: loads_ok_def)
  have "set (load_frames l) \<subseteq> loading_frames n \<kappa>" using assms(1,3) unfolding loads_ok_def by auto
  then show "(\<tau>(f := x)) g = \<tau> g" if "g \<in> set (load_frames l)" for g using that assms(2) by auto
qed

lemma loads_upd:
  assumes "loads_ok n V m \<kappa> \<tau> Z loads" "c_state c = kLoading \<longleftrightarrow> c_state (\<kappa> f) = kLoading"
    "c_state c = kLoading \<Longrightarrow> x = \<tau> f"
  shows "loads_ok n V m (\<kappa>(f := c)) (\<tau>(f := x)) Z loads"
proof -
  have "loading_frames n (\<kappa>(f := c)) = loading_frames n \<kappa>" using assms(2) by auto
  moreover have "load_ok V m (\<tau>(f := x)) l" if "l \<in> set loads" for l
    using loads_tag [OF assms(1) _ that] assms that by (cases "c_state c = kLoading") (auto simp: loads_ok_def)
  ultimately show ?thesis using assms(1) unfolding loads_ok_def by blast
qed

lemma loads_reserve:
  assumes "loads_ok n V m \<kappa> \<tau> Z loads" "c_state (\<kappa> f) \<noteq> kLoading" "c_state c = kLoading" "unat f < n"
  shows "loads_ok n V m (\<kappa>(f := c)) (\<tau>(f := x)) (f # Z) loads"
proof -
  have "loading_frames n (\<kappa>(f := c)) = insert f (loading_frames n \<kappa>)" using assms(3,4) by auto
  moreover have "load_ok V m (\<tau>(f := x)) l" if "l \<in> set loads" for l
    using loads_tag [OF assms(1) _ that] assms(2) by auto
  ultimately show ?thesis using assms(1,2) unfolding loads_ok_def by auto
qed

lemma loads_done:
  assumes "loads_ok n V m \<kappa> \<tau> (f # Z) loads" "c_state c \<noteq> kLoading"
  shows "loads_ok n V m (\<kappa>(f := c)) (\<tau>(f := x)) Z loads"
proof -
  define ys where "ys = concat (map load_frames loads)"
  have old: "distinct (ys @ f # Z)" "set (ys @ f # Z) = loading_frames n \<kappa>"
    using assms(1) unfolding loads_ok_def ys_def by blast+
  have "loading_frames n (\<kappa>(f := c)) = loading_frames n \<kappa> - {f}" using assms(2) by auto
  also have "\<dots> = set (ys @ Z)" unfolding old(2) [symmetric] using old(1) by auto
  finally have "set (ys @ Z) = loading_frames n (\<kappa>(f := c))" by (rule sym)
  moreover have "distinct (ys @ Z)" using old(1) by auto
  moreover have "load_ok V m (\<tau>(f := x)) l" if "l \<in> set loads" for l
  proof (rule load_ok_cong)
    show "load_ok V m \<tau> l" using assms(1) that by (simp add: loads_ok_def)
    have "f \<notin> set (load_frames l)" using old(1) that unfolding ys_def by auto
    then show "(\<tau>(f := x)) g = \<tau> g" if "g \<in> set (load_frames l)" for g using that by auto
  qed
  ultimately show ?thesis unfolding loads_ok_def ys_def by blast
qed

lemma loads_take:
  "loads_ok n V m \<kappa> \<tau> Z (l # loads) \<Longrightarrow> load_ok V m \<tau> l \<and> loads_ok n V m \<kappa> \<tau> (load_frames l @ Z) loads"
  unfolding loads_ok_def by auto

lemma loads_submit:
  "loads_ok n V m \<kappa> \<tau> (load_frames l @ Z) loads \<Longrightarrow> load_ok V m \<tau> l \<Longrightarrow> loads_ok n V m \<kappa> \<tau> Z (loads @ [l])"
  unfolding loads_ok_def by auto

lemma data_upd:
  assumes "data_ok n bs V G \<kappa> \<tau> \<mu> d" "same_off f G G'" "length m = bs" "c_state c \<noteq> kFree \<Longrightarrow> x \<in> V"
    "c_state c = kResident \<Longrightarrow> \<not> c_dirty c \<Longrightarrow> f \<notin> rf_zeroed G' \<Longrightarrow> m = d x"
  shows "data_ok n bs V G' (\<kappa>(f := c)) (\<tau>(f := x)) (\<mu>(f := m)) d"
  using assms unfolding data_ok_def same_off_def by auto

lemma dataD:
  assumes "data_ok n bs V G \<kappa> \<tau> \<mu> d" "unat f < n"
  shows "length (\<mu> f) = bs" "c_state (\<kappa> f) \<noteq> kFree \<Longrightarrow> \<tau> f \<in> V"
    "c_state (\<kappa> f) = kResident \<Longrightarrow> \<not> c_dirty (\<kappa> f) \<Longrightarrow> f \<notin> rf_zeroed G \<Longrightarrow> \<mu> f = d (\<tau> f)"
  using assms unfolding data_ok_def by blast+

text \<open>When the tag and the memory stay as they are.\<close>

lemma data_same:
  assumes "data_ok n bs V G \<kappa> \<tau> \<mu> d" "same_off f G G'" "unat f < n" "c_state c = c_state (\<kappa> f)"
    "\<not> c_dirty c \<Longrightarrow> f \<notin> rf_zeroed G' \<Longrightarrow> \<not> c_dirty (\<kappa> f) \<and> f \<notin> rf_zeroed G"
  shows "data_ok n bs V G' (\<kappa>(f := c)) \<tau> \<mu> d"
proof -
  have "data_ok n bs V G' (\<kappa>(f := c)) (\<tau>(f := \<tau> f)) (\<mu>(f := \<mu> f)) d"
    using dataD [OF assms(1,3)] assms(4,5) by (intro data_upd [OF assms(1,2)]) simp_all
  then show ?thesis by simp
qed

lemma tasks_same:
  assumes "tasks_ok n bs \<kappa> \<tau> \<mu> tasks next Q A" "c_queued c = c_queued (\<kappa> f)" "c_active c = c_active (\<kappa> f)" "unat f < n"
    "c_queued c \<or> c_active c \<Longrightarrow> c_state c = c_state (\<kappa> f)"
    "c_queued c \<or> c_active c \<Longrightarrow> \<not> c_redirtied c \<Longrightarrow> \<not> c_excl c \<Longrightarrow> \<not> c_redirtied (\<kappa> f) \<and> \<not> c_excl (\<kappa> f)"
  shows "tasks_ok n bs (\<kappa>(f := c)) \<tau> \<mu> tasks next Q A"
proof -
  have "tasks_ok n bs (\<kappa>(f := c)) (\<tau>(f := \<tau> f)) (\<mu>(f := \<mu> f)) tasks next Q A"
    by (rule tasks_upd [OF assms(1-4)]) (use assms(5,6) in blast)
  then show ?thesis by simp
qed

lemma loads_same:
  assumes "loads_ok n V m \<kappa> \<tau> Z loads" "c_state c = kLoading \<longleftrightarrow> c_state (\<kappa> f) = kLoading"
  shows "loads_ok n V m (\<kappa>(f := c)) \<tau> Z loads"
  using loads_upd [OF assms, of "\<tau> f"] by simp

lemma data_disk:
  "data_ok n bs V G \<kappa> \<tau> \<mu> d \<Longrightarrow>
   (\<And>f. unat f < n \<Longrightarrow> c_state (\<kappa> f) = kResident \<Longrightarrow> \<not> c_dirty (\<kappa> f) \<Longrightarrow> d' (\<tau> f) = d (\<tau> f)) \<Longrightarrow> data_ok n bs V G \<kappa> \<tau> \<mu> d'"
  unfolding data_ok_def by simp

section \<open>Pages\<close>

lemma page_resident:
  assumes "table_ok n \<kappa> \<tau> pt" "n \<le> 2 ^ 31" "unat f < n" "c_state (\<kappa> f) = kResident"
  shows "page_of n \<kappa> \<tau> \<mu> d (\<tau> f) = \<mu> f"
proof -
  let ?P = "\<lambda>g. c_state (\<kappa> g) = kResident \<and> \<tau> g = \<tau> f"
  have ids: "g \<in> set (frame_ids n) \<longleftrightarrow> unat g < n" for g using set_frame_ids [of n] assms(2) by simp
  obtain g where g: "List.find ?P (frame_ids n) = Some g"
    using assms(3,4) ids by (cases "List.find ?P (frame_ids n)") (auto simp: find_None_iff)
  then have "g \<in> set (frame_ids n) \<and> ?P g" by (rule find_SomeD)
  then have "g = f" using tableD(5) [OF assms(1), of g f] assms(3,4) ids [of g] by simp
  then show ?thesis unfolding page_of_def g by simp
qed

lemma page_absent:
  assumes "n \<le> 2 ^ 31" "\<And>f. unat f < n \<Longrightarrow> c_state (\<kappa> f) = kResident \<Longrightarrow> \<tau> f \<noteq> t"
  shows "page_of n \<kappa> \<tau> \<mu> d t = d t"
proof -
  have "List.find (\<lambda>g. c_state (\<kappa> g) = kResident \<and> \<tau> g = t) (frame_ids n) = None"
    using assms set_frame_ids [of n] by (auto simp: find_None_iff)
  then show ?thesis unfolding page_of_def by simp
qed

lemma page_cases:
  assumes "table_ok n \<kappa> \<tau> pt" "n \<le> 2 ^ 31"
  obtains (resident) f where "unat f < n" "c_state (\<kappa> f) = kResident" "\<tau> f = t" "\<And>\<mu> d. page_of n \<kappa> \<tau> \<mu> d t = \<mu> f"
  | (absent) "\<And>f. unat f < n \<Longrightarrow> c_state (\<kappa> f) = kResident \<Longrightarrow> \<tau> f \<noteq> t" "\<And>\<mu> d. page_of n \<kappa> \<tau> \<mu> d t = d t"
proof (cases "\<exists>f. unat f < n \<and> c_state (\<kappa> f) = kResident \<and> \<tau> f = t")
  case True
  then show ?thesis using page_resident [OF assms] resident by blast
next
  case False
  then show ?thesis using page_absent [OF assms(2)] absent by metis
qed

lemma page_same:
  assumes "(c_state c = kResident) = (c_state (\<kappa> f) = kResident)"
  shows "page_of n (\<kappa>(f := c)) \<tau> \<mu> d = page_of n \<kappa> \<tau> \<mu> d"
proof (rule ext)
  fix t
  have "(\<lambda>g. c_state ((\<kappa>(f := c)) g) = kResident \<and> \<tau> g = t) = (\<lambda>g. c_state (\<kappa> g) = kResident \<and> \<tau> g = t)"
    using assms by (auto simp: fun_eq_iff)
  then show "page_of n (\<kappa>(f := c)) \<tau> \<mu> d t = page_of n \<kappa> \<tau> \<mu> d t" unfolding page_of_def by simp
qed

lemma page_upd:
  assumes "table_ok n \<kappa> \<tau> pt" "table_ok n (\<kappa>(f := c)) (\<tau>(f := x)) pt'" "n \<le> 2 ^ 31" "unat f < n"
  shows "page_of n (\<kappa>(f := c)) (\<tau>(f := x)) (\<mu>(f := m)) d t =
    (if c_state c = kResident \<and> x = t then m
     else if c_state (\<kappa> f) = kResident \<and> \<tau> f = t then d t else page_of n \<kappa> \<tau> \<mu> d t)"
proof (cases "c_state c = kResident \<and> x = t")
  case True
  then show ?thesis using page_resident [OF assms(2,3,4), of "\<mu>(f := m)" d] by simp
next
  case new: False
  show ?thesis
  proof (cases "c_state (\<kappa> f) = kResident \<and> \<tau> f = t")
    case True
    have "(\<tau>(f := x)) g \<noteq> t" if "unat g < n" "c_state ((\<kappa>(f := c)) g) = kResident" for g
      using new True that tableD(5) [OF assms(1) that(1) assms(4)] by (cases "g = f") auto
    then have "page_of n (\<kappa>(f := c)) (\<tau>(f := x)) (\<mu>(f := m)) d t = d t" by (rule page_absent [OF assms(3)])
    then show ?thesis by (simp only: if_not_P [OF new] if_P [OF True])
  next
    case False
    have "(\<lambda>g. c_state ((\<kappa>(f := c)) g) = kResident \<and> (\<tau>(f := x)) g = t) = (\<lambda>g. c_state (\<kappa> g) = kResident \<and> \<tau> g = t)"
      using new False by (intro ext) auto
    moreover have "(\<mu>(f := m)) g = \<mu> g" if "List.find (\<lambda>g. c_state (\<kappa> g) = kResident \<and> \<tau> g = t) (frame_ids n) = Some g" for g
      using find_SomeD [OF that] False by auto
    ultimately show ?thesis
      unfolding page_of_def if_not_P [OF new] if_not_P [OF False]
      by (cases "List.find (\<lambda>g. c_state (\<kappa> g) = kResident \<and> \<tau> g = t) (frame_ids n)") simp_all
  qed
qed

end
