(* ===== verification/Buffer_Frames.thy ===== *)
theory Buffer_Frames
  imports Buffer_Updates
begin

text \<open>
  How the steps of an operation change the invariant: changes that concern neither pages
  nor frames, a change of the control word that keeps the state of the frame, and each of
  the transitions of a frame with the bookkeeping that goes with it.
\<close>

section \<open>Bookkeeping outside the invariant\<close>

text \<open>
  The core of a state is what the invariant speaks of.  The events of the observer, the
  cleaner, the written files, the strategies and the recovery positions are outside.
\<close>

definition core_desc :: "BufferDescriptor \<Rightarrow> BufferDescriptor" where
  "core_desc d = bd_default\<lparr>bd_control := bd_control d, bd_tag_file_id := bd_tag_file_id d,
     bd_tag_block_id := bd_tag_block_id d\<rparr>"

definition core :: "('r, 'd) BufferManager \<Rightarrow> ('r, 'd) BufferManager" where
  "core s = s\<lparr>bm_events := [], bm_cleaner_controller := None, bm_written_files := [], bm_segment := None,
     bm_strategies := (\<lambda>_. as_create BufferAccessStrategyType.kNormal 0),
     bm_descriptors := (\<lambda>f. core_desc (bm_descriptors s f))\<rparr>"

lemma core_fields [simp]:
  "bm_pool_size (core s) = bm_pool_size s" "bm_geometry (core s) = bm_geometry s" "bm_disk (core s) = bm_disk s"
  "bm_replacer (core s) = bm_replacer s" "bm_frames (core s) = bm_frames s"
  "bm_flush_scheduler (core s) = bm_flush_scheduler s" "bm_next_task (core s) = bm_next_task s"
  "bm_page_table (core s) = bm_page_table s" "bm_free_list (core s) = bm_free_list s"
  "bm_dirty_page_count (core s) = bm_dirty_page_count s" "bm_loads (core s) = bm_loads s"
  "bm_options (core s) = bm_options s" "bm_failed (core s) = bm_failed s" "bm_closed (core s) = bm_closed s"
  "bm_this (core s) = bm_this s" "bm_prefetches_in_flight (core s) = bm_prefetches_in_flight s"
  "bm_operations (core s) = bm_operations s"
  "control (core s) = control s" "frame_tag (core s) = frame_tag s"
  by (simp_all add: core_def control_def frame_tag_def core_desc_def LoadTag_def fun_eq_iff)

lemma core_ctl [simp]: "ctl_of (core s) = ctl_of s" "queued (core s) = queued s"
  unfolding ctl_of_def queued_def by (simp_all add: fun_eq_iff)

lemma core_eqD:
  assumes "core s' = core s"
  shows "bm_pool_size s' = bm_pool_size s" "bm_geometry s' = bm_geometry s" "bm_disk s' = bm_disk s"
    "bm_replacer s' = bm_replacer s" "bm_frames s' = bm_frames s"
    "bm_flush_scheduler s' = bm_flush_scheduler s" "bm_next_task s' = bm_next_task s"
    "bm_page_table s' = bm_page_table s" "bm_free_list s' = bm_free_list s"
    "bm_dirty_page_count s' = bm_dirty_page_count s" "bm_loads s' = bm_loads s"
    "bm_options s' = bm_options s" "bm_failed s' = bm_failed s" "bm_closed s' = bm_closed s"
    "bm_this s' = bm_this s" "bm_prefetches_in_flight s' = bm_prefetches_in_flight s"
    "bm_operations s' = bm_operations s" "control s' = control s" "frame_tag s' = frame_tag s" "ctl_of s' = ctl_of s"
    "queued s' = queued s"
  using arg_cong [OF assms, of bm_pool_size] arg_cong [OF assms, of bm_geometry] arg_cong [OF assms, of bm_disk]
    arg_cong [OF assms, of bm_replacer] arg_cong [OF assms, of bm_frames] arg_cong [OF assms, of bm_flush_scheduler]
    arg_cong [OF assms, of bm_next_task] arg_cong [OF assms, of bm_page_table] arg_cong [OF assms, of bm_free_list]
    arg_cong [OF assms, of bm_dirty_page_count] arg_cong [OF assms, of bm_loads] arg_cong [OF assms, of bm_options]
    arg_cong [OF assms, of bm_failed] arg_cong [OF assms, of bm_closed] arg_cong [OF assms, of bm_this]
    arg_cong [OF assms, of bm_prefetches_in_flight] arg_cong [OF assms, of bm_operations]
    arg_cong [OF assms, of control] arg_cong [OF assms, of frame_tag] arg_cong [OF assms, of ctl_of]
    arg_cong [OF assms, of queued]
  by (simp_all del: core_def)

lemma core_observe [simp]: "core (observe ev s) = core s"
  by (simp add: core_def observe_def)

lemma core_cleaner [simp]:
  "core (ResetCleanerCandidate f s) = core s" "core (MaybeEnqueueCleanerCandidate f s) = core s"
  "core (NotifyCleaner s) = core s" "core (finish_cleaner_flush b s) = core s"
  "core (s\<lparr>bm_cleaner_controller := c\<rparr>) = core s"
  by (simp_all add: core_def ResetCleanerCandidate_def MaybeEnqueueCleanerCandidate_def NotifyCleaner_def
      finish_cleaner_flush_def split: option.splits)

lemma core_written [simp]:
  "core (NoteLocalWrittenFile f s) = core s" "core (snd (RecordWrittenFile f s)) = core s" "core (NoteWrittenFile f s) = core s"
proof -
  show a: "core (NoteLocalWrittenFile f s) = core s" for s :: "('a, 'b) BufferManager"
    by (simp add: core_def NoteLocalWrittenFile_def)
  show b: "core (snd (RecordWrittenFile f s)) = core s"
    using a by (auto simp: RecordWrittenFile_def core_def split: option.splits)
  show "core (NoteWrittenFile f s) = core s"
    using a b by (simp add: NoteWrittenFile_def case_prod_beta)
qed

lemma core_written_fold [simp]: "core (fold NoteWrittenFile fs s) = core s"
  by (induction fs arbitrary: s) simp_all

lemma core_written_set [simp]: "core (s\<lparr>bm_written_files := fs\<rparr>) = core s" "core (s\<lparr>bm_segment := g\<rparr>) = core s"
  by (simp_all add: core_def)

lemma core_strategies [simp]: "core (s\<lparr>bm_strategies := st\<rparr>) = core s" "core (remember_frame p f s) = core s"
  by (simp_all add: core_def remember_frame_def split: option.splits)

lemma core_update_desc:
  "(\<And>d. core_desc (g d) = core_desc d) \<Longrightarrow> core (update_desc f g s) = core s"
  by (auto simp: core_def update_desc_def fun_eq_iff)

lemma core_commute:
  "core (s\<lparr>bm_disk := d\<rparr>) = (core s)\<lparr>bm_disk := d\<rparr>"
  "core (s\<lparr>bm_flush_scheduler := c\<rparr>) = (core s)\<lparr>bm_flush_scheduler := c\<rparr>"
  "core (s\<lparr>bm_frames := m\<rparr>) = (core s)\<lparr>bm_frames := m\<rparr>"
  "core (s\<lparr>bm_replacer := r\<rparr>) = (core s)\<lparr>bm_replacer := r\<rparr>"
  "core (s\<lparr>bm_page_table := t\<rparr>) = (core s)\<lparr>bm_page_table := t\<rparr>"
  "core (s\<lparr>bm_free_list := l\<rparr>) = (core s)\<lparr>bm_free_list := l\<rparr>"
  "core (s\<lparr>bm_dirty_page_count := k\<rparr>) = (core s)\<lparr>bm_dirty_page_count := k\<rparr>"
  "core (s\<lparr>bm_loads := ls\<rparr>) = (core s)\<lparr>bm_loads := ls\<rparr>"
  "core (s\<lparr>bm_prefetches_in_flight := p\<rparr>) = (core s)\<lparr>bm_prefetches_in_flight := p\<rparr>"
  "core (set_control f w s) = set_control f w (core s)"
  by (cases s; simp add: core_def set_control_def update_desc_def core_desc_def fun_eq_iff)+

lemma core_store_tag:
  assumes "\<And>d. core_desc (g d) = core_desc (StoreTag t d)"
  shows "core (update_desc f g s) = update_desc f (StoreTag t) (core s)"
  using assms
  by (cases s) (simp add: core_def update_desc_def core_desc_def StoreTag_def fun_eq_iff)

section \<open>Adding a task\<close>

definition add_task :: "BufferManagerFlushTask \<Rightarrow> ('r, 'd) BufferManager \<Rightarrow> ('r, 'd) BufferManager" where
  "add_task task s = s\<lparr>bm_next_task := bm_next_task s + 1, bm_flush_scheduler := (bm_flush_scheduler s)
     \<lparr>sch_tasks := (sch_tasks (bm_flush_scheduler s))(bm_next_task s := task)\<rparr>\<rparr>"

lemma add_task_set_control: "add_task task (set_control f w s) = set_control f w (add_task task s)"
  by (simp add: add_task_def set_control_def update_desc_def)

lemma add_task_core: "core s' = core s \<Longrightarrow> core (add_task task s') = core (add_task task s)"
  unfolding add_task_def using core_eqD [of s' s]
  by (cases s; cases s') (simp add: core_def)

lemma add_task_fields [simp]:
  "control (add_task task s) = control s" "frame_tag (add_task task s) = frame_tag s" "ctl_of (add_task task s) = ctl_of s"
  "bm_page_table (add_task task s) = bm_page_table s" "bm_free_list (add_task task s) = bm_free_list s"
  "bm_frames (add_task task s) = bm_frames s" "bm_disk (add_task task s) = bm_disk s"
  "bm_pool_size (add_task task s) = bm_pool_size s" "bm_geometry (add_task task s) = bm_geometry s"
  "bm_loads (add_task task s) = bm_loads s" "bm_replacer (add_task task s) = bm_replacer s"
  "bm_dirty_page_count (add_task task s) = bm_dirty_page_count s" "queued (add_task task s) = queued s"
  "bm_next_task (add_task task s) = Suc (bm_next_task s)" "bm_options (add_task task s) = bm_options s"
  "bm_this (add_task task s) = bm_this s" "bm_failed (add_task task s) = bm_failed s" "bm_closed (add_task task s) = bm_closed s"
  "sch_submit_batch_size (bm_flush_scheduler (add_task task s)) = sch_submit_batch_size (bm_flush_scheduler s)"
  "tasks_of (add_task task s) = (tasks_of s)(bm_next_task s := task)"
  unfolding add_task_def ctl_of_def queued_def by (simp_all add: control_def frame_tag_def fun_eq_iff)

section \<open>Transitions\<close>

lemmas upd_triv = fun_upd_triv

context buffer_pool
begin

lemma invD:
  assumes "inv G X Z Q A s"
  shows "0 < n" "n \<le> 2 ^ 31" "bm_size s = n" "bm_block_size s = bs" "dinv (bm_disk s)"
    "0 < sch_submit_batch_size (bm_flush_scheduler s)" "frames_ok n G (ctl_of s)"
    "table_ok n (ctl_of s) (frame_tag s) (bm_page_table s)" "free_ok n (ctl_of s) X (bm_free_list s)"
    "policy_ok rinv tracked n (ctl_of s) (bm_replacer s)"
    "tasks_ok n bs (ctl_of s) (frame_tag s) (bm_frames s) (tasks_of s) (bm_next_task s) Q A"
    "dirty_ok n (ctl_of s) (bm_dirty_page_count s)"
    "loads_ok n V (dk_max_request_blocks D) (ctl_of s) (frame_tag s) Z (bm_loads s)"
    "data_ok n bs V G (ctl_of s) (frame_tag s) (bm_frames s) (contents_of s)"
  using assms unfolding inv_def by blast+

lemma inv_frame: "inv G X Z Q A s \<Longrightarrow> unat f < n \<Longrightarrow> frame_ok G f (ctl_of s f)"
  using invD(7) [of G X Z Q A s] unfolding frames_ok_def by blast

lemma inv_core:
  assumes "core s' = core s"
  shows "inv G X Z Q A s' = inv G X Z Q A s" "page s' = page s"
  unfolding inv_def bm_page_def core_eqD [OF assms] by (rule refl)+

lemma inv_perm:
  assumes "inv G X Z Q A s" "mset Q' = mset Q" "mset A' = mset A"
  shows "inv G X Z Q' A' s"
proof -
  note a = mset_eq_setD [OF assms(2)] mset_eq_setD [OF assms(3)]
  have b: "distinct (map (\<lambda>t. ft_frame_id (tasks t)) (Q' @ A')) = distinct (map (\<lambda>t. ft_frame_id (tasks t)) (Q @ A))"
    for tasks :: "nat \<Rightarrow> BufferManagerFlushTask"
    by (rule mset_eq_imp_distinct_iff) (simp add: assms(2,3))
  show ?thesis using assms(1) unfolding inv_def tasks_ok_def set_append a b .
qed

lemma page_resident_at:
  assumes "inv G X Z Q A s" "unat f < n" "c_state (ctl_of s f) = kResident"
  shows "page s (frame_tag s f) = bm_frames s f"
  unfolding bm_page_def invD(3) [OF assms(1)] by (rule page_resident [OF invD(8,2) [OF assms(1)] assms(2,3)])

text \<open>
  A change of the control word that keeps the state, the dirty flag and the writeback flags:
  waiting, pins and latches.
\<close>

definition neutral :: "ctl \<Rightarrow> ctl \<Rightarrow> bool" where
  "neutral c c' \<longleftrightarrow> c_state c' = c_state c \<and> c_dirty c' = c_dirty c \<and> c_queued c' = c_queued c \<and>
     c_active c' = c_active c \<and>
     (c_queued c \<or> c_active c \<longrightarrow> \<not> c_redirtied c' \<longrightarrow> \<not> c_excl c' \<longrightarrow> \<not> c_redirtied c \<and> \<not> c_excl c)"

lemma inv_neutral:
  assumes inv: "inv G X Z Q A s" and f: "unat f < n" and c: "neutral (ctl_of s f) (decode w)"
    and ok: "frame_ok G' f (decode w)" and G: "same_off f G G'"
    and z: "f \<in> rf_zeroed G \<Longrightarrow> \<not> c_dirty (ctl_of s f) \<Longrightarrow> f \<in> rf_zeroed G'"
  shows "inv G' X Z Q A (set_control f w s)" "page (set_control f w s) = page s"
proof -
  note c' = c [unfolded neutral_def] and old = invD [OF inv]
  have "frames_ok n G' ((ctl_of s)(f := decode w))" by (rule frames_upd [OF old(7) ok G])
  moreover have table: "table_ok n ((ctl_of s)(f := decode w)) (frame_tag s) (bm_page_table s)"
    using c' by (intro table_upd [OF old(8)]) simp
  moreover have "free_ok n ((ctl_of s)(f := decode w)) X (bm_free_list s)" using c' by (intro free_upd [OF old(9)]) simp
  moreover have "policy_ok rinv tracked n ((ctl_of s)(f := decode w)) (bm_replacer s)"
    using c' by (intro policy_upd [OF old(10)]) simp
  moreover have "tasks_ok n bs ((ctl_of s)(f := decode w)) (frame_tag s) (bm_frames s) (tasks_of s) (bm_next_task s) Q A"
    by (rule tasks_same [OF old(11)]) (use c' f in auto)
  moreover have "dirty_ok n ((ctl_of s)(f := decode w)) (bm_dirty_page_count s)" using c' by (intro dirty_upd [OF old(12)]) simp
  moreover have "loads_ok n V (dk_max_request_blocks D) ((ctl_of s)(f := decode w)) (frame_tag s) Z (bm_loads s)"
    using c' by (intro loads_same [OF old(13)]) simp
  moreover have "data_ok n bs V G' ((ctl_of s)(f := decode w)) (frame_tag s) (bm_frames s) (contents_of s)"
    by (rule data_same [OF old(14) G f]) (use c' z in auto)
  ultimately show "inv G' X Z Q A (set_control f w s)" using old(1-6) unfolding inv_def by simp
  show "page (set_control f w s) = page s" using c' by (simp add: bm_page_def page_same)
qed

end

end
