(* ===== verification/Spec2Isabelle.thy ===== *)
theory Spec2Isabelle
  imports Frame_Properties Free_List Page_Table Clock_Replacers Lru_Replacers Io_Engine
    Telemetry Flush_Scheduler Cleaner_Controller Buffer_Frames
begin

text \<open>
  TelePath is a buffer pool: it caches fixed-size pages of files in a fixed number of
  frames, shares the frames between threads, writes changed pages back, and evicts pages
  by a replacement policy.

  \<^descr> \<^verbatim>\<open>Prelude\<close> names the machine types (\<^verbatim>\<open>common/types.h\<close>) and holds the shared lemmas
  on index-linked chains.
  \<^descr> \<^verbatim>\<open>Status\<close> is \<^verbatim>\<open>common/status.h\<close>: errors, their classes and results.
  \<^descr> \<^verbatim>\<open>Frame_Control\<close> is \<^verbatim>\<open>buffer/frame_control.h\<close> and \<^verbatim>\<open>.cc\<close>: the 32-bit control word
  of a frame and every operation on it.
  \<^descr> \<^verbatim>\<open>Frame_Fields\<close> reads the word as a record and gives the effect of each operation on
  its fields.
  \<^descr> \<^verbatim>\<open>Frame_Protocol\<close>, \<^verbatim>\<open>Frame_Effects\<close>, \<^verbatim>\<open>Frame_Invariant\<close> and
  \<^verbatim>\<open>Frame_Properties\<close> treat one frame used by any number of threads: the actions of the
  buffer manager on it, an invariant kept by each, and what follows.

  Concurrency is interleaving at the granularity of one successful compare-and-swap; weak
  memory ordering is not modelled.  A wait is a value (\<open>WaitWhile\<close> gives the word slept
  on), never a loop, so no fuel is used in these theories.
\<close>

end
